(* ===== verification/Gateway_Prelude.thy ===== *)
theory Gateway_Prelude
  imports Complex_Main "HOL-Library.Word" "HOL-Library.AList" "HOL-Library.Sublist" "HOL-Library.Multiset"
    "HOL-Library.List_Lexorder" "HOL-Library.Char_ord"
begin

text \<open>
  Shared vocabulary of the development.

  \<^item> \<^emph>\<open>Strings.\<close> A \<^verbatim>\<open>std::string\<close> is a HOL \<^typ>\<open>string\<close> (a list of bytes).
    The members the sources call are modelled here once: \<^verbatim>\<open>find\<close> (with \<^verbatim>\<open>npos\<close>
    as \<^term>\<open>None\<close>), \<^verbatim>\<open>rfind(x, 0) == 0\<close> as a prefix test, \<^verbatim>\<open>substr\<close>,
    \<^verbatim>\<open>std::tolower\<close> on every byte, trimming of blanks, \<^verbatim>\<open>std::to_string\<close>.
  \<^item> \<^emph>\<open>Maps.\<close> An \<^verbatim>\<open>unordered_map\<close> is an association list with distinct keys; its order
    stands for the unspecified iteration order of the hash table, lookups go through
    \<^term>\<open>map_of\<close>, \<^verbatim>\<open>m[k] = v\<close> is \<^term>\<open>AList.update\<close>.
  \<^item> \<^emph>\<open>Collections.\<close> \<^verbatim>\<open>str_simps\<close> holds the rewrite rules on strings that the component
    theories share, \<^verbatim>\<open>inv_intros\<close> the preservation lemmas of their invariants.
\<close>

named_theorems str_simps \<open>rewriting of the std::string members\<close>
named_theorems inv_intros \<open>preservation of component invariants\<close>

subsection \<open>Types shared by the components\<close>

type_synonym headers = "(string \<times> string) list"
type_synonym size_t = nat
type_synonym u8 = "8 word"
type_synonym u64 = "64 word"

abbreviation code :: "char \<Rightarrow> nat" where
  "code c \<equiv> of_char c"

abbreviation CR :: char where
  "CR \<equiv> CHR 0x0D"

abbreviation LF :: char where
  "LF \<equiv> CHR 0x0A"

abbreviation TAB :: char where
  "TAB \<equiv> CHR 0x09"

abbreviation NUL :: char where
  "NUL \<equiv> CHR 0x00"

abbreviation crlf :: string where
  "crlf \<equiv> [CR, LF]"

subsection \<open>Bytes\<close>

definition is_digit :: "char \<Rightarrow> bool" where
  "is_digit c \<longleftrightarrow> 48 \<le> code c \<and> code c \<le> 57"

definition is_upper :: "char \<Rightarrow> bool" where
  "is_upper c \<longleftrightarrow> 65 \<le> code c \<and> code c \<le> 90"

definition is_lower :: "char \<Rightarrow> bool" where
  "is_lower c \<longleftrightarrow> 97 \<le> code c \<and> code c \<le> 122"

definition is_blank :: "char \<Rightarrow> bool" where
  "is_blank c \<longleftrightarrow> c = CHR '' '' \<or> c = TAB"

text \<open>\<^verbatim>\<open>std::tolower\<close> in the C locale: only the ASCII capitals change.\<close>

definition to_lower_char :: "char \<Rightarrow> char" where
  "to_lower_char c = (if is_upper c then char_of (code c + 32) else c)"

definition lower :: "string \<Rightarrow> string" where
  "lower s = map to_lower_char s"

lemma code_less [simp]: "code c < 256"
proof -
  have "code c mod 256 = code (char_of (code c))"
    by (rule of_char_of [symmetric])
  then show ?thesis
    by (metis char_of_char mod_less_divisor zero_less_numeral)
qed

lemma code_inject [simp]: "code c = code d \<longleftrightarrow> c = d"
  by (metis char_of_char)

lemma char_of_iff:
  "char_of (n :: nat) = c \<longleftrightarrow> n mod 256 = code c"
  "c = char_of (n :: nat) \<longleftrightarrow> code c = n mod 256"
  by (metis char_of_char char_of_mod_256 of_char_of)+

lemma code_to_lower_char:
  "code (to_lower_char c) = (if is_upper c then code c + 32 else code c)"
proof (cases "is_upper c")
  case True
  then have "(code c + 32) mod 256 = code c + 32"
    by (simp add: is_upper_def)
  with True show ?thesis
    by (simp add: to_lower_char_def)
qed (simp add: to_lower_char_def)

lemma not_upper_to_lower [simp]: "\<not> is_upper (to_lower_char c)"
  using code_to_lower_char [of c] by (auto simp: is_upper_def split: if_splits)

lemma to_lower_char_idem [simp]: "to_lower_char (to_lower_char c) = to_lower_char c"
  using not_upper_to_lower [of c] unfolding to_lower_char_def [of "to_lower_char c"] by simp

lemma to_lower_char_id: "\<not> is_upper c \<Longrightarrow> to_lower_char c = c"
  by (simp add: to_lower_char_def)

lemma length_lower [simp, str_simps]: "length (lower s) = length s"
  by (simp add: lower_def)

lemma lower_idem [simp, str_simps]: "lower (lower s) = lower s"
  by (simp add: lower_def)

lemma lower_Nil [simp, str_simps]: "lower [] = []"
  by (simp add: lower_def)

lemma lower_append [str_simps]: "lower (s @ t) = lower s @ lower t"
  by (simp add: lower_def)

lemma lower_eq_Nil [simp, str_simps]: "lower s = [] \<longleftrightarrow> s = []"
  by (simp add: lower_def)

lemma lower_id: "(\<forall>c \<in> set s. \<not> is_upper c) \<Longrightarrow> lower s = s"
  by (simp add: lower_def to_lower_char_id map_idI)

lemma lower_not_upper: "c \<in> set (lower s) \<Longrightarrow> \<not> is_upper c"
  by (auto simp: lower_def)

subsection \<open>Searching\<close>

definition starts_with :: "string \<Rightarrow> string \<Rightarrow> bool" where
  "starts_with pre s \<longleftrightarrow> take (length pre) s = pre"

fun index_of :: "(string \<Rightarrow> bool) \<Rightarrow> string \<Rightarrow> nat option" where
  "index_of P [] = (if P [] then Some 0 else None)"
| "index_of P (c # cs) = (if P (c # cs) then Some 0 else map_option Suc (index_of P cs))"

text \<open>\<^verbatim>\<open>hay.find(needle, pos)\<close>: \<^term>\<open>None\<close> is \<^verbatim>\<open>npos\<close>.\<close>

definition str_find :: "string \<Rightarrow> string \<Rightarrow> nat \<Rightarrow> nat option" where
  "str_find needle hay pos =
     (if pos \<le> length hay
      then map_option (\<lambda>i. pos + i) (index_of (starts_with needle) (drop pos hay))
      else None)"

definition find_char :: "char \<Rightarrow> string \<Rightarrow> nat option" where
  "find_char c s = str_find [c] s 0"

definition substr :: "string \<Rightarrow> nat \<Rightarrow> nat \<Rightarrow> string" where
  "substr s pos n = take n (drop pos s)"

lemma starts_with_append [simp]: "starts_with p (p @ s)"
  by (simp add: starts_with_def)

lemma starts_with_Nil [simp]: "starts_with [] s"
  by (simp add: starts_with_def)

lemma starts_with_iff: "starts_with p s \<longleftrightarrow> (\<exists>t. s = p @ t)"
  by (metis append_take_drop_id append_eq_conv_conj starts_with_def)

lemma starts_with_Cons [simp]:
  "starts_with (c # p) (d # s) \<longleftrightarrow> c = d \<and> starts_with p s"
  by (auto simp: starts_with_def)

lemma starts_with_Cons_Nil [simp]: "\<not> starts_with (c # p) []"
  by (simp add: starts_with_def)

lemma index_of_Some_iff:
  "index_of P s = Some i \<longleftrightarrow> i \<le> length s \<and> P (drop i s) \<and> (\<forall>j < i. \<not> P (drop j s))"
proof (induction s arbitrary: i)
  case Nil
  then show ?case by auto
next
  case (Cons c cs)
  show ?case
  proof (cases i)
    case 0
    then show ?thesis by simp
  next
    case (Suc k)
    then show ?thesis
      using Cons.IH [of k] by (auto simp: less_Suc_eq_0_disj)
  qed
qed

lemma all_le_Suc_iff: "(\<forall>j \<le> Suc n. P j) \<longleftrightarrow> P 0 \<and> (\<forall>j \<le> n. P (Suc j))"
  by (metis Suc_le_mono le0 not0_implies_Suc)

lemma index_of_None_iff: "index_of P s = None \<longleftrightarrow> (\<forall>j \<le> length s. \<not> P (drop j s))"
proof (induction s)
  case Nil
  then show ?case by simp
next
  case (Cons c cs)
  have "(\<forall>j \<le> length (c # cs). \<not> P (drop j (c # cs))) \<longleftrightarrow>
        \<not> P (c # cs) \<and> (\<forall>j \<le> length cs. \<not> P (drop j cs))"
    unfolding list.size add_0_right add_Suc_right One_nat_def all_le_Suc_iff by simp
  with Cons show ?case by simp
qed

lemma str_find_ge: "str_find n s pos = Some i \<Longrightarrow> pos \<le> i"
  by (auto simp: str_find_def split: if_splits)

lemma str_find_match:
  "str_find n s pos = Some i \<Longrightarrow> take (length n) (drop i s) = n"
  by (auto simp: str_find_def starts_with_def index_of_Some_iff add.commute split: if_splits)

lemma str_find_bound:
  assumes "str_find n s pos = Some i"
  shows "i + length n \<le> length s"
proof -
  have "length (take (length n) (drop i s)) = length n"
    using str_find_match [OF assms] by simp
  moreover have "i \<le> length s"
    using assms by (auto simp: str_find_def index_of_Some_iff split: if_splits)
  ultimately show ?thesis by auto
qed

text \<open>Searching for one byte is \<^term>\<open>takeWhile\<close>.\<close>

lemma index_of_char:
  "index_of (starts_with [c]) s =
     (if c \<in> set s then Some (length (takeWhile ((\<noteq>) c) s)) else None)"
  by (induction s) auto

lemma find_char_eq [str_simps]:
  "find_char c s = (if c \<in> set s then Some (length (takeWhile ((\<noteq>) c) s)) else None)"
  by (simp add: find_char_def str_find_def index_of_char)

lemma find_char_append:
  "c \<notin> set k \<Longrightarrow> find_char c (k @ c # v) = Some (length k)"
  by (auto simp: find_char_eq takeWhile_tail intro: arg_cong [of _ _ length])

lemma find_char_None: "find_char c s = None \<longleftrightarrow> c \<notin> set s"
  by (simp add: find_char_eq)

lemma find_char_split:
  assumes "find_char c s = Some i"
  shows "s = take i s @ c # drop (Suc i) s" and "c \<notin> set (take i s)"
proof -
  have "c \<in> set s"
    using assms by (auto simp: find_char_eq split: if_splits)
  then obtain ys zs where s: "s = ys @ c # zs" and c: "c \<notin> set ys"
    by (blast dest: split_list_first)
  then have "i = length ys"
    using assms by (simp add: find_char_append)
  with s c show "s = take i s @ c # drop (Suc i) s" and "c \<notin> set (take i s)"
    by simp_all
qed

lemma find_char_obtain:
  assumes "find_char c s = Some i"
  obtains k v where "s = k @ c # v" "c \<notin> set k" "length k = i"
proof -
  have "c \<in> set s" using assms by (auto simp: find_char_eq split: if_splits)
  then obtain k v where s: "s = k @ c # v" and c: "c \<notin> set k" by (blast dest: split_list_first)
  then have "length k = i" using assms by (simp add: find_char_append)
  with s c show ?thesis by (rule that)
qed

lemma str_find_char:
  "pos \<le> length s \<Longrightarrow> str_find [c] s pos = map_option (\<lambda>i. i + pos) (find_char c (drop pos s))"
  by (cases "index_of (starts_with [c]) (drop pos s)") (simp_all add: str_find_def find_char_def)

subsection \<open>Trimming and numerals\<close>

text \<open>\<^verbatim>\<open>erase(0, find_first_not_of(" \t"))\<close> followed by \<^verbatim>\<open>erase(find_last_not_of(" \t") + 1)\<close>;
  a blank string is erased completely (\<^verbatim>\<open>npos + 1\<close> is 0).\<close>

definition trim_blanks :: "string \<Rightarrow> string" where
  "trim_blanks s = rev (dropWhile is_blank (rev (dropWhile is_blank s)))"

definition digit_val :: "char \<Rightarrow> nat" where
  "digit_val c = code c - 48"

fun hex_digit :: "char \<Rightarrow> nat option" where
  "hex_digit c =
     (if is_digit c then Some (code c - 48)
      else if 97 \<le> code c \<and> code c \<le> 102 then Some (code c - 97 + 10)
      else if 65 \<le> code c \<and> code c \<le> 70 then Some (code c - 65 + 10)
      else None)"

declare hex_digit.simps [simp del]

definition dec_value :: "string \<Rightarrow> nat" where
  "dec_value s = foldl (\<lambda>v c. v * 10 + digit_val c) 0 s"

definition is_decimal :: "string \<Rightarrow> bool" where
  "is_decimal s \<longleftrightarrow> s \<noteq> [] \<and> list_all is_digit s"

text \<open>\<^verbatim>\<open>std::to_string\<close> of a non-negative integer.\<close>

fun dec :: "nat \<Rightarrow> string" where
  "dec n = (if n < 10 then [char_of (48 + n)] else dec (n div 10) @ [char_of (48 + n mod 10)])"

declare dec.simps [simp del]

definition dec_int :: "int \<Rightarrow> string" where
  "dec_int i = (if i < 0 then CHR ''-'' # dec (nat (- i)) else dec (nat i))"

text \<open>Lower-case hexadecimal without leading zeros, \<^verbatim>\<open>std::hex\<close> on a stream.\<close>

definition hex_char :: "nat \<Rightarrow> char" where
  "hex_char d = (if d < 10 then char_of (48 + d) else char_of (87 + d))"

fun hex :: "nat \<Rightarrow> string" where
  "hex n = (if n < 16 then [hex_char n] else hex (n div 16) @ [hex_char (n mod 16)])"

declare hex.simps [simp del]

lemma set_trim_blanks: "set (trim_blanks s) \<subseteq> set s"
  unfolding trim_blanks_def set_rev by (metis set_dropWhileD set_rev subsetI)

lemma length_trim_blanks: "length (trim_blanks s) \<le> length s"
  unfolding trim_blanks_def length_rev
  using length_dropWhile_le [of is_blank "rev (dropWhile is_blank s)"]
    length_dropWhile_le [of is_blank s] by simp

lemma trim_blanks_id:
  "s = [] \<or> (\<not> is_blank (hd s) \<and> \<not> is_blank (last s)) \<Longrightarrow> trim_blanks s = s"
  by (cases s) (auto simp: trim_blanks_def hd_append hd_rev dropWhile_eq_self_iff split: if_splits)

lemma trim_blanks_Cons: "is_blank c \<Longrightarrow> trim_blanks (c # s) = trim_blanks s"
  by (simp add: trim_blanks_def)

lemma code_digit_char: "d < 10 \<Longrightarrow> code (char_of (48 + d)) = 48 + d"
  by simp

lemma is_digit_dec: "list_all is_digit (dec n)"
proof (induction n rule: dec.induct)
  case (1 n)
  moreover have "n mod 10 < 10" by simp
  ultimately show ?case
    by (subst dec.simps) (auto simp: is_digit_def [of "char_of _"])
qed

lemma dec_not_Nil [simp]: "dec n \<noteq> []"
  by (subst dec.simps) simp

lemma is_decimal_dec [simp]: "is_decimal (dec n)"
  by (simp add: is_decimal_def is_digit_dec)

lemma dec_value_append [simp]: "dec_value (s @ [c]) = dec_value s * 10 + digit_val c"
  by (simp add: dec_value_def)

lemma dec_value_dec [simp]: "dec_value (dec n) = n"
proof (induction n rule: dec.induct)
  case (1 n)
  then show ?case
    by (subst dec.simps) (auto simp: digit_val_def dec_value_def [of "[_]"])
qed

lemma dec_inject [simp]: "dec m = dec n \<longleftrightarrow> m = n"
  by (metis dec_value_dec)

lemma set_dec_digit: "c \<in> set (dec n) \<Longrightarrow> is_digit c"
  using is_digit_dec [of n] by (simp add: list_all_iff)

lemma set_dec_int: "c \<in> set (dec_int i) \<Longrightarrow> is_digit c \<or> c = CHR ''-''"
  by (auto simp: dec_int_def dest: set_dec_digit split: if_splits)

lemma dec_int_inject [simp]: "dec_int i = dec_int j \<longleftrightarrow> i = j"
proof -
  have "CHR ''-'' # s \<noteq> dec n" for s n
  proof
    assume "CHR ''-'' # s = dec n"
    then have "is_digit (CHR ''-'')"
      by (metis list.set_intros(1) set_dec_digit)
    then show False
      by (simp add: is_digit_def)
  qed
  then show ?thesis
    by (auto simp: dec_int_def dest: sym)
qed

lemma hex_digit_hex_char: "d < 16 \<Longrightarrow> hex_digit (hex_char d) = Some d"
  by (auto simp: hex_char_def is_digit_def hex_digit.simps)

lemma hex_not_Nil [simp]: "hex n \<noteq> []"
  by (subst hex.simps) simp

subsection \<open>Association lists\<close>

definition has_key :: "'k \<Rightarrow> ('k \<times> 'v) list \<Rightarrow> bool" where
  "has_key k m \<longleftrightarrow> map_of m k \<noteq> None"

abbreviation put :: "'k \<Rightarrow> 'v \<Rightarrow> ('k \<times> 'v) list \<Rightarrow> ('k \<times> 'v) list" where
  "put \<equiv> AList.update"

declare map_of_eq_Some_iff [simp del]
declare Some_eq_map_of_iff [simp del]

lemma map_of_put [simp]: "map_of (put k v m) k' = (if k' = k then Some v else map_of m k')"
  by (simp add: update_conv')

lemma has_key_put [simp]: "has_key k (put k' v m) \<longleftrightarrow> k = k' \<or> has_key k m"
  by (simp add: has_key_def)

lemma has_key_Nil [simp]: "\<not> has_key k []"
  by (simp add: has_key_def)

lemma has_key_Cons [simp]: "has_key k (x # m) \<longleftrightarrow> k = fst x \<or> has_key k m"
  by (cases x) (simp add: has_key_def)

lemma has_key_append [simp]: "has_key k (m @ m') \<longleftrightarrow> has_key k m \<or> has_key k m'"
  by (induction m) auto

lemma has_key_iff: "has_key k m \<longleftrightarrow> k \<in> fst ` set m"
  by (induction m) auto

lemma distinct_put [simp]: "distinct (map fst m) \<Longrightarrow> distinct (map fst (put k v m))"
  by (rule distinct_update)

lemma set_put: "distinct (map fst m) \<Longrightarrow> x \<in> set (put k v m) \<Longrightarrow> x = (k, v) \<or> (x \<in> set m \<and> fst x \<noteq> k)"
  by (induction m) (auto split: if_splits simp: rev_image_eqI)

lemma map_of_delete [simp]: "map_of (AList.delete k m) k' = (if k' = k then None else map_of m k')"
  by (simp add: delete_conv')

lemma distinct_delete [simp]: "distinct (map fst m) \<Longrightarrow> distinct (map fst (AList.delete k m))"
  by (rule AList.distinct_delete)

lemma put_absent: "map_of m k = None \<Longrightarrow> put k v m = m @ [(k, v)]"
  by (induction m) (auto split: if_splits)

subsection \<open>Splitting\<close>

fun split_on :: "'a \<Rightarrow> 'a list \<Rightarrow> 'a list list" where
  "split_on c [] = [[]]"
| "split_on c (x # xs) =
     (if x = c then [] # split_on c xs
      else (x # hd (split_on c xs)) # tl (split_on c xs))"

fun join_with :: "'a \<Rightarrow> 'a list list \<Rightarrow> 'a list" where
  "join_with c [] = []"
| "join_with c [x] = x"
| "join_with c (x # y # ys) = x @ c # join_with c (y # ys)"

lemma split_on_not_Nil [simp]: "split_on c s \<noteq> []"
  by (induction s) auto

lemma split_on_append:
  "c \<notin> set t \<Longrightarrow> split_on c (t @ s) = (t @ hd (split_on c s)) # tl (split_on c s)"
  by (induction t) auto

lemma split_on_id: "c \<notin> set t \<Longrightarrow> split_on c t = [t]"
  using split_on_append [of c t "[]"] by simp

lemma split_on_append_sep: "c \<notin> set t \<Longrightarrow> split_on c (t @ c # s) = t # split_on c s"
  by (simp add: split_on_append)

lemma split_on_no_sep: "x \<in> set (split_on c s) \<Longrightarrow> c \<notin> set x"
proof (induction s arbitrary: x)
  case (Cons a s)
  then show ?case
    by (cases "split_on c s") (auto split: if_splits)
qed simp

lemma join_with_Cons:
  "ys \<noteq> [] \<Longrightarrow> join_with c (x # ys) = x @ c # join_with c ys"
  by (cases ys) auto

lemma join_split [simp]: "join_with c (split_on c s) = s"
proof (induction s)
  case (Cons a s)
  then show ?case
    by (cases "split_on c s"; cases "tl (split_on c s)") (auto simp: join_with_Cons)
qed simp

lemma split_join:
  "\<lbrakk>xs \<noteq> []; \<forall>x \<in> set xs. c \<notin> set x\<rbrakk> \<Longrightarrow> split_on c (join_with c xs) = xs"
  by (induction c xs rule: join_with.induct) (auto simp: split_on_id split_on_append_sep)

lemma join_with_snoc_Nil: "xs \<noteq> [] \<Longrightarrow> join_with c (xs @ [[]]) = join_with c xs @ [c]"
  by (induction c xs rule: join_with.induct) auto

lemma hd_join_with: "\<lbrakk>xs \<noteq> []; hd xs \<noteq> []\<rbrakk> \<Longrightarrow> hd (join_with c xs) = hd (hd xs) \<and> join_with c xs \<noteq> []"
  by (cases "(c, xs)" rule: join_with.cases) auto

lemma split_on_infix:
  assumes "x \<in> set (split_on c s)"
  shows "\<exists>a b. s = a @ x @ b"
  using assms
proof (induction s arbitrary: x)
  case (Cons y s)
  show ?case
  proof (cases "y = c")
    case True
    then show ?thesis
      using Cons by (metis append_Cons append_Nil set_ConsD split_on.simps(2))
  next
    case False
    then have "x = y # hd (split_on c s) \<or> x \<in> set (split_on c s)"
      using Cons.prems by (auto dest: list.set_sel(2) [rotated])
    moreover have "\<exists>b. y # s = y # hd (split_on c s) @ b"
      by (metis join_split join_with.simps(2) join_with_Cons append_Nil2 list.collapse split_on_not_Nil)
    ultimately show ?thesis
      using Cons.IH by (metis append_Cons append_Nil)
  qed
qed simp

lemma str_find_None_infix:
  assumes "str_find n s 0 = None"
  shows "s \<noteq> a @ n @ b"
proof
  assume "s = a @ n @ b"
  moreover have "\<not> starts_with n (drop (length a) s)" if "length a \<le> length s"
    using assms that by (auto simp: str_find_def index_of_None_iff)
  ultimately show False by simp
qed

lemma last_sep_unique:
  assumes "a @ c # b = a' @ c # b'" "c \<notin> set b" "c \<notin> set b'"
  shows "a = a' \<and> b = b'"
proof -
  have tw: "takeWhile ((\<noteq>) c) (rev (a @ c # b)) = rev b" if "c \<notin> set b" for a b :: "'a list"
  proof -
    have "\<And>x. x \<in> set (rev b) \<Longrightarrow> c \<noteq> x" using that by auto
    then show ?thesis
      using takeWhile_append2 [of "rev b" "(\<noteq>) c" "c # rev a"] by simp
  qed
  have "rev b = rev b'"
    using tw [OF assms(2), of a] tw [OF assms(3), of a'] unfolding assms(1) by simp
  then have "b = b'" by simp
  with assms(1) show ?thesis by simp
qed

end
