(* ===== verification/Gateway_Interfaces.thy ===== *)
theory Gateway_Interfaces
  imports Gateway_Prelude
begin

text \<open>
  The contracts between components, as locales. Each one fixes the operations a client calls,
  assumes the laws the provider promises and proves the client's lemmas once; the component
  theories interpret them on the model of the code.

  \<^item> \<^verbatim>\<open>stream_machine\<close>: a machine that consumes a byte stream one byte at a time and may stop
    early; the order in which the socket delivers the bytes cannot matter.
  \<^item> \<^verbatim>\<open>stream_invariant\<close>: such a machine together with a property every step keeps.
  \<^item> \<^verbatim>\<open>guarded_system\<close>: a transition system whose labelled steps keep an invariant.
  \<^item> \<^verbatim>\<open>keyed_machine\<close>: a component whose state falls into independent cells, one per key; what a
    client of one key observes does not depend on the events of the other keys.
\<close>

subsection \<open>Incremental byte machines\<close>

datatype verdict = Continue | Return bool

locale stream_machine =
  fixes step :: "'s \<Rightarrow> char \<Rightarrow> verdict \<times> 's"
    and loop :: "'s \<Rightarrow> nat \<Rightarrow> string \<Rightarrow> bool \<times> 's \<times> nat"
    and live :: "'s \<Rightarrow> bool"
  assumes loop_nil: "loop s n [] = (False, s, n)"
    and loop_cons: "live s \<Longrightarrow> loop s n (c # cs) =
          (case step s c of
             (Return b, s') \<Rightarrow> (b, s', Suc n)
           | (Continue, s') \<Rightarrow> loop s' (Suc n) cs)"
    and step_continue: "live s \<Longrightarrow> step s c = (Continue, s') \<Longrightarrow> live s'"
    and step_return: "live s \<Longrightarrow> step s c = (Return b, s') \<Longrightarrow> \<not> live s'"
begin

lemma step_cases:
  assumes "live s"
  obtains (cont) s1 where "step s c = (Continue, s1)" "live s1"
      "\<And>n cs. loop s n (c # cs) = loop s1 (Suc n) cs"
  | (ret) b s1 where "step s c = (Return b, s1)" "\<not> live s1"
      "\<And>n cs. loop s n (c # cs) = (b, s1, Suc n)"
proof (cases "step s c")
  case (Pair v s1)
  show ?thesis
  proof (cases v)
    case Continue
    with Pair assms show ?thesis
      by (intro cont [of s1]) (auto simp: loop_cons dest: step_continue)
  next
    case (Return b)
    with Pair assms show ?thesis
      by (intro ret [of b s1]) (auto simp: loop_cons dest: step_return)
  qed
qed

lemma loop_append:
  "live s \<Longrightarrow> loop s n (xs @ ys) =
     (case loop s n xs of (b, s', m) \<Rightarrow> if live s' then loop s' m ys else (b, s', m))"
proof (induction xs arbitrary: s n)
  case (Cons c cs)
  from Cons.prems show ?case
    by (cases rule: step_cases [where c = c]) (simp_all add: Cons.IH)
qed (simp add: loop_nil)

lemma loop_live:
  "\<lbrakk>live s; loop s n xs = (b, s', m); live s'\<rbrakk> \<Longrightarrow> \<not> b \<and> m = n + length xs"
proof (induction xs arbitrary: s n)
  case (Cons c cs)
  from Cons.prems(1) show ?case
    using Cons.prems(2,3) Cons.IH [of _ "Suc n"] by (cases rule: step_cases [where c = c]) auto
qed (simp add: loop_nil)

lemma loop_offset:
  "live s \<Longrightarrow> loop s (n + k) xs = (case loop s n xs of (b, s', m) \<Rightarrow> (b, s', m + k))"
proof (induction xs arbitrary: s n)
  case (Cons c cs)
  from Cons.prems show ?case
    using Cons.IH [of _ "Suc n"] by (cases rule: step_cases [where c = c]) auto
qed (simp add: loop_nil)

lemma loop_bounds:
  "\<lbrakk>live s; loop s n xs = (b, s', m)\<rbrakk> \<Longrightarrow> n \<le> m \<and> m \<le> n + length xs"
proof (induction xs arbitrary: s n)
  case (Cons c cs)
  from Cons.prems(1) show ?case
    using Cons.prems(2) by (cases rule: step_cases [where c = c]) (use Cons.IH in fastforce)+
qed (simp add: loop_nil)

lemma loop_nonempty:
  "\<lbrakk>live s; xs \<noteq> []; loop s n xs = (b, s', m)\<rbrakk> \<Longrightarrow> n < m"
  by (cases xs; cases rule: step_cases [where c = "hd xs" and s = s])
     (auto dest: loop_bounds)

end

locale stream_invariant = stream_machine +
  fixes inv :: "'a \<Rightarrow> bool"
  assumes step_inv: "\<lbrakk>live s; inv s; step s c = (v, s')\<rbrakk> \<Longrightarrow> inv s'"
begin

lemma loop_inv:
  "\<lbrakk>live s; inv s; loop s n xs = (b, s', m)\<rbrakk> \<Longrightarrow> inv s'"
proof (induction xs arbitrary: s n)
  case (Cons c cs)
  from Cons.prems(1) show ?case
    using Cons.prems(2,3) Cons.IH [of _ "Suc n"] step_inv [OF Cons.prems(1,2)]
    by (cases rule: step_cases [where c = c]) auto
qed (simp add: loop_nil)

end

subsection \<open>Transition systems with an invariant\<close>

locale guarded_system =
  fixes init :: "'s \<Rightarrow> bool"
    and step :: "'l \<Rightarrow> 's \<Rightarrow> 's \<Rightarrow> bool"
    and inv :: "'s \<Rightarrow> bool"
  assumes init_inv: "init s \<Longrightarrow> inv s"
    and step_inv: "\<lbrakk>inv s; step l s s'\<rbrakk> \<Longrightarrow> inv s'"
begin

inductive run :: "'s \<Rightarrow> 'l list \<Rightarrow> 's \<Rightarrow> bool" where
  run_nil: "run s [] s"
| run_snoc: "\<lbrakk>run s ls s'; step l s' s''\<rbrakk> \<Longrightarrow> run s (ls @ [l]) s''"

lemma run_inv: "\<lbrakk>run s ls s'; inv s\<rbrakk> \<Longrightarrow> inv s'"
  by (induction rule: run.induct) (auto intro: step_inv)

lemma reachable_inv: "\<lbrakk>init s; run s ls s'\<rbrakk> \<Longrightarrow> inv s'"
  using run_inv init_inv by blast

end

subsection \<open>Components with one cell per key\<close>

fun run_events :: "('e \<Rightarrow> 's \<Rightarrow> 'o \<times> 's) \<Rightarrow> 'e list \<Rightarrow> 's \<Rightarrow> ('e \<times> 'o) list \<times> 's" where
  "run_events exec [] s = ([], s)"
| "run_events exec (e # es) s =
     (case exec e s of (r, s1) \<Rightarrow> case run_events exec es s1 of (tr, s2) \<Rightarrow> ((e, r) # tr, s2))"

lemma run_events_Cons:
  "fst (run_events exec (e # es) s) = (e, fst (exec e s)) # fst (run_events exec es (snd (exec e s)))"
  "snd (run_events exec (e # es) s) = snd (run_events exec es (snd (exec e s)))"
  by (simp_all split: prod.split)

declare run_events.simps(2) [simp del]
declare run_events_Cons [simp]

lemma run_events_trace: "(e, r) \<in> set (fst (run_events exec es s)) \<Longrightarrow> e \<in> set es"
  by (induction es arbitrary: s) auto

locale keyed_machine =
  fixes key :: "'e \<Rightarrow> 'k"
    and cell :: "'s \<Rightarrow> 'k \<Rightarrow> 'c"
    and exec :: "'e \<Rightarrow> 's \<Rightarrow> 'o \<times> 's"
  assumes frame: "k \<noteq> key e \<Longrightarrow> cell (snd (exec e s)) k = cell s k"
    and local_cell: "cell s (key e) = cell t (key e) \<Longrightarrow>
          cell (snd (exec e s)) (key e) = cell (snd (exec e t)) (key e)"
    and local_out: "cell s (key e) = cell t (key e) \<Longrightarrow> fst (exec e s) = fst (exec e t)"
begin

lemma noninterference:
  "cell s k = cell t k \<Longrightarrow>
     filter (\<lambda>(e, r). key e = k) (fst (run_events exec es s)) =
       fst (run_events exec (filter (\<lambda>e. key e = k) es) t) \<and>
     cell (snd (run_events exec es s)) k =
       cell (snd (run_events exec (filter (\<lambda>e. key e = k) es) t)) k"
proof (induction es arbitrary: s t)
  case (Cons e es)
  show ?case
  proof (cases "key e = k")
    case True
    then show ?thesis
      using Cons.IH [of "snd (exec e s)" "snd (exec e t)"] Cons.prems local_cell [of s e t]
        local_out [of s e t] by auto
  next
    case False
    then show ?thesis
      using Cons.IH [of "snd (exec e s)" t] Cons.prems frame [of k e s] by auto
  qed
qed simp

end

end
