(* ===== verification/Http_Parser.thy ===== *)
theory Http_Parser
  imports Gateway_Interfaces
begin

text \<open>
  The incremental HTTP/1.1 request parser (\<^verbatim>\<open>include/common/http_parser.h\<close>,
  \<^verbatim>\<open>src/common/http_parser.cpp\<close>). The parser object is the record \<^verbatim>\<open>parser\<close>; one
  iteration of the loop of \<^verbatim>\<open>HttpParser::parse\<close> is \<^verbatim>\<open>parse_step\<close>, which dispatches on the
  state to one definition per \<^verbatim>\<open>case\<close> of the switch; \<^verbatim>\<open>parse\<close> is the loop.
\<close>

subsection \<open>Data\<close>

record http_request =
  req_method :: string
  req_path :: string
  req_version :: string
  req_query :: string
  req_trace_id :: string
  req_host :: string
  req_tenant :: string
  req_headers :: headers
  req_body :: string

definition request_clear :: http_request where
  "request_clear = \<lparr>req_method = [], req_path = [], req_version = [], req_query = [],
     req_trace_id = [], req_host = [], req_tenant = [], req_headers = [], req_body = []\<rparr>"

datatype parser_state =
  ST_METHOD | ST_PATH | ST_VERSION | ST_QUERY | ST_HEADER | ST_CHUNKED_BODY | ST_BODY | ST_DONE

datatype chunk_state = CS_SIZE | CS_DATA | CS_TRAILER | CS_DONE

datatype parse_error =
  PE_NONE
| BODY_TOO_LARGE
| DUPLICATE_CONTENT_LENGTH
| CL_TE_CONFLICT
| INVALID_TRANSFER_ENCODING
| INVALID_CONTENT_LENGTH
| INVALID_HEADER
| INVALID_CHUNK_SIZE
| REQUEST_LINE_TOO_LONG
| HEADER_TOO_LONG
| HEADERS_TOO_LARGE

definition MAX_BODY_SIZE :: size_t where
  "MAX_BODY_SIZE = 1024 * 1024"

definition MAX_REQUEST_LINE_SIZE :: size_t where
  "MAX_REQUEST_LINE_SIZE = 8 * 1024"

definition MAX_HEADER_LINE_SIZE :: size_t where
  "MAX_HEADER_LINE_SIZE = 8 * 1024"

definition MAX_HEADERS_SIZE :: size_t where
  "MAX_HEADERS_SIZE = 64 * 1024"

record parser =
  p_state :: parser_state
  p_chunk_state :: chunk_state
  p_buffer :: string
  p_content_length :: size_t
  p_body_read :: size_t
  p_headers_read :: size_t
  p_parse_error :: parse_error
  p_chunk_size_hex_buffer :: string
  p_chunk_data_remaining :: size_t
  p_cr_seen :: bool

definition parser_init :: parser where
  "parser_init = \<lparr>p_state = ST_METHOD, p_chunk_state = CS_SIZE, p_buffer = [], p_content_length = 0,
     p_body_read = 0, p_headers_read = 0, p_parse_error = PE_NONE, p_chunk_size_hex_buffer = [],
     p_chunk_data_remaining = 0, p_cr_seen = False\<rparr>"

definition parser_reset :: "parser \<Rightarrow> parser" where
  "parser_reset p = p\<lparr>p_state := ST_METHOD, p_buffer := [], p_parse_error := PE_NONE,
     p_content_length := 0, p_body_read := 0, p_headers_read := 0, p_chunk_size_hex_buffer := [],
     p_chunk_data_remaining := 0, p_chunk_state := CS_SIZE, p_cr_seen := False\<rparr>"

definition is_body_too_large :: "parser \<Rightarrow> bool" where
  "is_body_too_large p \<longleftrightarrow> p_parse_error p = BODY_TOO_LARGE"

definition fail :: "parse_error \<Rightarrow> parser \<Rightarrow> parser" where
  "fail e p = p\<lparr>p_parse_error := e\<rparr>"

subsection \<open>Character classes\<close>

definition is_tchar :: "char \<Rightarrow> bool" where
  "is_tchar c \<longleftrightarrow> is_digit c \<or> is_lower c \<or> is_upper c \<or>
     c \<in> set (CHR 0x27 # ''!#$%&*+-.^_`|~'')"

definition is_valid_field_value_char :: "char \<Rightarrow> bool" where
  "is_valid_field_value_char c \<longleftrightarrow> (if code c = 9 then True else 32 \<le> code c \<and> code c \<noteq> 127)"

definition is_valid_request_line_char :: "char \<Rightarrow> bool" where
  "is_valid_request_line_char c \<longleftrightarrow> 32 < code c \<and> code c \<noteq> 127"

subsection \<open>One loop iteration, state by state\<close>

type_synonym parse_result = "verdict \<times> parser \<times> http_request"

definition reject :: "parse_error \<Rightarrow> parser \<Rightarrow> http_request \<Rightarrow> parse_result" where
  "reject e p r = (Return False, fail e p, r)"

text \<open>\<^verbatim>\<open>buffer_ += c\<close> with the request-line cap, shared by four states.\<close>

definition push_request_line :: "parser \<Rightarrow> http_request \<Rightarrow> char \<Rightarrow> parse_result" where
  "push_request_line p r c =
     (let p' = p\<lparr>p_buffer := p_buffer p @ [c]\<rparr>
      in if length (p_buffer p') > MAX_REQUEST_LINE_SIZE
         then reject REQUEST_LINE_TOO_LONG p' r
         else (Continue, p', r))"

definition step_method :: "parser \<Rightarrow> http_request \<Rightarrow> char \<Rightarrow> parse_result" where
  "step_method p r c =
     (if c = CHR '' '' then
        (Continue, p\<lparr>p_buffer := [], p_state := ST_PATH\<rparr>, r\<lparr>req_method := p_buffer p\<rparr>)
      else if \<not> is_valid_request_line_char c then reject INVALID_HEADER p r
      else push_request_line p r c)"

definition step_path :: "parser \<Rightarrow> http_request \<Rightarrow> char \<Rightarrow> parse_result" where
  "step_path p r c =
     (if c = CHR '' '' then
        (Continue, p\<lparr>p_buffer := [], p_state := ST_VERSION\<rparr>, r\<lparr>req_path := p_buffer p\<rparr>)
      else if c = CHR ''?'' then
        (Continue, p\<lparr>p_buffer := [], p_state := ST_QUERY\<rparr>, r\<lparr>req_path := p_buffer p\<rparr>)
      else if \<not> is_valid_request_line_char c then reject INVALID_HEADER p r
      else push_request_line p r c)"

definition step_version :: "parser \<Rightarrow> http_request \<Rightarrow> char \<Rightarrow> parse_result" where
  "step_version p r c =
     (if c = CR then (Continue, p\<lparr>p_cr_seen := True\<rparr>, r)
      else if c = LF then
        (if \<not> p_cr_seen p then reject INVALID_HEADER p r
         else (Continue, p\<lparr>p_cr_seen := False, p_buffer := [], p_state := ST_HEADER\<rparr>,
               r\<lparr>req_version := p_buffer p\<rparr>))
      else if \<not> is_valid_request_line_char c then reject INVALID_HEADER p r
      else push_request_line (p\<lparr>p_cr_seen := False\<rparr>) r c)"

definition step_query :: "parser \<Rightarrow> http_request \<Rightarrow> char \<Rightarrow> parse_result" where
  "step_query p r c =
     (if c = CHR '' '' then
        (Continue, p\<lparr>p_buffer := [], p_state := ST_VERSION\<rparr>, r\<lparr>req_query := p_buffer p\<rparr>)
      else if \<not> is_valid_request_line_char c then reject INVALID_HEADER p r
      else push_request_line p r c)"

text \<open>The digit loop of \<^verbatim>\<open>Content-Length\<close>: \<^term>\<open>None\<close> is \<^verbatim>\<open>digits_ok == false\<close>; the value saturates just
  above the cap, so it never wraps.\<close>

fun content_length_loop :: "size_t \<Rightarrow> string \<Rightarrow> size_t option" where
  "content_length_loop v [] = Some v"
| "content_length_loop v (ch # cs) =
     (if \<not> is_digit ch then None
      else if v > MAX_BODY_SIZE then Some (MAX_BODY_SIZE + 1)
      else content_length_loop (v * 10 + digit_val ch) cs)"

definition parse_content_length :: "string \<Rightarrow> size_t option" where
  "parse_content_length cl = (if cl = [] then None else content_length_loop 0 cl)"

definition end_of_headers :: "parser \<Rightarrow> http_request \<Rightarrow> parse_result" where
  "end_of_headers p r =
     (case map_of (req_headers r) ''transfer-encoding'' of
        Some te \<Rightarrow>
          (if lower te \<noteq> ''chunked'' then reject INVALID_TRANSFER_ENCODING p r
           else (Continue, p\<lparr>p_chunk_size_hex_buffer := [], p_chunk_data_remaining := 0,
                   p_chunk_state := CS_SIZE, p_state := ST_CHUNKED_BODY\<rparr>, r))
      | None \<Rightarrow>
          (case map_of (req_headers r) ''content-length'' of
             None \<Rightarrow> (Return True, p\<lparr>p_state := ST_DONE\<rparr>, r)
           | Some cl \<Rightarrow>
               (case parse_content_length cl of
                  None \<Rightarrow> reject INVALID_CONTENT_LENGTH p r
                | Some n \<Rightarrow>
                    (let p' = p\<lparr>p_content_length := n\<rparr>
                     in if n > MAX_BODY_SIZE then reject BODY_TOO_LARGE p' r
                        else if n > 0 then
                          (Continue, p'\<lparr>p_body_read := 0, p_state := ST_BODY\<rparr>, r)
                        else (Return True, p'\<lparr>p_state := ST_DONE\<rparr>, r)))))"

definition header_line :: "parser \<Rightarrow> http_request \<Rightarrow> parse_result" where
  "header_line p r =
     (case find_char (CHR '':'') (p_buffer p) of
        None \<Rightarrow> reject INVALID_HEADER p r
      | Some colon \<Rightarrow>
          (let key = lower (take colon (p_buffer p));
               value = trim_blanks (drop (colon + 1) (p_buffer p));
               hs = req_headers r
           in if key = [] then reject INVALID_HEADER p r
              else if \<not> list_all is_tchar key then reject INVALID_HEADER p r
              else if \<not> list_all is_valid_field_value_char value then reject INVALID_HEADER p r
              else if key = ''content-length'' \<and> has_key ''content-length'' hs
                then reject DUPLICATE_CONTENT_LENGTH p r
              else if key = ''content-length'' \<and> has_key ''transfer-encoding'' hs
                then reject CL_TE_CONFLICT p r
              else if key = ''transfer-encoding'' \<and> has_key ''content-length'' hs
                then reject CL_TE_CONFLICT p r
              else if key = ''transfer-encoding'' \<and> has_key ''transfer-encoding'' hs
                then reject INVALID_TRANSFER_ENCODING p r
              else (Continue, p\<lparr>p_buffer := []\<rparr>, r\<lparr>req_headers := put key value hs\<rparr>)))"

definition push_header_line :: "parser \<Rightarrow> http_request \<Rightarrow> char \<Rightarrow> parse_result" where
  "push_header_line p r c =
     (let p' = p\<lparr>p_buffer := p_buffer p @ [c]\<rparr>
      in if length (p_buffer p') > MAX_HEADER_LINE_SIZE then reject HEADER_TOO_LONG p' r
         else (Continue, p', r))"

definition step_header :: "parser \<Rightarrow> http_request \<Rightarrow> char \<Rightarrow> parse_result" where
  "step_header p0 r c =
     (let p = p0\<lparr>p_headers_read := p_headers_read p0 + 1\<rparr>
      in if p_headers_read p > MAX_HEADERS_SIZE then reject HEADERS_TOO_LARGE p r
         else if c = CR then (Continue, p\<lparr>p_cr_seen := True\<rparr>, r)
         else if c = LF then
           (if \<not> p_cr_seen p then reject INVALID_HEADER p r
            else (let p1 = p\<lparr>p_cr_seen := False\<rparr>
                  in if p_buffer p1 = [] then end_of_headers p1 r else header_line p1 r))
         else push_header_line (p\<lparr>p_cr_seen := False\<rparr>) r c)"

text \<open>The hexadecimal loop of a chunk size: \<^term>\<open>None\<close> is \<^verbatim>\<open>hex_ok == false\<close>; it stops as soon as the
  value passes the cap.\<close>

fun chunk_size_loop :: "size_t \<Rightarrow> string \<Rightarrow> size_t option" where
  "chunk_size_loop sz [] = Some sz"
| "chunk_size_loop sz (ch # cs) =
     (case hex_digit ch of
        None \<Rightarrow> None
      | Some d \<Rightarrow>
          (let sz' = sz * 16 + d
           in if sz' > MAX_BODY_SIZE then Some sz' else chunk_size_loop sz' cs))"

definition parse_chunk_size :: "string \<Rightarrow> size_t option" where
  "parse_chunk_size buf =
     (let h = (case find_char (CHR '';'') buf of None \<Rightarrow> buf | Some semi \<Rightarrow> take semi buf)
      in if h = [] then None else chunk_size_loop 0 h)"

definition step_chunk_size :: "parser \<Rightarrow> http_request \<Rightarrow> char \<Rightarrow> parse_result" where
  "step_chunk_size p r c =
     (if c = CR then (Continue, p, r)
      else if c = LF then
        (if p_chunk_size_hex_buffer p = [] then (Continue, p, r)
         else
           (case parse_chunk_size (p_chunk_size_hex_buffer p) of
              None \<Rightarrow> reject INVALID_CHUNK_SIZE p r
            | Some sz \<Rightarrow>
                (let p' = p\<lparr>p_chunk_size_hex_buffer := []\<rparr>
                 in if sz = 0 then (Continue, p'\<lparr>p_chunk_state := CS_TRAILER, p_buffer := []\<rparr>, r)
                    else (Continue,
                          p'\<lparr>p_chunk_data_remaining := sz, p_chunk_state := CS_DATA\<rparr>, r))))
      else
        (let p' = p\<lparr>p_chunk_size_hex_buffer := p_chunk_size_hex_buffer p @ [c]\<rparr>
         in if length (p_chunk_size_hex_buffer p') > 16 then reject INVALID_CHUNK_SIZE p' r
            else (Continue, p', r)))"

definition step_chunk_data :: "parser \<Rightarrow> http_request \<Rightarrow> char \<Rightarrow> parse_result" where
  "step_chunk_data p r c =
     (let r' = r\<lparr>req_body := req_body r @ [c]\<rparr>;
          p' = p\<lparr>p_chunk_data_remaining := p_chunk_data_remaining p - 1\<rparr>
      in if length (req_body r') > MAX_BODY_SIZE then reject BODY_TOO_LARGE p' r'
         else if p_chunk_data_remaining p' = 0 then (Continue, p'\<lparr>p_chunk_state := CS_SIZE\<rparr>, r')
         else (Continue, p', r'))"

definition step_trailer :: "parser \<Rightarrow> http_request \<Rightarrow> char \<Rightarrow> parse_result" where
  "step_trailer p r c =
     (if c = CR then (Continue, p, r)
      else if c = LF then
        (if p_buffer p = [] then (Return True, p\<lparr>p_state := ST_DONE\<rparr>, r)
         else (Continue, p\<lparr>p_buffer := []\<rparr>, r))
      else push_header_line p r c)"

definition step_chunked_body :: "parser \<Rightarrow> http_request \<Rightarrow> char \<Rightarrow> parse_result" where
  "step_chunked_body p r c =
     (case p_chunk_state p of
        CS_SIZE \<Rightarrow> step_chunk_size p r c
      | CS_DATA \<Rightarrow> step_chunk_data p r c
      | CS_TRAILER \<Rightarrow> step_trailer p r c
      | CS_DONE \<Rightarrow> (Continue, p, r))"

definition step_body :: "parser \<Rightarrow> http_request \<Rightarrow> char \<Rightarrow> parse_result" where
  "step_body p r c =
     (if p_body_read p \<ge> MAX_BODY_SIZE then reject BODY_TOO_LARGE p r
      else
        (let r' = r\<lparr>req_body := req_body r @ [c]\<rparr>;
             p' = p\<lparr>p_body_read := p_body_read p + 1\<rparr>
         in if p_body_read p' \<ge> p_content_length p' then (Return True, p'\<lparr>p_state := ST_DONE\<rparr>, r')
            else (Continue, p', r')))"

definition parse_step :: "parser \<Rightarrow> http_request \<Rightarrow> char \<Rightarrow> parse_result" where
  "parse_step p r c =
     (case p_state p of
        ST_METHOD \<Rightarrow> step_method p r c
      | ST_PATH \<Rightarrow> step_path p r c
      | ST_VERSION \<Rightarrow> step_version p r c
      | ST_QUERY \<Rightarrow> step_query p r c
      | ST_HEADER \<Rightarrow> step_header p r c
      | ST_CHUNKED_BODY \<Rightarrow> step_chunked_body p r c
      | ST_BODY \<Rightarrow> step_body p r c
      | ST_DONE \<Rightarrow> (Continue, p, r))"

fun parse_loop ::
  "parser \<times> http_request \<Rightarrow> nat \<Rightarrow> string \<Rightarrow> bool \<times> (parser \<times> http_request) \<times> nat" where
  "parse_loop (p, r) consumed [] = (False, (p, r), consumed)"
| "parse_loop (p, r) consumed (c # cs) =
     (case parse_step p r c of
        (Return b, p', r') \<Rightarrow> (b, (p', r'), consumed + 1)
      | (Continue, p', r') \<Rightarrow>
          (if p_state p' = ST_DONE then (False, (p', r'), consumed + 1)
           else parse_loop (p', r') (consumed + 1) cs))"

definition parse ::
  "parser \<Rightarrow> string \<Rightarrow> http_request \<Rightarrow> bool \<times> (parser \<times> http_request) \<times> nat" where
  "parse p data request = parse_loop (p, request) 0 data"

subsection \<open>The byte-stream contract\<close>

definition parser_live :: "parser \<times> http_request \<Rightarrow> bool" where
  "parser_live = (\<lambda>(p, r). p_parse_error p = PE_NONE \<and> p_state p \<noteq> ST_DONE)"

lemmas request_line_defs =
  step_method_def step_path_def step_version_def step_query_def push_request_line_def

lemmas header_defs =
  step_header_def end_of_headers_def header_line_def push_header_line_def

lemmas chunked_defs =
  step_chunked_body_def step_chunk_size_def step_chunk_data_def step_trailer_def
  push_header_line_def

lemmas reject_defs = reject_def fail_def

definition verdict_ok :: "parse_result \<Rightarrow> bool" where
  "verdict_ok = (\<lambda>(v, p, r). case v of
      Continue \<Rightarrow> p_parse_error p = PE_NONE \<and> p_state p \<noteq> ST_DONE
    | Return True \<Rightarrow> p_parse_error p = PE_NONE \<and> p_state p = ST_DONE
    | Return False \<Rightarrow> p_parse_error p \<noteq> PE_NONE)"

lemma verdict_ok_reject [simp]: "e \<noteq> PE_NONE \<Longrightarrow> verdict_ok (reject e p r)"
  by (simp add: verdict_ok_def reject_defs)

lemma verdict_ok_Continue [simp]:
  "verdict_ok (Continue, p, r) \<longleftrightarrow> p_parse_error p = PE_NONE \<and> p_state p \<noteq> ST_DONE"
  by (simp add: verdict_ok_def)

lemma verdict_ok_Return_True [simp]:
  "verdict_ok (Return True, p, r) \<longleftrightarrow> p_parse_error p = PE_NONE \<and> p_state p = ST_DONE"
  by (simp add: verdict_ok_def)

lemma verdict_ok_request_line:
  assumes "p_parse_error p = PE_NONE"
  shows "p_state p = ST_METHOD \<Longrightarrow> verdict_ok (step_method p r c)"
    and "p_state p = ST_PATH \<Longrightarrow> verdict_ok (step_path p r c)"
    and "p_state p = ST_VERSION \<Longrightarrow> verdict_ok (step_version p r c)"
    and "p_state p = ST_QUERY \<Longrightarrow> verdict_ok (step_query p r c)"
  using assms by (simp_all add: request_line_defs Let_def)

lemma verdict_ok_header:
  "\<lbrakk>p_parse_error p = PE_NONE; p_state p = ST_HEADER\<rbrakk> \<Longrightarrow> verdict_ok (step_header p r c)"
  by (simp add: header_defs Let_def split: option.split)

lemma verdict_ok_chunked:
  "\<lbrakk>p_parse_error p = PE_NONE; p_state p = ST_CHUNKED_BODY\<rbrakk> \<Longrightarrow> verdict_ok (step_chunked_body p r c)"
  by (simp add: chunked_defs Let_def split: option.split chunk_state.split)

lemma verdict_ok_body:
  "\<lbrakk>p_parse_error p = PE_NONE; p_state p = ST_BODY\<rbrakk> \<Longrightarrow> verdict_ok (step_body p r c)"
  by (simp add: step_body_def Let_def)

lemma verdict_ok_step:
  "parser_live (p, r) \<Longrightarrow> verdict_ok (parse_step p r c)"
  by (cases "p_state p")
     (simp_all add: parser_live_def parse_step_def verdict_ok_request_line verdict_ok_header
       verdict_ok_chunked verdict_ok_body)

definition parser_step :: "parser \<times> http_request \<Rightarrow> char \<Rightarrow> verdict \<times> parser \<times> http_request" where
  "parser_step = (\<lambda>(p, r) c. parse_step p r c)"

interpretation hp: stream_machine parser_step parse_loop parser_live
proof unfold_locales
  fix s :: "parser \<times> http_request" and n c cs b s'
  obtain p r where s: "s = (p, r)" by fastforce
  show "parse_loop s n [] = (False, s, n)"
    by (simp add: s)
  assume live: "parser_live s"
  then have ok: "verdict_ok (parse_step p r c)" for c
    unfolding s by (rule verdict_ok_step)
  show "parse_loop s n (c # cs) = (case parser_step s c of
          (Return b, s') \<Rightarrow> (b, s', Suc n)
        | (Continue, s') \<Rightarrow> parse_loop s' (Suc n) cs)"
    using ok [of c] by (auto simp: s parser_step_def verdict_ok_def split: verdict.split)
  show "parser_live s'" if "parser_step s c = (Continue, s')"
    using ok [of c] that by (auto simp: s parser_step_def verdict_ok_def parser_live_def)
  show "\<not> parser_live s'" if "parser_step s c = (Return b, s')"
    using ok [of c] that by (auto simp: s parser_step_def verdict_ok_def parser_live_def split: bool.splits)
qed

subsection \<open>The request invariant\<close>

definition header_ok :: "string \<times> string \<Rightarrow> bool" where
  "header_ok = (\<lambda>(k, v). k \<noteq> [] \<and> list_all is_tchar k \<and> lower k = k \<and>
     list_all is_valid_field_value_char v)"

definition headers_ok :: "headers \<Rightarrow> bool" where
  "headers_ok hs \<longleftrightarrow> distinct (map fst hs) \<and> list_all header_ok hs \<and>
     \<not> (has_key ''content-length'' hs \<and> has_key ''transfer-encoding'' hs)"

definition headers_weight :: "headers \<Rightarrow> nat" where
  "headers_weight hs = sum_list (map (\<lambda>(k, v). length k + length v) hs)"

definition framed :: "http_request \<Rightarrow> bool" where
  "framed r \<longleftrightarrow>
     (case map_of (req_headers r) ''transfer-encoding'' of
        Some te \<Rightarrow> lower te = ''chunked'' \<and> map_of (req_headers r) ''content-length'' = None
      | None \<Rightarrow>
          (case map_of (req_headers r) ''content-length'' of
             Some cl \<Rightarrow> is_decimal cl \<and> dec_value cl = length (req_body r)
           | None \<Rightarrow> req_body r = []))"

definition state_inv :: "parser \<Rightarrow> http_request \<Rightarrow> bool" where
  "state_inv p r \<longleftrightarrow>
     (case p_state p of
        ST_HEADER \<Rightarrow> req_body r = [] \<and>
          headers_weight (req_headers r) + length (p_buffer p) \<le> p_headers_read p
      | ST_BODY \<Rightarrow> map_of (req_headers r) ''transfer-encoding'' = None \<and>
          (\<exists>cl. map_of (req_headers r) ''content-length'' = Some cl \<and> is_decimal cl \<and>
                dec_value cl = p_content_length p) \<and>
          p_body_read p = length (req_body r) \<and> p_body_read p < p_content_length p \<and>
          p_content_length p \<le> MAX_BODY_SIZE
      | ST_CHUNKED_BODY \<Rightarrow> map_of (req_headers r) ''content-length'' = None \<and>
          (\<exists>te. map_of (req_headers r) ''transfer-encoding'' = Some te \<and> lower te = ''chunked'') \<and>
          (p_chunk_state p = CS_DATA \<longrightarrow> 0 < p_chunk_data_remaining p) \<and> p_chunk_state p \<noteq> CS_DONE
      | ST_DONE \<Rightarrow> framed r
      | _ \<Rightarrow> req_headers r = [] \<and> req_body r = [])"

definition bounds_inv :: "nat \<Rightarrow> parser \<Rightarrow> http_request \<Rightarrow> bool" where
  "bounds_inv slack p r \<longleftrightarrow>
     length (req_body r) \<le> MAX_BODY_SIZE + slack \<and>
     length (p_buffer p) \<le> MAX_HEADER_LINE_SIZE + slack \<and>
     length (p_chunk_size_hex_buffer p) \<le> 16 + slack \<and>
     headers_weight (req_headers r) \<le> p_headers_read p \<and>
     p_headers_read p \<le> MAX_HEADERS_SIZE + slack"

definition parser_inv :: "parser \<times> http_request \<Rightarrow> bool" where
  "parser_inv = (\<lambda>(p, r). headers_ok (req_headers r) \<and> bounds_inv 1 p r \<and>
     (p_parse_error p = PE_NONE \<longrightarrow> bounds_inv 0 p r \<and> state_inv p r))"

subsection \<open>Every step keeps the invariant\<close>

lemmas cap_defs =
  MAX_BODY_SIZE_def MAX_REQUEST_LINE_SIZE_def MAX_HEADER_LINE_SIZE_def MAX_HEADERS_SIZE_def

lemmas inv_defs = parser_inv_def bounds_inv_def state_inv_def

lemma content_length_loop_sound:
  "\<lbrakk>content_length_loop v cs = Some n; n \<le> MAX_BODY_SIZE\<rbrakk> \<Longrightarrow>
     list_all is_digit cs \<and> n = foldl (\<lambda>v c. v * 10 + digit_val c) v cs"
  by (induction v cs rule: content_length_loop.induct) (auto split: if_splits)

lemma parse_content_length_sound:
  "\<lbrakk>parse_content_length cl = Some n; n \<le> MAX_BODY_SIZE\<rbrakk> \<Longrightarrow> is_decimal cl \<and> dec_value cl = n"
  by (auto simp: parse_content_length_def is_decimal_def dec_value_def
      dest: content_length_loop_sound split: if_splits)

lemma headers_weight_put:
  "headers_weight (put k v hs) \<le> headers_weight hs + length k + length v"
  by (induction hs) (auto simp: headers_weight_def)

lemma header_ok_put:
  "\<lbrakk>list_all header_ok hs; header_ok (k, v)\<rbrakk> \<Longrightarrow> list_all header_ok (put k v hs)"
  by (induction hs) (auto simp: header_ok_def)

lemma headers_ok_put:
  assumes "headers_ok hs" "header_ok (k, v)"
    and "\<not> (k = ''content-length'' \<and> has_key ''transfer-encoding'' hs)"
    and "\<not> (k = ''transfer-encoding'' \<and> has_key ''content-length'' hs)"
  shows "headers_ok (put k v hs)"
proof -
  have "\<not> (has_key ''content-length'' (put k v hs) \<and> has_key ''transfer-encoding'' (put k v hs))"
    using assms by (auto simp: headers_ok_def)
  moreover have "list_all header_ok (put k v hs)" "distinct (map fst (put k v hs))"
    using assms by (simp_all add: headers_ok_def header_ok_put)
  ultimately show ?thesis
    unfolding headers_ok_def by blast
qed

lemma header_line_weight:
  "find_char x b = Some i \<Longrightarrow> length (lower (take i b)) + length (trim_blanks (drop (i + 1) b)) < length b"
  using length_trim_blanks [of "drop (i + 1) b"] str_find_bound [of "[x]" b 0 i]
  by (simp add: find_char_def)

lemma request_line_inv [inv_intros]:
  assumes "parser_inv (p, r)" "p_parse_error p = PE_NONE"
  shows "p_state p = ST_METHOD \<Longrightarrow> parser_inv (snd (step_method p r c))"
    and "p_state p = ST_PATH \<Longrightarrow> parser_inv (snd (step_path p r c))"
    and "p_state p = ST_VERSION \<Longrightarrow> parser_inv (snd (step_version p r c))"
    and "p_state p = ST_QUERY \<Longrightarrow> parser_inv (snd (step_query p r c))"
  using assms
  by (auto simp: request_line_defs reject_defs inv_defs Let_def cap_defs headers_weight_def)

lemma end_of_headers_inv:
  assumes "parser_inv (p, r)" "p_parse_error p = PE_NONE" "p_state p = ST_HEADER"
  shows "parser_inv (snd (end_of_headers p r))"
  using assms
  by (auto simp: end_of_headers_def reject_defs inv_defs Let_def framed_def headers_ok_def has_key_def
      dest: parse_content_length_sound split: option.splits)

lemma header_line_inv:
  assumes inv: "parser_inv (p, r)" "p_parse_error p = PE_NONE" "p_state p = ST_HEADER"
  shows "parser_inv (snd (header_line p r))"
proof (cases "find_char (CHR '':'') (p_buffer p)")
  case None
  then show ?thesis
    using inv by (auto simp: header_line_def reject_defs inv_defs)
next
  case (Some colon)
  define k where "k = lower (take colon (p_buffer p))"
  define v where "v = trim_blanks (drop (colon + 1) (p_buffer p))"
  have w: "length k + length v < length (p_buffer p)"
    unfolding k_def v_def by (rule header_line_weight [OF Some])
  have wt: "headers_weight (put k v (req_headers r)) \<le> p_headers_read p"
    using inv w headers_weight_put [of k v "req_headers r"] by (auto simp: inv_defs)
  have kl: "lower k = k" by (simp add: k_def)
  have rej: "parser_inv (snd (reject e p r))" if "e \<noteq> PE_NONE" for e
    using inv that by (auto simp: reject_defs inv_defs)
  have "parser_inv (p\<lparr>p_buffer := []\<rparr>, r\<lparr>req_headers := put k v (req_headers r)\<rparr>)"
    if "k \<noteq> []" "list_all is_tchar k" "list_all is_valid_field_value_char v"
      "\<not> (k = ''content-length'' \<and> has_key ''transfer-encoding'' (req_headers r))"
      "\<not> (k = ''transfer-encoding'' \<and> has_key ''content-length'' (req_headers r))"
  proof -
    have "headers_ok (put k v (req_headers r))"
      using that kl inv by (intro headers_ok_put) (simp_all add: parser_inv_def header_ok_def)
    with inv wt show ?thesis
      by (auto simp: inv_defs)
  qed
  then show ?thesis
    unfolding header_line_def Some option.case Let_def k_def [symmetric] v_def [symmetric]
    by (simp add: rej)
qed

lemma push_header_line_inv:
  assumes "parser_inv (p, r)" "p_parse_error p = PE_NONE" "p_state p = ST_CHUNKED_BODY"
  shows "parser_inv (snd (push_header_line p r c))"
  using assms by (auto simp: push_header_line_def reject_defs inv_defs Let_def)

lemma step_header_inv [inv_intros]:
  assumes inv: "parser_inv (p, r)" "p_parse_error p = PE_NONE" "p_state p = ST_HEADER"
  shows "parser_inv (snd (step_header p r c))"
proof -
  define q where "q = p\<lparr>p_headers_read := p_headers_read p + 1\<rparr>"
  have "parser_inv (q\<lparr>p_cr_seen := b\<rparr>, r)" if "p_headers_read q \<le> MAX_HEADERS_SIZE" for b
    using inv that by (auto simp: q_def inv_defs)
  moreover have "parser_inv (snd (push_header_line (q\<lparr>p_cr_seen := b\<rparr>) r c))"
    if "p_headers_read q \<le> MAX_HEADERS_SIZE" for b
    using inv that by (auto simp: q_def inv_defs push_header_line_def reject_defs Let_def)
  moreover have "parser_inv (snd (reject e q r))" if "e \<noteq> PE_NONE" for e
    using inv that by (auto simp: q_def inv_defs reject_defs)
  ultimately show ?thesis
    unfolding step_header_def q_def [symmetric] Let_def
    using inv end_of_headers_inv [of "q\<lparr>p_cr_seen := False\<rparr>" r] header_line_inv [of "q\<lparr>p_cr_seen := False\<rparr>" r]
    by (auto simp: q_def)
qed

lemma step_chunked_body_inv [inv_intros]:
  assumes "parser_inv (p, r)" "p_parse_error p = PE_NONE" "p_state p = ST_CHUNKED_BODY"
  shows "parser_inv (snd (step_chunked_body p r c))"
  using assms push_header_line_inv [OF assms]
  by (auto simp: step_chunked_body_def step_chunk_size_def step_chunk_data_def step_trailer_def
      reject_defs inv_defs framed_def Let_def split: chunk_state.splits option.splits)

lemma step_body_inv [inv_intros]:
  assumes "parser_inv (p, r)" "p_parse_error p = PE_NONE" "p_state p = ST_BODY"
  shows "parser_inv (snd (step_body p r c))"
  using assms by (auto simp: step_body_def reject_defs inv_defs framed_def Let_def)

interpretation hpi: stream_invariant parser_step parse_loop parser_live parser_inv
proof unfold_locales
  fix s :: "parser \<times> http_request" and c v s'
  assume *: "parser_live s" "parser_inv s" "parser_step s c = (v, s')"
  obtain p r where s: "s = (p, r)" by fastforce
  have "parser_inv (snd (parse_step p r c))"
    using * unfolding s parser_live_def parse_step_def
    by (cases "p_state p") (auto intro: inv_intros)
  with * show "parser_inv s'"
    by (simp add: s parser_step_def)
qed

subsection \<open>Properties\<close>

lemma parser_inv_init: "parser_inv (parser_init, request_clear)"
  by (simp add: inv_defs parser_init_def request_clear_def headers_ok_def headers_weight_def)

lemma parser_live_init: "parser_live (parser_init, r)"
  by (simp add: parser_live_def parser_init_def)

lemma parse_done:
  assumes "parser_live s" "parse_loop s n data = (b, (p', r'), m)"
  shows "b \<longleftrightarrow> p_parse_error p' = PE_NONE \<and> p_state p' = ST_DONE"
  using assms
proof (induction data arbitrary: s n)
  case (Cons c cs)
  obtain p r where s: "s = (p, r)" by fastforce
  from Cons.prems(1) show ?case
  proof (cases rule: hp.step_cases [where c = c])
    case (cont s1)
    then show ?thesis using Cons by metis
  next
    case (ret b1 s1)
    then have "s1 = (p', r')" "b1 = b" using Cons.prems(2) by auto
    then show ?thesis
      using ret(1) verdict_ok_step [of p r c] Cons.prems(1)
      by (cases b) (auto simp: s parser_step_def verdict_ok_def)
  qed
qed (auto simp: parser_live_def hp.loop_nil)

text \<open>C1: how the socket cuts the byte stream into reads does not matter. Parsing the
  concatenation of two reads is parsing the first and, if the request is neither complete nor
  refused, parsing the second from the state the first left; otherwise the bytes of the second
  read are not touched.\<close>

theorem parse_split:
  assumes "parser_live (p, r)" "parse p xs r = (b, (p', r'), n)"
  shows "parse p (xs @ ys) r =
     (if b \<or> p_parse_error p' \<noteq> PE_NONE then (b, (p', r'), n)
      else (case parse p' ys r' of (b2, s2, n2) \<Rightarrow> (b2, s2, length xs + n2)))"
proof -
  have loop: "parse_loop (p, r) 0 xs = (b, (p', r'), n)"
    using assms(2) by (simp add: parse_def)
  have stop: "\<not> parser_live (p', r') \<longleftrightarrow> b \<or> p_parse_error p' \<noteq> PE_NONE"
    using parse_done [OF assms(1) loop] by (auto simp: parser_live_def)
  have n: "n = length xs" if "parser_live (p', r')"
    using hp.loop_live [OF assms(1) loop that] by simp
  show ?thesis
    using hp.loop_append [OF assms(1), of 0 xs ys] hp.loop_offset [of "(p', r')" 0 n ys] n stop
    by (auto simp: parse_def loop split: prod.split)
qed

theorem parse_split_witness:
  "parse parser_init (''GE'' @ ''T /'') request_clear =
     (case parse (parser_init\<lparr>p_buffer := ''GE''\<rparr>) ''T /'' request_clear of
        (b2, s2, n2) \<Rightarrow> (b2, s2, 2 + n2))"
  using parse_split [of parser_init request_clear "''GE''" False "parser_init\<lparr>p_buffer := ''GE''\<rparr>"
      request_clear 2 "''T /''"] parser_live_init
  by (simp add: parse_def parse_step_def step_method_def push_request_line_def cap_defs
      is_valid_request_line_char_def parser_init_def)

text \<open>C2: a request the parser accepts has exactly one body framing: either
  \<^verbatim>\<open>Transfer-Encoding: chunked\<close> and no \<^verbatim>\<open>Content-Length\<close>, or a \<^verbatim>\<open>Content-Length\<close> of plain digits
  equal to the length of the body, or neither and an empty body. Header names are lower-case
  tokens, each present once, and no header value contains a control character, so CR, LF and NUL
  cannot reach the code that forwards the headers.\<close>

theorem accepted_request_framed:
  assumes "parse parser_init data request_clear = (True, (p', r'), n)"
  shows "framed r' \<and> headers_ok (req_headers r') \<and> length (req_body r') \<le> MAX_BODY_SIZE \<and>
         n \<le> length data"
proof -
  have loop: "parse_loop (parser_init, request_clear) 0 data = (True, (p', r'), n)"
    using assms by (simp add: parse_def)
  have "parser_inv (p', r')" "n \<le> length data"
    using hpi.loop_inv [OF parser_live_init parser_inv_init loop]
      hp.loop_bounds [OF parser_live_init loop] by auto
  moreover have "p_parse_error p' = PE_NONE" "p_state p' = ST_DONE"
    using parse_done [OF parser_live_init loop] by auto
  ultimately show ?thesis
    by (simp add: inv_defs)
qed

lemmas parse_eval =
  parse_def parse_step_def request_line_defs header_defs chunked_defs step_body_def Let_def
  parser_init_def request_clear_def is_valid_request_line_char_def cap_defs find_char_eq
  is_tchar_def is_digit_def is_lower_def is_upper_def to_lower_char_def lower_def
  trim_blanks_def is_blank_def is_valid_field_value_char_def has_key_def reject_defs

definition sample_get :: string where
  "sample_get = ''GET / HTTP/1.1'' @ crlf @ ''Host: h'' @ crlf @ crlf"

theorem accepted_request_framed_witness:
  "\<exists>p' r'. parse parser_init sample_get request_clear = (True, (p', r'), 27) \<and>
     framed r' \<and> headers_ok (req_headers r')"
proof -
  have "fst (parse parser_init sample_get request_clear) \<and>
        snd (snd (parse parser_init sample_get request_clear)) = 27"
    by (simp add: sample_get_def parse_eval)
  then obtain p' r' where "parse parser_init sample_get request_clear = (True, (p', r'), 27)"
    by (metis prod.collapse)
  then show ?thesis
    using accepted_request_framed [of sample_get p' r' 27] by blast
qed



end
