(* ===== verification/Http_Wire.thy ===== *)
theory Http_Wire
  imports Http_Parser
begin

text \<open>
  What the parser accepts: the requests in the wire format of HTTP/1.1. \<^verbatim>\<open>wire_request\<close> is the
  specification (request line, header lines, body); the lemmas drive the parser through it piece
  by piece, and show that the parsed request is the one that was written, with lower-cased
  header names, and that no byte after the request is consumed.
\<close>

subsection \<open>The wire format\<close>

definition wire_header :: "string \<times> string \<Rightarrow> string" where
  "wire_header = (\<lambda>(k, v). k @ '': '' @ v @ crlf)"

definition wire_headers :: "headers \<Rightarrow> string" where
  "wire_headers hs = concat (map wire_header hs) @ crlf"

definition wire_target :: "http_request \<Rightarrow> string" where
  "wire_target r = req_path r @ (if req_query r = [] then [] else CHR ''?'' # req_query r)"

definition wire_request_line :: "http_request \<Rightarrow> string" where
  "wire_request_line r = req_method r @ '' '' @ wire_target r @ '' '' @ req_version r @ crlf"

definition wire_request :: "http_request \<Rightarrow> string" where
  "wire_request r = wire_request_line r @ wire_headers (req_headers r) @ req_body r"

definition wire_chunk :: "string \<Rightarrow> string" where
  "wire_chunk d = hex (length d) @ crlf @ d @ crlf"

definition wire_chunked :: "string list \<Rightarrow> string" where
  "wire_chunked ds = concat (map wire_chunk ds) @ ''0'' @ crlf @ crlf"

definition wire_token_ok :: "string \<Rightarrow> bool" where
  "wire_token_ok s \<longleftrightarrow> list_all is_valid_request_line_char s \<and> length s \<le> MAX_REQUEST_LINE_SIZE"

definition wire_header_ok :: "string \<times> string \<Rightarrow> bool" where
  "wire_header_ok = (\<lambda>(k, v). k \<noteq> [] \<and> list_all is_tchar k \<and>
     list_all is_valid_field_value_char v \<and> trim_blanks v = v \<and>
     length k + length v + 2 \<le> MAX_HEADER_LINE_SIZE)"

definition lower_keys :: "headers \<Rightarrow> headers" where
  "lower_keys hs = map (\<lambda>(k, v). (lower k, v)) hs"

definition wire_headers_ok :: "headers \<Rightarrow> bool" where
  "wire_headers_ok hs \<longleftrightarrow> list_all wire_header_ok hs \<and> distinct (map fst (lower_keys hs)) \<and>
     \<not> (has_key ''content-length'' (lower_keys hs) \<and> has_key ''transfer-encoding'' (lower_keys hs)) \<and>
     length (wire_headers hs) \<le> MAX_HEADERS_SIZE"

definition wire_request_ok :: "http_request \<Rightarrow> bool" where
  "wire_request_ok r \<longleftrightarrow>
     wire_token_ok (req_method r) \<and> wire_token_ok (req_path r) \<and> CHR ''?'' \<notin> set (req_path r) \<and>
     wire_token_ok (req_query r) \<and> wire_token_ok (req_version r) \<and>
     wire_headers_ok (req_headers r)"

subsection \<open>Running over a stretch of bytes\<close>

lemma parse_loop_Continue:
  "\<lbrakk>parse_step p r c = (Continue, p', r'); p_state p' \<noteq> ST_DONE\<rbrakk> \<Longrightarrow>
     parse_loop (p, r) n (c # cs) = parse_loop (p', r') (Suc n) cs"
  by simp

lemma parse_loop_Return:
  "parse_step p r c = (Return b, p', r') \<Longrightarrow> parse_loop (p, r) n (c # cs) = (b, (p', r'), Suc n)"
  by simp

lemma valid_request_line_char_not:
  "is_valid_request_line_char c \<Longrightarrow> c \<noteq> CHR '' '' \<and> c \<noteq> CR \<and> c \<noteq> LF"
  by (auto simp: is_valid_request_line_char_def)

lemma push_token_step:
  assumes "is_valid_request_line_char c" "\<not> p_cr_seen p"
    and "p_state p \<in> {ST_METHOD, ST_PATH, ST_QUERY, ST_VERSION}"
    and "p_state p = ST_PATH \<longrightarrow> c \<noteq> CHR ''?''"
    and "length (p_buffer p) < MAX_REQUEST_LINE_SIZE"
  shows "parse_step p r c = (Continue, p\<lparr>p_buffer := p_buffer p @ [c]\<rparr>, r)"
  using assms valid_request_line_char_not [OF assms(1)]
  by (auto simp: parse_step_def request_line_defs Let_def)

lemma parse_loop_token:
  assumes "list_all is_valid_request_line_char cs" "\<not> p_cr_seen p"
    and "p_state p \<in> {ST_METHOD, ST_PATH, ST_QUERY, ST_VERSION}"
    and "p_state p = ST_PATH \<longrightarrow> CHR ''?'' \<notin> set cs"
    and "length (p_buffer p) + length cs \<le> MAX_REQUEST_LINE_SIZE"
  shows "parse_loop (p, r) n (cs @ rest) =
         parse_loop (p\<lparr>p_buffer := p_buffer p @ cs\<rparr>, r) (n + length cs) rest"
  using assms
proof (induction cs arbitrary: p n)
  case (Cons c cs)
  have "parse_step p r c = (Continue, p\<lparr>p_buffer := p_buffer p @ [c]\<rparr>, r)"
    using Cons.prems by (intro push_token_step) auto
  then have "parse_loop (p, r) n (c # cs @ rest) =
             parse_loop (p\<lparr>p_buffer := p_buffer p @ [c]\<rparr>, r) (Suc n) (cs @ rest)"
    using Cons.prems(3) by (intro parse_loop_Continue) auto
  then show ?case
    using Cons.prems Cons.IH [of "p\<lparr>p_buffer := p_buffer p @ [c]\<rparr>" "Suc n"] by simp
qed simp

lemma push_header_step:
  assumes "p_state p = ST_HEADER" "c \<noteq> CR" "c \<noteq> LF" "\<not> p_cr_seen p"
    and "length (p_buffer p) < MAX_HEADER_LINE_SIZE" "p_headers_read p < MAX_HEADERS_SIZE"
  shows "parse_step p r c =
         (Continue, p\<lparr>p_headers_read := p_headers_read p + 1, p_buffer := p_buffer p @ [c]\<rparr>, r)"
  using assms by (simp add: parse_step_def step_header_def push_header_line_def Let_def)

lemma parse_loop_header_bytes:
  assumes "p_state p = ST_HEADER" "CR \<notin> set cs" "LF \<notin> set cs" "\<not> p_cr_seen p"
    and "length (p_buffer p) + length cs \<le> MAX_HEADER_LINE_SIZE"
    and "p_headers_read p + length cs \<le> MAX_HEADERS_SIZE"
  shows "parse_loop (p, r) n (cs @ rest) =
         parse_loop (p\<lparr>p_headers_read := p_headers_read p + length cs,
                       p_buffer := p_buffer p @ cs\<rparr>, r) (n + length cs) rest"
  using assms
proof (induction cs arbitrary: p n)
  case (Cons c cs)
  let ?p = "p\<lparr>p_headers_read := p_headers_read p + 1, p_buffer := p_buffer p @ [c]\<rparr>"
  have "parse_loop (p, r) n (c # cs @ rest) = parse_loop (?p, r) (Suc n) (cs @ rest)"
    using Cons.prems by (intro parse_loop_Continue push_header_step) auto
  then show ?case
    using Cons.prems Cons.IH [of ?p "Suc n"] by simp
qed simp

lemma parse_loop_body:
  assumes "p_state p = ST_BODY" "cs \<noteq> []" "p_body_read p + length cs = p_content_length p"
    and "p_content_length p \<le> MAX_BODY_SIZE"
  shows "parse_loop (p, r) n (cs @ rest) =
         (True, (p\<lparr>p_body_read := p_content_length p, p_state := ST_DONE\<rparr>,
                 r\<lparr>req_body := req_body r @ cs\<rparr>), n + length cs)"
  using assms
proof (induction cs arbitrary: p r n)
  case (Cons c cs)
  show ?case
  proof (cases "cs = []")
    case True
    then show ?thesis
      using Cons.prems by (simp add: parse_step_def step_body_def Let_def)
  next
    case False
    then have "0 < length cs" by simp
    let ?p = "p\<lparr>p_body_read := p_body_read p + 1\<rparr>" and ?r = "r\<lparr>req_body := req_body r @ [c]\<rparr>"
    have "parse_loop (p, r) n (c # cs @ rest) = parse_loop (?p, ?r) (Suc n) (cs @ rest)"
      using Cons.prems \<open>0 < length cs\<close> 
      by (intro parse_loop_Continue)
         (simp_all add: parse_step_def step_body_def Let_def del: length_greater_0_conv)
    then show ?thesis
      using False Cons.prems Cons.IH [of ?p ?r "Suc n"] by simp
  qed
qed simp

subsection \<open>The request line\<close>

lemma tchar_not: "is_tchar c \<Longrightarrow> c \<noteq> CHR '':'' \<and> c \<noteq> CR \<and> c \<noteq> LF"
  by (auto simp: is_tchar_def is_digit_def is_lower_def is_upper_def)

lemma field_value_char_not: "is_valid_field_value_char c \<Longrightarrow> c \<noteq> CR \<and> c \<noteq> LF"
  by (auto simp: is_valid_field_value_char_def)

lemma tchar_to_lower: "is_tchar c \<Longrightarrow> is_tchar (to_lower_char c)"
  using code_to_lower_char [of c]
  by (auto simp: is_tchar_def is_lower_def is_upper_def to_lower_char_id)

lemma tchar_lower: "list_all is_tchar k \<Longrightarrow> list_all is_tchar (lower k)"
  by (simp add: lower_def list_all_iff tchar_to_lower)

abbreviation at_header :: "size_t \<Rightarrow> parser" where
  "at_header h \<equiv> parser_init\<lparr>p_state := ST_HEADER, p_headers_read := h\<rparr>"

lemma parse_loop_request_line:
  assumes "wire_token_ok (req_method q)" "wire_token_ok (req_path q)" "CHR ''?'' \<notin> set (req_path q)"
    and "wire_token_ok (req_query q)" "wire_token_ok (req_version q)"
  shows "parse_loop (parser_init, request_clear) 0 (wire_request_line q @ rest) =
         parse_loop (at_header 0, request_clear\<lparr>req_method := req_method q, req_path := req_path q,
            req_query := req_query q, req_version := req_version q\<rparr>)
          (length (wire_request_line q)) rest"
proof -
  let ?tgt = "wire_target q @ '' '' @ req_version q @ crlf @ rest"
  let ?p = "parser_init\<lparr>p_state := ST_VERSION\<rparr>"
  let ?r = "request_clear\<lparr>req_method := req_method q, req_path := req_path q, req_query := req_query q\<rparr>"
  have m: "parse_loop (parser_init, request_clear) 0 (req_method q @ '' '' @ ?tgt) =
        parse_loop (parser_init\<lparr>p_state := ST_PATH\<rparr>, request_clear\<lparr>req_method := req_method q\<rparr>)
          (Suc (length (req_method q))) ?tgt"
    using assms(1) by (simp add: wire_token_ok_def parse_loop_token parser_init_def parse_step_def
        step_method_def)
  have t: "parse_loop (parser_init\<lparr>p_state := ST_PATH\<rparr>, request_clear\<lparr>req_method := req_method q\<rparr>) n ?tgt =
        parse_loop (?p, ?r) (Suc (n + length (wire_target q))) (req_version q @ crlf @ rest)" for n
    using assms(2-4) by (simp add: wire_token_ok_def wire_target_def parse_loop_token parser_init_def
        parse_step_def step_path_def step_query_def request_clear_def add.assoc)
  have v: "parse_loop (?p, ?r) n (req_version q @ crlf @ rest) =
        parse_loop (at_header 0, ?r\<lparr>req_version := req_version q\<rparr>) (n + length (req_version q) + 2) rest" for n
    using assms(5) by (simp add: wire_token_ok_def parse_loop_token parser_init_def parse_step_def
        step_version_def)
  show ?thesis
    using m t [of "Suc (length (req_method q))"] v by (simp add: wire_request_line_def add.assoc)
qed

subsection \<open>The header block\<close>

lemma header_line_wire:
  assumes "wire_header_ok (k, v)" "p_buffer p = k @ '': '' @ v" "\<not> has_key (lower k) (req_headers r)"
    and "\<not> (lower k = ''content-length'' \<and> has_key ''transfer-encoding'' (req_headers r))"
    and "\<not> (lower k = ''transfer-encoding'' \<and> has_key ''content-length'' (req_headers r))"
  shows "header_line p r =
         (Continue, p\<lparr>p_buffer := []\<rparr>, r\<lparr>req_headers := req_headers r @ [(lower k, v)]\<rparr>)"
proof -
  have "CHR '':'' \<notin> set k"
    using assms(1) by (auto simp: wire_header_ok_def list_all_iff dest: tchar_not)
  then have f: "find_char (CHR '':'') (p_buffer p) = Some (length k)"
    using find_char_append [of "CHR '':''" k "CHR '' '' # v"] by (simp add: assms(2))
  have "trim_blanks (CHR '' '' # v) = v"
    using assms(1) by (simp add: wire_header_ok_def trim_blanks_Cons is_blank_def)
  moreover have "put (lower k) v (req_headers r) = req_headers r @ [(lower k, v)]"
    using assms(3) by (simp add: put_absent has_key_def)
  ultimately show ?thesis
    using assms(1,3-5) unfolding header_line_def f option.case
    by (auto simp: assms(2) wire_header_ok_def tchar_lower Let_def)
qed

lemma parse_loop_header:
  assumes ok: "wire_header_ok (k, v)" and h: "h + length (wire_header (k, v)) \<le> MAX_HEADERS_SIZE"
    and "\<not> has_key (lower k) (req_headers r)"
    and "\<not> (lower k = ''content-length'' \<and> has_key ''transfer-encoding'' (req_headers r))"
    and "\<not> (lower k = ''transfer-encoding'' \<and> has_key ''content-length'' (req_headers r))"
  shows "parse_loop (at_header h, r) n (wire_header (k, v) @ rest) =
         parse_loop (at_header (h + length (wire_header (k, v))),
                     r\<lparr>req_headers := req_headers r @ [(lower k, v)]\<rparr>)
           (n + length (wire_header (k, v))) rest"
proof -
  let ?l = "k @ '': '' @ v"
  have l: "CR \<notin> set ?l" "LF \<notin> set ?l" "length ?l \<le> MAX_HEADER_LINE_SIZE" "?l \<noteq> []"
    using ok by (auto simp: wire_header_ok_def list_all_iff dest: tchar_not field_value_char_not)
  have "parse_loop (at_header h, r) n (?l @ CR # LF # rest) =
        parse_loop (at_header (h + length ?l)\<lparr>p_buffer := ?l\<rparr>, r) (n + length ?l) (CR # LF # rest)"
    using l h by (subst parse_loop_header_bytes) (simp_all add: parser_init_def wire_header_def)
  also have "\<dots> = parse_loop (at_header (h + length ?l + 2),
                     r\<lparr>req_headers := req_headers r @ [(lower k, v)]\<rparr>) (n + length ?l + 2) rest"
    using h l header_line_wire [OF ok _ assms(3-5)]
    by (simp add: parse_step_def step_header_def Let_def wire_header_def parser_init_def)
  finally show ?thesis
    by (simp add: wire_header_def)
qed

lemma parse_loop_headers:
  assumes "list_all wire_header_ok hs" "distinct (map fst (req_headers r @ lower_keys hs))"
    and "\<not> (has_key ''content-length'' (req_headers r @ lower_keys hs) \<and>
            has_key ''transfer-encoding'' (req_headers r @ lower_keys hs))"
    and "h + length (concat (map wire_header hs)) \<le> MAX_HEADERS_SIZE"
  shows "parse_loop (at_header h, r) n (concat (map wire_header hs) @ rest) =
         parse_loop (at_header (h + length (concat (map wire_header hs))),
                     r\<lparr>req_headers := req_headers r @ lower_keys hs\<rparr>)
           (n + length (concat (map wire_header hs))) rest"
  using assms
proof (induction hs arbitrary: h r n)
  case (Cons kv hs)
  obtain k v where kv: "kv = (k, v)" by fastforce
  let ?w = "length (wire_header (k, v))"
  let ?r = "r\<lparr>req_headers := req_headers r @ [(lower k, v)]\<rparr>"
  have "parse_loop (at_header h, r) n (wire_header (k, v) @ concat (map wire_header hs) @ rest) =
        parse_loop (at_header (h + ?w), ?r) (n + ?w) (concat (map wire_header hs) @ rest)"
    using Cons.prems by (intro parse_loop_header) (auto simp: kv lower_keys_def has_key_iff)
  also have "\<dots> = parse_loop (at_header (h + ?w + length (concat (map wire_header hs))),
          ?r\<lparr>req_headers := req_headers ?r @ lower_keys hs\<rparr>)
          (n + ?w + length (concat (map wire_header hs))) rest"
    using Cons.prems by (intro Cons.IH) (auto simp: kv lower_keys_def)
  finally show ?case
    by (simp add: kv lower_keys_def add.assoc)
qed (simp add: lower_keys_def)

lemma content_length_loop_complete:
  "\<lbrakk>list_all is_digit cs; foldl (\<lambda>v c. v * 10 + digit_val c) v cs \<le> MAX_BODY_SIZE\<rbrakk> \<Longrightarrow>
     content_length_loop v cs = Some (foldl (\<lambda>v c. v * 10 + digit_val c) v cs)"
proof (induction v cs rule: content_length_loop.induct)
  case (2 v ch cs)
  have mono: "v \<le> foldl (\<lambda>v c. v * 10 + digit_val c) v xs" for v :: nat and xs
  proof (induction xs arbitrary: v)
    case (Cons x xs)
    show ?case
      using Cons [of "v * 10 + digit_val x"] by simp
  qed simp
  from mono [of "v * 10 + digit_val ch" cs] have "v \<le> MAX_BODY_SIZE"
    using 2(3) by simp
  with 2 show ?case by simp
qed simp

lemma parse_content_length_complete:
  "\<lbrakk>is_decimal cl; dec_value cl \<le> MAX_BODY_SIZE\<rbrakk> \<Longrightarrow> parse_content_length cl = Some (dec_value cl)"
  by (simp add: is_decimal_def dec_value_def parse_content_length_def content_length_loop_complete)

lemma parse_loop_end_of_headers:
  assumes "h + 2 \<le> MAX_HEADERS_SIZE" "m = n + 2"
  shows "parse_loop (at_header h, r) n (CR # LF # rest) =
         (case end_of_headers (at_header (h + 2)) r of
            (Return b, p', r') \<Rightarrow> (b, (p', r'), m)
          | (Continue, p', r') \<Rightarrow> parse_loop (p', r') m rest)"
  using assms
  by (auto simp: parse_step_def step_header_def Let_def parser_init_def end_of_headers_def
      reject_defs split: option.split)

subsection \<open>Whole requests\<close>

definition parsed_request :: "http_request \<Rightarrow> http_request" where
  "parsed_request r = r\<lparr>req_headers := lower_keys (req_headers r),
     req_trace_id := [], req_host := [], req_tenant := []\<rparr>"

lemma parse_loop_head:
  assumes "wire_request_ok q" and "m = length (wire_request_line q @ wire_headers (req_headers q))"
  shows "\<exists>h. parse_loop (parser_init, request_clear) 0
           (wire_request_line q @ wire_headers (req_headers q) @ rest) =
         (case end_of_headers (at_header h) ((parsed_request q)\<lparr>req_body := []\<rparr>) of
            (Return b, p', r') \<Rightarrow> (b, (p', r'), m)
          | (Continue, p', r') \<Rightarrow> parse_loop (p', r') m rest)"
proof -
  let ?r0 = "request_clear\<lparr>req_method := req_method q, req_path := req_path q,
            req_query := req_query q, req_version := req_version q\<rparr>"
  let ?ws = "concat (map wire_header (req_headers q))"
  have line: "parse_loop (parser_init, request_clear) 0 (wire_request_line q @ s) =
        parse_loop (at_header 0, ?r0) (length (wire_request_line q)) s" for s
    using assms(1) by (intro parse_loop_request_line) (auto simp: wire_request_ok_def)
  have hdrs: "parse_loop (at_header 0, ?r0) n (?ws @ s) =
        parse_loop (at_header (0 + length ?ws), ?r0\<lparr>req_headers := req_headers ?r0 @ lower_keys (req_headers q)\<rparr>)
          (n + length ?ws) s" for n s
    using assms(1) by (intro parse_loop_headers)
      (auto simp: wire_request_ok_def wire_headers_ok_def wire_headers_def request_clear_def)
  have r: "?r0\<lparr>req_headers := req_headers ?r0 @ lower_keys (req_headers q)\<rparr> =
      (parsed_request q)\<lparr>req_body := []\<rparr>"
    by (cases q) (simp add: request_clear_def parsed_request_def)
  have "parse_loop (parser_init, request_clear) 0
          (wire_request_line q @ wire_headers (req_headers q) @ rest) =
        parse_loop (at_header (length ?ws), (parsed_request q)\<lparr>req_body := []\<rparr>)
          (length (wire_request_line q) + length ?ws) (CR # LF # rest)"
    unfolding line wire_headers_def append_assoc hdrs r by simp
  also have "\<dots> = (case end_of_headers (at_header (length ?ws + 2)) ((parsed_request q)\<lparr>req_body := []\<rparr>) of
            (Return b, p', r') \<Rightarrow> (b, (p', r'), m)
          | (Continue, p', r') \<Rightarrow> parse_loop (p', r') m rest)"
    using assms
    by (intro parse_loop_end_of_headers) (simp_all add: wire_request_ok_def wire_headers_ok_def wire_headers_def)
  finally show ?thesis by blast
qed

lemma parse_plain_request:
  assumes ok: "wire_request_ok q" and te: "\<not> has_key ''transfer-encoding'' (lower_keys (req_headers q))"
    and fr: "framed (parsed_request q)" and len: "length (req_body q) \<le> MAX_BODY_SIZE"
  shows "\<exists>p'. parse parser_init (wire_request q @ rest) request_clear =
           (True, (p', parsed_request q), length (wire_request q)) \<and>
         p_state p' = ST_DONE \<and> p_parse_error p' = PE_NONE"
proof -
  let ?r = "(parsed_request q)\<lparr>req_body := []\<rparr>"
  let ?m = "length (wire_request_line q @ wire_headers (req_headers q))"
  have rb: "?r\<lparr>req_body := req_body q\<rparr> = parsed_request q" "req_headers ?r = lower_keys (req_headers q)"
    by (simp_all add: parsed_request_def)
  from parse_loop_head [OF ok refl, of "req_body q @ rest"] obtain h where
    eq: "parse parser_init (wire_request q @ rest) request_clear =
         (case end_of_headers (at_header h) ?r of
            (Return b, p', r') \<Rightarrow> (b, (p', r'), ?m)
          | (Continue, p', r') \<Rightarrow> parse_loop (p', r') ?m (req_body q @ rest))"
    by (auto simp: parse_def wire_request_def simp del: parse_loop.simps(2))
  show ?thesis
  proof (cases "req_body q = []")
    case True
    then have "\<exists>p'. end_of_headers (at_header h) ?r = (Return True, p', ?r) \<and>
        p_state p' = ST_DONE \<and> p_parse_error p' = PE_NONE"
      using fr te len parse_content_length_complete
      by (auto simp: framed_def end_of_headers_def rb parsed_request_def has_key_def parser_init_def
          split: option.splits)
    moreover have "?r = parsed_request q"
      using True rb(1) by simp
    ultimately show ?thesis
      using True unfolding eq by (auto simp: wire_request_def)
  next
    case False
    then obtain p' where p': "end_of_headers (at_header h) ?r = (Continue, p', ?r)"
        "p_state p' = ST_BODY" "p_body_read p' = 0" "p_content_length p' = length (req_body q)"
        "p_parse_error p' = PE_NONE"
      using fr te len parse_content_length_complete
      by (auto simp: framed_def end_of_headers_def rb parsed_request_def has_key_def parser_init_def
          split: option.splits)
    then show ?thesis
      using False len parse_loop_body [of p' "req_body q" ?r ?m rest] rb(1)
      unfolding eq by (auto simp: wire_request_def)
  qed
qed

subsection \<open>Chunked bodies\<close>

lemma chunk_size_loop_append:
  "a \<le> MAX_BODY_SIZE \<Longrightarrow> chunk_size_loop a (xs @ ys) =
     (case chunk_size_loop a xs of
        None \<Rightarrow> None
      | Some v \<Rightarrow> if v > MAX_BODY_SIZE then Some v else chunk_size_loop v ys)"
  by (induction a xs rule: chunk_size_loop.induct) (auto simp: Let_def split: option.split)

lemma chunk_size_loop_hex: "n \<le> MAX_BODY_SIZE \<Longrightarrow> chunk_size_loop 0 (hex n) = Some n"
proof (induction n rule: hex.induct)
  case (1 n)
  show ?case
  proof (cases "n < 16")
    case True
    then show ?thesis
      using 1(2) by (subst hex.simps) (simp add: hex_digit_hex_char)
  next
    case False
    then have "chunk_size_loop 0 (hex (n div 16)) = Some (n div 16)" "n div 16 \<le> MAX_BODY_SIZE"
      using 1 by auto
    then show ?thesis
      using False 1(2)
      by (subst hex.simps) (simp add: chunk_size_loop_append hex_digit_hex_char Let_def)
  qed
qed

lemma set_hex: "c \<in> set (hex n) \<Longrightarrow> c \<noteq> CR \<and> c \<noteq> LF \<and> c \<noteq> CHR '';''"
proof (induction n rule: hex.induct)
  case (1 n)
  have "hex_char d \<noteq> CR \<and> hex_char d \<noteq> LF \<and> hex_char d \<noteq> CHR '';''" if "d < 16" for d
    using hex_digit_hex_char [OF that] by (auto simp: is_digit_def hex_digit.simps)
  then show ?case
    using 1 by (subst (asm) (2) hex.simps) (auto split: if_splits)
qed

lemma length_hex: "\<lbrakk>n < 16 ^ k; 0 < k\<rbrakk> \<Longrightarrow> length (hex n) \<le> k"
proof (induction k arbitrary: n)
  case (Suc k)
  then show ?case
    by (subst hex.simps) (cases k, auto simp: less_mult_imp_div_less mult.commute)
qed simp

lemma parse_chunk_size_hex: "n \<le> MAX_BODY_SIZE \<Longrightarrow> parse_chunk_size (hex n) = Some n"
proof -
  assume "n \<le> MAX_BODY_SIZE"
  moreover have "find_char (CHR '';'') (hex n) = None"
    using set_hex [of "CHR '';''" n] by (auto simp: find_char_None)
  ultimately show ?thesis
    by (simp add: parse_chunk_size_def chunk_size_loop_hex)
qed

lemma parse_loop_chunk_size:
  assumes "p_state p = ST_CHUNKED_BODY" "p_chunk_state p = CS_SIZE"
    and "CR \<notin> set cs" "LF \<notin> set cs" "length (p_chunk_size_hex_buffer p) + length cs \<le> 16"
  shows "parse_loop (p, r) n (cs @ rest) =
         parse_loop (p\<lparr>p_chunk_size_hex_buffer := p_chunk_size_hex_buffer p @ cs\<rparr>, r) (n + length cs) rest"
  using assms
proof (induction cs arbitrary: p n)
  case (Cons c cs)
  let ?p = "p\<lparr>p_chunk_size_hex_buffer := p_chunk_size_hex_buffer p @ [c]\<rparr>"
  have "parse_loop (p, r) n (c # cs @ rest) = parse_loop (?p, r) (Suc n) (cs @ rest)"
    using Cons.prems by (intro parse_loop_Continue)
      (auto simp: parse_step_def step_chunked_body_def step_chunk_size_def Let_def)
  then show ?case
    using Cons.prems Cons.IH [of ?p "Suc n"] by simp
qed simp

lemma parse_loop_chunk_data:
  assumes "p_state p = ST_CHUNKED_BODY" "p_chunk_state p = CS_DATA" "cs \<noteq> []"
    and "p_chunk_data_remaining p = length cs" "length (req_body r) + length cs \<le> MAX_BODY_SIZE"
  shows "parse_loop (p, r) n (cs @ rest) =
         parse_loop (p\<lparr>p_chunk_data_remaining := 0, p_chunk_state := CS_SIZE\<rparr>,
                     r\<lparr>req_body := req_body r @ cs\<rparr>) (n + length cs) rest"
  using assms
proof (induction cs arbitrary: p r n)
  case (Cons c cs)
  show ?case
  proof (cases "cs = []")
    case True
    then show ?thesis
      using Cons.prems
      by (simp add: parse_step_def step_chunked_body_def step_chunk_data_def Let_def)
  next
    case False
    let ?p = "p\<lparr>p_chunk_data_remaining := length cs\<rparr>" and ?r = "r\<lparr>req_body := req_body r @ [c]\<rparr>"
    have "parse_loop (p, r) n (c # cs @ rest) = parse_loop (?p, ?r) (Suc n) (cs @ rest)"
      using Cons.prems False by (intro parse_loop_Continue)
        (auto simp: parse_step_def step_chunked_body_def step_chunk_data_def Let_def)
    then show ?thesis
      using False Cons.prems Cons.IH [of ?p ?r "Suc n"] by simp
  qed
qed simp

abbreviation at_chunk :: "parser \<Rightarrow> parser" where
  "at_chunk p \<equiv> p\<lparr>p_chunk_size_hex_buffer := [], p_chunk_data_remaining := 0,
     p_chunk_state := CS_SIZE, p_state := ST_CHUNKED_BODY\<rparr>"

lemma hex_fits: "n \<le> MAX_BODY_SIZE \<Longrightarrow> length (hex n) \<le> 16"
  using length_hex [of n 16] by (simp add: MAX_BODY_SIZE_def)

lemma parse_loop_chunk:
  assumes "d \<noteq> []" "length (req_body r) + length d \<le> MAX_BODY_SIZE"
  shows "parse_loop (at_chunk p, r) n (wire_chunk d @ rest) =
         parse_loop (at_chunk p, r\<lparr>req_body := req_body r @ d\<rparr>) (n + length (wire_chunk d)) rest"
proof -
  let ?h = "hex (length d)"
  have h: "CR \<notin> set ?h" "LF \<notin> set ?h" "length ?h \<le> 16" "parse_chunk_size ?h = Some (length d)"
    using set_hex assms by (auto intro: hex_fits simp: parse_chunk_size_hex)
  have "parse_loop (at_chunk p, r) n (?h @ CR # LF # d @ CR # LF # rest) =
        parse_loop ((at_chunk p)\<lparr>p_chunk_data_remaining := length d, p_chunk_state := CS_DATA\<rparr>, r)
          (n + length ?h + 2) (d @ CR # LF # rest)"
    using h assms by (cases p; subst parse_loop_chunk_size)
      (simp_all add: parse_step_def step_chunked_body_def step_chunk_size_def Let_def)
  also have "\<dots> = parse_loop (at_chunk p, r\<lparr>req_body := req_body r @ d\<rparr>)
          (n + length ?h + 2 + length d + 2) rest"
    using assms by (cases p; subst parse_loop_chunk_data)
      (simp_all add: parse_step_def step_chunked_body_def step_chunk_size_def Let_def)
  finally show ?thesis
    by (simp add: wire_chunk_def add_ac)
qed

lemma parse_loop_chunked:
  assumes "list_all (\<lambda>d. d \<noteq> []) ds" "length (req_body r) + length (concat ds) \<le> MAX_BODY_SIZE"
  shows "\<exists>p'. parse_loop (at_chunk p, r) n (wire_chunked ds @ rest) =
           (True, (p', r\<lparr>req_body := req_body r @ concat ds\<rparr>), n + length (wire_chunked ds)) \<and>
         p_state p' = ST_DONE \<and> p_parse_error p' = p_parse_error p"
  using assms
proof (induction ds arbitrary: r n)
  case Nil
  then show ?case
    by (auto simp: wire_chunked_def parse_step_def step_chunked_body_def step_chunk_size_def
        parse_chunk_size_def find_char_eq step_trailer_def Let_def is_digit_def hex_digit.simps)
next
  case (Cons d ds)
  have "parse_loop (at_chunk p, r) n (wire_chunk d @ wire_chunked ds @ rest) =
        parse_loop (at_chunk p, r\<lparr>req_body := req_body r @ d\<rparr>) (n + length (wire_chunk d))
          (wire_chunked ds @ rest)"
    using Cons.prems by (intro parse_loop_chunk) auto
  moreover have "wire_chunked (d # ds) = wire_chunk d @ wire_chunked ds"
    by (simp add: wire_chunked_def)
  ultimately show ?case
    using Cons.prems Cons.IH [of "r\<lparr>req_body := req_body r @ d\<rparr>" "n + length (wire_chunk d)"]
    by (auto simp: add.assoc)
qed

lemma parse_chunked_request:
  assumes ok: "wire_request_ok q"
    and te: "map_of (lower_keys (req_headers q)) ''transfer-encoding'' = Some te" "lower te = ''chunked''"
    and ds: "list_all (\<lambda>d. d \<noteq> []) ds" "length (concat ds) \<le> MAX_BODY_SIZE"
  shows "\<exists>p'. parse parser_init
            (wire_request_line q @ wire_headers (req_headers q) @ wire_chunked ds @ rest) request_clear =
           (True, (p', (parsed_request q)\<lparr>req_body := concat ds\<rparr>),
            length (wire_request_line q @ wire_headers (req_headers q) @ wire_chunked ds)) \<and>
         p_state p' = ST_DONE \<and> p_parse_error p' = PE_NONE"
proof -
  let ?r = "(parsed_request q)\<lparr>req_body := []\<rparr>"
  let ?m = "length (wire_request_line q @ wire_headers (req_headers q))"
  from parse_loop_head [OF ok refl, of "wire_chunked ds @ rest"] obtain h where
    eq: "parse parser_init
           (wire_request_line q @ wire_headers (req_headers q) @ wire_chunked ds @ rest) request_clear =
         (case end_of_headers (at_header h) ?r of
            (Return b, p', r') \<Rightarrow> (b, (p', r'), ?m)
          | (Continue, p', r') \<Rightarrow> parse_loop (p', r') ?m (wire_chunked ds @ rest))"
    by (auto simp: parse_def simp del: parse_loop.simps(2))
  have "end_of_headers (at_header h) ?r = (Continue, at_chunk (at_header h), ?r)"
    using te by (simp add: end_of_headers_def parsed_request_def)
  then show ?thesis
    using parse_loop_chunked [of ds ?r "at_header h" ?m rest] ds
    unfolding eq by (auto simp: add.assoc parser_init_def)
qed

subsection \<open>Properties\<close>


lemmas wire_eval =
  wire_request_ok_def wire_token_ok_def wire_headers_ok_def wire_header_ok_def wire_headers_def
  wire_header_def lower_keys_def parsed_request_def framed_def is_decimal_def dec_value_def
  digit_val_def char_of_iff parse_eval

definition sample_request :: http_request where
  "sample_request = request_clear\<lparr>req_method := ''POST'', req_path := ''/a'', req_query := ''x=1'',
     req_version := ''HTTP/1.1'', req_headers := [(''Host'', ''h''), (''Content-Length'', ''2'')],
     req_body := ''ok''\<rparr>"

lemma sample_request_ok:
  "wire_request_ok sample_request" "framed (parsed_request sample_request)"
  "lower_keys (req_headers sample_request) = [(''host'', ''h''), (''content-length'', ''2'')]"
  by (simp_all add: sample_request_def wire_eval)



definition sample_chunked :: http_request where
  "sample_chunked = request_clear\<lparr>req_method := ''POST'', req_path := ''/a'',
     req_version := ''HTTP/1.1'', req_headers := [(''Transfer-Encoding'', ''Chunked'')]\<rparr>"

lemma sample_chunked_ok:
  "wire_request_ok sample_chunked"
  "map_of (lower_keys (req_headers sample_chunked)) ''transfer-encoding'' = Some ''Chunked''"
  "lower ''Chunked'' = ''chunked''"
  by (simp_all add: sample_chunked_def wire_eval)


end
