(* ===== verification/Gateway_Config.thy ===== *)
theory Gateway_Config
  imports Gateway_Prelude
begin

text \<open>
  The configuration (\<^verbatim>\<open>include/server/config.h\<close>): one record per struct with the member
  initialisers as \<^verbatim>\<open>..._default\<close>, and the semantic check \<^verbatim>\<open>Config::validate\<close> with its messages.
  \<^verbatim>\<open>inet_pton\<close> is the parameter \<^verbatim>\<open>valid_ipv4\<close>. The main lemma characterises the accepted
  configurations.
\<close>

subsection \<open>Data\<close>

record rate_limit_config =
  rl_capacity :: size_t
  rl_refill_per_second :: size_t

definition rate_limit_default :: rate_limit_config where
  "rate_limit_default = \<lparr>rl_capacity = 100, rl_refill_per_second = 50\<rparr>"

record api_key_config =
  ak_key :: string
  ak_name :: string
  ak_rate_limit :: rate_limit_config
  ak_allowed_hosts :: "string list"
  ak_allowed_tenants :: "string list"

definition api_key_default :: api_key_config where
  "api_key_default = \<lparr>ak_key = [], ak_name = [],
     ak_rate_limit = \<lparr>rl_capacity = 200, rl_refill_per_second = 100\<rparr>,
     ak_allowed_hosts = [], ak_allowed_tenants = []\<rparr>"

record upstream_server =
  us_host :: string
  us_port :: int
  us_tls :: bool
  us_tls_ca_file :: string
  us_tls_server_name :: string
  us_tls_skip_verify :: bool
  us_healthy :: bool
  us_consecutive_failures :: int

definition upstream_server_default :: upstream_server where
  "upstream_server_default = \<lparr>us_host = [], us_port = 80, us_tls = False, us_tls_ca_file = [],
     us_tls_server_name = [], us_tls_skip_verify = False, us_healthy = True,
     us_consecutive_failures = 0\<rparr>"

record upstream =
  up_servers :: "upstream_server list"
  up_algorithm :: string

definition upstream_default :: upstream where
  "upstream_default = \<lparr>up_servers = [], up_algorithm = ''round_robin''\<rparr>"

record upstream_target =
  ut_name :: string
  ut_timeout_ms :: int
  ut_max_retries :: int
  ut_circuit_failure_threshold :: int
  ut_circuit_recovery_timeout_ms :: int

definition upstream_target_default :: upstream_target where
  "upstream_target_default = \<lparr>ut_name = [], ut_timeout_ms = 5000, ut_max_retries = 1,
     ut_circuit_failure_threshold = 5, ut_circuit_recovery_timeout_ms = 10000\<rparr>"

record composite_dependency =
  cd_name :: string
  cd_upstream_name :: string
  cd_path :: string
  cd_method :: string
  cd_required :: bool
  cd_timeout_ms :: int

definition composite_dependency_default :: composite_dependency where
  "composite_dependency_default = \<lparr>cd_name = [], cd_upstream_name = [], cd_path = ''/'',
     cd_method = ''GET'', cd_required = True, cd_timeout_ms = 5000\<rparr>"

record composite_target =
  ct_name :: string
  ct_dependencies :: "composite_dependency list"
  ct_total_timeout_ms :: int

definition composite_target_default :: composite_target where
  "composite_target_default = \<lparr>ct_name = [], ct_dependencies = [], ct_total_timeout_ms = 0\<rparr>"

record gateway_route =
  rt_name :: string
  rt_method :: string
  rt_path :: string
  rt_host :: string
  rt_tenant :: string
  rt_target_type :: string
  rt_handler_name :: string
  rt_upstream_target :: upstream_target
  rt_composite_target :: composite_target
  rt_static_root :: string
  rt_enabled :: bool
  rt_auth_required :: bool
  rt_allow_anonymous :: bool
  rt_rate_limit_policy :: string
  rt_allowed_api_keys :: "string list"
  rt_denied_api_keys :: "string list"

definition gateway_route_default :: gateway_route where
  "gateway_route_default = \<lparr>rt_name = [], rt_method = ''GET'', rt_path = ''/'', rt_host = ''*'',
     rt_tenant = ''*'', rt_target_type = ''upstream'', rt_handler_name = [],
     rt_upstream_target = upstream_target_default, rt_composite_target = composite_target_default,
     rt_static_root = [], rt_enabled = True, rt_auth_required = True, rt_allow_anonymous = False,
     rt_rate_limit_policy = ''api_key'', rt_allowed_api_keys = [], rt_denied_api_keys = []\<rparr>"

definition upstream_group_id :: "gateway_route \<Rightarrow> string" where
  "upstream_group_id route =
     (if ut_name (rt_upstream_target route) \<noteq> [] then ut_name (rt_upstream_target route)
      else rt_name route)"

definition resolve_upstream_group_id :: "gateway_route \<Rightarrow> string" where
  "resolve_upstream_group_id route = upstream_group_id route"

record upstream_config =
  uc_upstreams :: "(string \<times> upstream) list"
  uc_routes :: "gateway_route list"
  uc_health_check_timeout_ms :: int

definition upstream_config_default :: upstream_config where
  "upstream_config_default = \<lparr>uc_upstreams = [], uc_routes = [], uc_health_check_timeout_ms = 500\<rparr>"

record tls_config =
  tls_cert_path :: string
  tls_key_path :: string

definition tls_config_default :: tls_config where
  "tls_config_default = \<lparr>tls_cert_path = ''certs/server.crt'', tls_key_path = ''certs/server.key''\<rparr>"

record admin_config =
  adm_enabled :: bool
  adm_port :: nat
  adm_bind :: string
  adm_api_keys :: "string list"

definition admin_config_default :: admin_config where
  "admin_config_default = \<lparr>adm_enabled = False, adm_port = 8105, adm_bind = ''127.0.0.1'',
     adm_api_keys = []\<rparr>"

record logging_config =
  log_access_log_enabled :: bool
  log_redact_sensitive_headers :: bool
  log_redact_sensitive_query_params :: bool
  log_sensitive_headers :: "string list"
  log_sensitive_query_params :: "string list"

definition logging_config_default :: logging_config where
  "logging_config_default = \<lparr>log_access_log_enabled = True, log_redact_sensitive_headers = True,
     log_redact_sensitive_query_params = True,
     log_sensitive_headers = [''authorization'', ''proxy-authorization'', ''x-api-key'', ''cookie'',
       ''set-cookie'', ''x-forwarded-for'', ''x-real-ip''],
     log_sensitive_query_params = [''access_token'', ''api_key'', ''apikey'', ''key'', ''password'',
       ''secret'', ''token'']\<rparr>"

record thread_pool_config =
  tp_min_threads :: size_t
  tp_max_threads :: size_t
  tp_scale_up_threshold :: size_t
  tp_scale_down_threshold :: size_t

definition thread_pool_default :: thread_pool_config where
  "thread_pool_default = \<lparr>tp_min_threads = 2, tp_max_threads = 10, tp_scale_up_threshold = 2,
     tp_scale_down_threshold = 1\<rparr>"

record config =
  cfg_port :: nat
  cfg_backlog :: int
  cfg_max_connections :: size_t
  cfg_max_response_bytes :: size_t
  cfg_num_workers :: nat
  cfg_www_root :: string
  cfg_cache_max_entries :: size_t
  cfg_cache_max_file_size_mb :: size_t
  cfg_keepalive_timeout :: int
  cfg_shutdown_drain_timeout :: int
  cfg_thread_pool :: thread_pool_config
  cfg_upstream_config :: upstream_config
  cfg_tls :: tls_config
  cfg_logging :: logging_config
  cfg_admin :: admin_config
  cfg_rate_limit :: rate_limit_config
  cfg_api_keys :: "api_key_config list"
  cfg_api_keys_file :: string

definition config_default :: config where
  "config_default = \<lparr>cfg_port = 5005, cfg_backlog = 1024, cfg_max_connections = 10000,
     cfg_max_response_bytes = 64 * 1024 * 1024, cfg_num_workers = 0, cfg_www_root = ''./www'',
     cfg_cache_max_entries = 1024, cfg_cache_max_file_size_mb = 1, cfg_keepalive_timeout = 60,
     cfg_shutdown_drain_timeout = 30, cfg_thread_pool = thread_pool_default,
     cfg_upstream_config = upstream_config_default, cfg_tls = tls_config_default,
     cfg_logging = logging_config_default, cfg_admin = admin_config_default,
     cfg_rate_limit = rate_limit_default, cfg_api_keys = [], cfg_api_keys_file = []\<rparr>"

subsection \<open>Validation\<close>

abbreviation squote :: string where
  "squote \<equiv> [CHR 0x27]"

text \<open>\<^verbatim>\<open>if (cond) errors.push_back(msg)\<close>, and a loop over a vector with its index.\<close>

definition push_if :: "bool \<Rightarrow> string \<Rightarrow> string list" where
  "push_if cond msg = (if cond then [msg] else [])"

definition for_each :: "(nat \<Rightarrow> 'a \<Rightarrow> string list) \<Rightarrow> 'a list \<Rightarrow> string list" where
  "for_each f xs = concat (map (\<lambda>(i, x). f i x) (enumerate 0 xs))"

definition bad_path :: "string \<Rightarrow> bool" where
  "bad_path p \<longleftrightarrow> p = [] \<or> hd p \<noteq> CHR ''/''"

definition validate_scalars :: "config \<Rightarrow> string list" where
  "validate_scalars c =
     push_if (cfg_port c = 0) ''port: must be in [1, 65535]'' @
     push_if (cfg_backlog c \<le> 0) ''backlog: must be > 0'' @
     push_if (cfg_max_connections c = 0) ''max_connections: must be > 0'' @
     push_if (cfg_max_response_bytes c = 0) ''max_response_bytes: must be > 0'' @
     push_if (cfg_keepalive_timeout c \<le> 0) ''keepalive_timeout: must be > 0'' @
     push_if (cfg_shutdown_drain_timeout c \<le> 0) ''shutdown_drain_timeout: must be > 0'' @
     push_if (log_sensitive_headers (cfg_logging c) = [])
       ''logging.sensitive_headers: must not be empty'' @
     push_if (log_sensitive_query_params (cfg_logging c) = [])
       ''logging.sensitive_query_params: must not be empty'' @
     push_if (cfg_cache_max_entries c = 0) ''cache_max_entries: must be > 0'' @
     push_if (cfg_cache_max_file_size_mb c = 0) ''cache_max_file_size_mb: must be > 0'' @
     push_if (tp_min_threads (cfg_thread_pool c) = 0) ''thread_pool.min: must be > 0'' @
     push_if (tp_max_threads (cfg_thread_pool c) < tp_min_threads (cfg_thread_pool c))
       ''thread_pool.max: must be >= thread_pool.min'' @
     push_if (tp_scale_up_threshold (cfg_thread_pool c) = 0) ''thread_pool.scale_up: must be > 0'' @
     push_if (tp_scale_down_threshold (cfg_thread_pool c) = 0) ''thread_pool.scale_down: must be > 0'' @
     push_if (rl_capacity (cfg_rate_limit c) = 0) ''rate_limit.capacity: must be > 0'' @
     push_if (rl_refill_per_second (cfg_rate_limit c) = 0)
       ''rate_limit.refill_per_second: must be > 0'' @
     push_if (tls_cert_path (cfg_tls c) = []) ''tls.cert_path: must not be empty'' @
     push_if (tls_key_path (cfg_tls c) = []) ''tls.key_path: must not be empty''"

definition validate_admin :: "(string \<Rightarrow> bool) \<Rightarrow> admin_config \<Rightarrow> string list" where
  "validate_admin valid_ipv4 a =
     (if adm_enabled a then
        push_if (\<not> valid_ipv4 (adm_bind a))
          (''admin.bind: '' @ squote @ adm_bind a @ squote @ '' is not a valid IPv4 address'') @
        push_if (adm_api_keys a = [])
          ''admin.api_keys: at least one key is required when admin is enabled'' @
        for_each (\<lambda>i k. push_if (k = []) (''admin.api_keys['' @ dec i @ '']: must not be empty''))
          (adm_api_keys a)
      else [])"

definition validate_server :: "string \<Rightarrow> upstream_server \<Rightarrow> string list" where
  "validate_server loc s =
     push_if (us_host s = []) (loc @ ''.host: must not be empty'') @
     push_if (us_port s \<le> 0 \<or> us_port s > 65535) (loc @ ''.port: must be in [1, 65535]'') @
     push_if (\<not> us_tls s \<and> (us_tls_ca_file s \<noteq> [] \<or> us_tls_server_name s \<noteq> [] \<or> us_tls_skip_verify s))
       (loc @ '': tls_ca_file/tls_server_name/tls_skip_verify require tls (or an https:// host)'')"

definition validate_upstream :: "string \<times> upstream \<Rightarrow> string list" where
  "validate_upstream = (\<lambda>(name, up).
     push_if (up_servers up = []) (''upstreams.'' @ name @ '': at least one server is required'') @
     push_if (up_algorithm up = []) (''upstreams.'' @ name @ ''.algorithm: must not be empty'') @
     for_each (\<lambda>i s. validate_server (''upstreams.'' @ name @ ''.servers['' @ dec i @ '']'') s)
       (up_servers up))"

definition validate_dependency ::
  "(string \<times> upstream) list \<Rightarrow> string \<Rightarrow> composite_dependency \<Rightarrow> string list" where
  "validate_dependency ups loc dep =
     push_if (cd_name dep = []) (loc @ ''.name: must not be empty'') @
     push_if (cd_upstream_name dep = []) (loc @ ''.upstream_name: must not be empty'') @
     push_if (bad_path (cd_path dep)) (loc @ ''.path: must start with '' @ squote @ ''/'' @ squote) @
     push_if (cd_timeout_ms dep \<le> 0) (loc @ ''.timeout_ms: must be > 0'') @
     push_if (\<not> has_key (cd_upstream_name dep) ups)
       (loc @ ''.upstream_name: references unknown upstream '' @ squote @ cd_upstream_name dep @ squote)"

definition validate_composite ::
  "(string \<times> upstream) list \<Rightarrow> string \<Rightarrow> composite_target \<Rightarrow> string list" where
  "validate_composite ups loc ct =
     push_if (ct_name ct = []) (loc @ ''.composite_target.name: required for target_type=composite'') @
     push_if (ct_dependencies ct = [])
       (loc @ ''.composite_target.dependencies: at least one dependency is required'') @
     push_if (ct_total_timeout_ms ct < 0)
       (loc @ ''.composite_target.total_timeout_ms: must be >= 0 (0 disables the overall deadline)'') @
     for_each (\<lambda>i dep. validate_dependency ups (loc @ ''.composite_target.dependencies['' @ dec i @ '']'') dep)
       (ct_dependencies ct)"

definition validate_route_target ::
  "(string \<times> upstream) list \<Rightarrow> string \<Rightarrow> gateway_route \<Rightarrow> string list" where
  "validate_route_target ups loc r =
     (if rt_target_type r = ''upstream'' then
        (let n = ut_name (rt_upstream_target r)
         in if n = [] then [loc @ ''.upstream_target.name: required for target_type=upstream'']
            else push_if (\<not> has_key n ups)
              (loc @ ''.upstream_target.name: references unknown upstream '' @ squote @ n @ squote))
      else push_if (rt_target_type r = ''static'' \<and> rt_static_root r = [])
        (loc @ ''.static_root: required for target_type=static''))"

definition route_at :: "nat \<Rightarrow> gateway_route \<Rightarrow> string" where
  "route_at i r = ''routes['' @ dec i @ '']'' @ (if rt_name r = [] then [] else '' ('' @ rt_name r @ '')'')"

text \<open>The checks of one route that do not depend on the routes before it.\<close>

definition validate_route :: "(string \<times> upstream) list \<Rightarrow> string \<Rightarrow> gateway_route \<Rightarrow> string list" where
  "validate_route ups loc r =
     push_if (rt_method r = []) (loc @ ''.method: must not be empty'') @
     push_if (bad_path (rt_path r)) (loc @ ''.path: must start with '' @ squote @ ''/'' @ squote) @
     push_if (rt_target_type r \<notin> {''local'', ''upstream'', ''composite'', ''static''})
       (loc @ ''.target_type: unknown value '' @ squote @ rt_target_type r @ squote @
        '' (expected local|upstream|composite|static)'') @
     (if rt_target_type r = ''composite'' then validate_composite ups loc (rt_composite_target r) else []) @
     push_if (rt_rate_limit_policy r \<notin> {''api_key'', ''ip'', ''route''})
       (loc @ ''.rate_limit_policy: unknown value '' @ squote @ rt_rate_limit_policy r @ squote @
        '' (expected api_key|ip|route)'') @
     validate_route_target ups loc r @
     push_if (ut_timeout_ms (rt_upstream_target r) \<le> 0) (loc @ ''.upstream_target.timeout_ms: must be > 0'') @
     push_if (ut_max_retries (rt_upstream_target r) < 0) (loc @ ''.upstream_target.max_retries: must be >= 0'') @
     push_if (ut_circuit_failure_threshold (rt_upstream_target r) \<le> 0)
       (loc @ ''.upstream_target.circuit_failure_threshold: must be > 0'') @
     push_if (ut_circuit_recovery_timeout_ms (rt_upstream_target r) \<le> 0)
       (loc @ ''.upstream_target.circuit_recovery_timeout_ms: must be > 0'')"

definition match_key :: "gateway_route \<Rightarrow> string" where
  "match_key r = rt_method r @ ''|'' @ rt_host r @ ''|'' @ rt_tenant r @ ''|'' @ rt_path r"

text \<open>The loop over the routes, with the sets \<^verbatim>\<open>route_names\<close> and \<^verbatim>\<open>match_keys\<close>.\<close>

fun validate_routes ::
  "(string \<times> upstream) list \<Rightarrow> nat \<Rightarrow> string list \<Rightarrow> string list \<Rightarrow> gateway_route list \<Rightarrow> string list" where
  "validate_routes ups i names keys [] = []"
| "validate_routes ups i names keys (r # rs) =
     (let loc = route_at i r; k = match_key r
      in (if rt_name r = [] then [loc @ ''.name: must not be empty'']
          else push_if (rt_name r \<in> set names)
            (loc @ ''.name: duplicate route name '' @ squote @ rt_name r @ squote)) @
         validate_route ups loc r @
         push_if (k \<in> set keys) (loc @ '': duplicate route match (method/host/tenant/path): '' @ k) @
         validate_routes ups (i + 1) (if rt_name r = [] then names else List.insert (rt_name r) names)
           (List.insert k keys) rs)"

fun validate_api_keys :: "nat \<Rightarrow> string list \<Rightarrow> api_key_config list \<Rightarrow> string list" where
  "validate_api_keys i seen [] = []"
| "validate_api_keys i seen (ak # aks) =
     (let loc = ''api_keys['' @ dec i @ '']''
      in (if ak_key ak = [] then [loc @ ''.key: must not be empty'']
          else push_if (ak_key ak \<in> set seen) (loc @ ''.key: duplicate api key'')) @
         push_if (rl_capacity (ak_rate_limit ak) = 0) (loc @ ''.rate_limit.capacity: must be > 0'') @
         push_if (rl_refill_per_second (ak_rate_limit ak) = 0)
           (loc @ ''.rate_limit.refill_per_second: must be > 0'') @
         validate_api_keys (i + 1) (if ak_key ak = [] then seen else List.insert (ak_key ak) seen) aks)"

definition validate :: "(string \<Rightarrow> bool) \<Rightarrow> config \<Rightarrow> string list" where
  "validate valid_ipv4 c =
     validate_scalars c @ validate_admin valid_ipv4 (cfg_admin c) @
     concat (map validate_upstream (uc_upstreams (cfg_upstream_config c))) @
     validate_routes (uc_upstreams (cfg_upstream_config c)) 0 [] [] (uc_routes (cfg_upstream_config c)) @
     validate_api_keys 0 [] (cfg_api_keys c)"

subsection \<open>The accepted configurations\<close>

definition server_ok :: "upstream_server \<Rightarrow> bool" where
  "server_ok s \<longleftrightarrow> us_host s \<noteq> [] \<and> 1 \<le> us_port s \<and> us_port s \<le> 65535 \<and>
     (us_tls s \<or> us_tls_ca_file s = [] \<and> us_tls_server_name s = [] \<and> \<not> us_tls_skip_verify s)"

definition upstream_ok :: "upstream \<Rightarrow> bool" where
  "upstream_ok up \<longleftrightarrow> up_servers up \<noteq> [] \<and> up_algorithm up \<noteq> [] \<and> list_all server_ok (up_servers up)"

definition path_ok :: "string \<Rightarrow> bool" where
  "path_ok p \<longleftrightarrow> (\<exists>q. p = CHR ''/'' # q)"

definition dependency_ok :: "(string \<times> upstream) list \<Rightarrow> composite_dependency \<Rightarrow> bool" where
  "dependency_ok ups d \<longleftrightarrow> cd_name d \<noteq> [] \<and> cd_upstream_name d \<noteq> [] \<and> path_ok (cd_path d) \<and>
     0 < cd_timeout_ms d \<and> has_key (cd_upstream_name d) ups"

definition target_ok :: "(string \<times> upstream) list \<Rightarrow> gateway_route \<Rightarrow> bool" where
  "target_ok ups r \<longleftrightarrow>
     rt_target_type r = ''local'' \<or>
     rt_target_type r = ''upstream'' \<and> ut_name (rt_upstream_target r) \<noteq> [] \<and>
       has_key (ut_name (rt_upstream_target r)) ups \<or>
     rt_target_type r = ''static'' \<and> rt_static_root r \<noteq> [] \<or>
     rt_target_type r = ''composite'' \<and> ct_name (rt_composite_target r) \<noteq> [] \<and>
       ct_dependencies (rt_composite_target r) \<noteq> [] \<and> 0 \<le> ct_total_timeout_ms (rt_composite_target r) \<and>
       list_all (dependency_ok ups) (ct_dependencies (rt_composite_target r))"

definition route_ok :: "(string \<times> upstream) list \<Rightarrow> gateway_route \<Rightarrow> bool" where
  "route_ok ups r \<longleftrightarrow> rt_method r \<noteq> [] \<and> path_ok (rt_path r) \<and> target_ok ups r \<and>
     rt_rate_limit_policy r \<in> {''api_key'', ''ip'', ''route''} \<and>
     0 < ut_timeout_ms (rt_upstream_target r) \<and> 0 \<le> ut_max_retries (rt_upstream_target r) \<and>
     0 < ut_circuit_failure_threshold (rt_upstream_target r) \<and>
     0 < ut_circuit_recovery_timeout_ms (rt_upstream_target r)"

definition api_key_ok :: "api_key_config \<Rightarrow> bool" where
  "api_key_ok ak \<longleftrightarrow> ak_key ak \<noteq> [] \<and> 0 < rl_capacity (ak_rate_limit ak) \<and>
     0 < rl_refill_per_second (ak_rate_limit ak)"

definition admin_ok :: "(string \<Rightarrow> bool) \<Rightarrow> admin_config \<Rightarrow> bool" where
  "admin_ok valid_ipv4 a \<longleftrightarrow> (adm_enabled a \<longrightarrow>
     valid_ipv4 (adm_bind a) \<and> adm_api_keys a \<noteq> [] \<and> [] \<notin> set (adm_api_keys a))"

definition scalars_ok :: "config \<Rightarrow> bool" where
  "scalars_ok c \<longleftrightarrow> 0 < cfg_port c \<and> 0 < cfg_backlog c \<and> 0 < cfg_max_connections c \<and>
     0 < cfg_max_response_bytes c \<and> 0 < cfg_keepalive_timeout c \<and> 0 < cfg_shutdown_drain_timeout c \<and>
     log_sensitive_headers (cfg_logging c) \<noteq> [] \<and> log_sensitive_query_params (cfg_logging c) \<noteq> [] \<and>
     0 < cfg_cache_max_entries c \<and> 0 < cfg_cache_max_file_size_mb c \<and>
     0 < tp_min_threads (cfg_thread_pool c) \<and>
     tp_min_threads (cfg_thread_pool c) \<le> tp_max_threads (cfg_thread_pool c) \<and>
     0 < tp_scale_up_threshold (cfg_thread_pool c) \<and> 0 < tp_scale_down_threshold (cfg_thread_pool c) \<and>
     0 < rl_capacity (cfg_rate_limit c) \<and> 0 < rl_refill_per_second (cfg_rate_limit c) \<and>
     tls_cert_path (cfg_tls c) \<noteq> [] \<and> tls_key_path (cfg_tls c) \<noteq> []"

definition config_ok :: "(string \<Rightarrow> bool) \<Rightarrow> config \<Rightarrow> bool" where
  "config_ok valid_ipv4 c \<longleftrightarrow>
     (let ups = uc_upstreams (cfg_upstream_config c); rs = uc_routes (cfg_upstream_config c)
      in scalars_ok c \<and> admin_ok valid_ipv4 (cfg_admin c) \<and>
         list_all (\<lambda>(n, up). upstream_ok up) ups \<and>
         list_all (route_ok ups) rs \<and> [] \<notin> set (map rt_name rs) \<and> distinct (map rt_name rs) \<and>
         distinct (map match_key rs) \<and>
         list_all api_key_ok (cfg_api_keys c) \<and> distinct (map ak_key (cfg_api_keys c)))"

lemma push_if_Nil [simp]: "push_if b m = [] \<longleftrightarrow> \<not> b"
  by (simp add: push_if_def)

lemma for_each_Nil:
  assumes "\<And>i x. f i x = [] \<longleftrightarrow> P x"
  shows "for_each f xs = [] \<longleftrightarrow> list_all P xs"
proof -
  have "concat (map (\<lambda>(i, x). f i x) (enumerate n xs)) = [] \<longleftrightarrow> list_all P xs" for n
    by (induction xs arbitrary: n) (auto simp: assms simp del: concat_eq_Nil_conv)
  then show ?thesis
    by (simp add: for_each_def del: concat_eq_Nil_conv)
qed

lemma bad_path_iff: "bad_path p \<longleftrightarrow> \<not> path_ok p"
  by (cases p) (auto simp: bad_path_def path_ok_def)

lemma validate_scalars_Nil: "validate_scalars c = [] \<longleftrightarrow> scalars_ok c"
  by (auto simp: validate_scalars_def scalars_ok_def)

lemma validate_admin_Nil: "validate_admin v a = [] \<longleftrightarrow> admin_ok v a"
  by (auto simp: validate_admin_def admin_ok_def list_all_iff for_each_Nil [where P = "\<lambda>k. k \<noteq> []"])

lemma validate_server_Nil: "validate_server loc s = [] \<longleftrightarrow> server_ok s"
  by (auto simp: validate_server_def server_ok_def)

lemma validate_upstream_Nil: "validate_upstream (n, up) = [] \<longleftrightarrow> upstream_ok up"
  by (simp add: validate_upstream_def upstream_ok_def for_each_Nil [where P = server_ok]
      validate_server_Nil)

lemma validate_dependency_Nil: "validate_dependency ups loc d = [] \<longleftrightarrow> dependency_ok ups d"
  by (auto simp: validate_dependency_def dependency_ok_def bad_path_iff)

lemma validate_route_Nil: "validate_route ups loc r = [] \<longleftrightarrow> route_ok ups r"
  by (auto simp: validate_route_def route_ok_def target_ok_def validate_route_target_def
      validate_composite_def bad_path_iff Let_def
      for_each_Nil [where P = "dependency_ok ups"] validate_dependency_Nil)

lemma validate_routes_Nil:
  "validate_routes ups i names keys rs = [] \<longleftrightarrow>
     list_all (route_ok ups) rs \<and> [] \<notin> set (map rt_name rs) \<and>
     distinct (map rt_name rs) \<and> set (map rt_name rs) \<inter> set names = {} \<and>
     distinct (map match_key rs) \<and> set (map match_key rs) \<inter> set keys = {}"
  by (induction rs arbitrary: i names keys) (auto simp: Let_def validate_route_Nil)

lemma validate_api_keys_Nil:
  "validate_api_keys i seen aks = [] \<longleftrightarrow>
     list_all api_key_ok aks \<and> distinct (map ak_key aks) \<and> set (map ak_key aks) \<inter> set seen = {}"
  by (induction aks arbitrary: i seen) (auto simp: Let_def api_key_ok_def)

text \<open>C18: \<^verbatim>\<open>Config::validate\<close> reports no problem exactly for the well-formed configurations: all
  limits positive, a usable admin listener when it is enabled, every upstream group with at least
  one well-formed server, every route with a target that exists and positive time limits, and
  route names, match keys and API keys that are pairwise distinct.\<close>

theorem validate_iff_config_ok: "validate valid_ipv4 c = [] \<longleftrightarrow> config_ok valid_ipv4 c"
proof -
  have "(\<forall>x \<in> set ups. validate_upstream x = []) \<longleftrightarrow> list_all (\<lambda>(n, up). upstream_ok up) ups" for ups
    by (auto simp: list_all_iff validate_upstream_Nil)
  then show ?thesis
    by (simp add: validate_def config_ok_def Let_def validate_scalars_Nil validate_admin_Nil
        validate_routes_Nil validate_api_keys_Nil)
qed

end
