(* ===== verification/Route_Utils.thy ===== *)
theory Route_Utils
  imports Gateway_Config
begin

text \<open>
  Route matching and static-path resolution (\<^verbatim>\<open>include/server/route_utils.h\<close>). The in-place walk
  of \<^verbatim>\<open>matchRoute\<close> over two strings is a recursion on the two positions; it is shown equal to the
  matching of the two lists of path segments. The file system enters \<^verbatim>\<open>is_safe_static_path\<close> only
  through \<^verbatim>\<open>std::filesystem::weakly_canonical\<close>, the parameter \<^verbatim>\<open>canon\<close>.
\<close>

type_synonym params = "(string \<times> string) list"

subsection \<open>Operations\<close>

definition normalize_header_value :: "string \<Rightarrow> string" where
  "normalize_header_value value =
     (let normalized = lower value
      in case find_char (CHR '':'') normalized of
           Some port_pos \<Rightarrow> substr normalized 0 port_pos
         | None \<Rightarrow> normalized)"

function skip_slashes :: "string \<Rightarrow> nat \<Rightarrow> nat" where
  "skip_slashes s pos =
     (if pos < length s \<and> s ! pos = CHR ''/'' then skip_slashes s (pos + 1) else pos)"
  by pat_completeness auto
termination
  by (relation "measure (\<lambda>(s, pos). length s - pos)") auto

declare skip_slashes.simps [simp del]

text \<open>\<^term>\<open>None\<close> is the \<^verbatim>\<open>false\<close> return; otherwise the segment and the new position.\<close>

definition next_path_segment :: "string \<Rightarrow> nat \<Rightarrow> (string \<times> nat) option" where
  "next_path_segment s pos0 =
     (let pos = skip_slashes s pos0
      in if pos \<ge> length s then None
         else
           (let stop = (case str_find ''/'' s pos of None \<Rightarrow> length s | Some slash \<Rightarrow> slash)
            in Some (substr s pos (stop - pos), stop)))"

definition is_param_segment :: "string \<Rightarrow> bool" where
  "is_param_segment seg \<longleftrightarrow> length seg \<ge> 2 \<and> hd seg = CHR ''{'' \<and> last seg = CHR ''}''"

lemma skip_slashes_ge: "pos \<le> skip_slashes s pos"
proof (induction s pos rule: skip_slashes.induct)
  case (1 s pos)
  then show ?case
    by (cases "pos < length s \<and> s ! pos = CHR ''/''") (auto simp: skip_slashes.simps [of s pos])
qed

lemma skip_slashes_stop:
  "skip_slashes s pos < length s \<Longrightarrow> s ! skip_slashes s pos \<noteq> CHR ''/''"
proof (induction s pos rule: skip_slashes.induct)
  case (1 s pos)
  then show ?case
    by (cases "pos < length s \<and> s ! pos = CHR ''/''") (auto simp: skip_slashes.simps [of s pos])
qed

lemma next_path_segment_progress:
  assumes "next_path_segment s pos = Some (seg, pos')"
  shows "pos < pos' \<and> pos' \<le> length s"
proof -
  let ?p = "skip_slashes s pos"
  have lt: "?p < length s"
    using assms by (auto simp: next_path_segment_def Let_def split: if_splits)
  have "pos \<le> ?p" by (rule skip_slashes_ge)
  moreover have "?p < q" "q < length s" if q: "str_find ''/'' s ?p = Some q" for q
  proof -
    have "take 1 (drop q s) = ''/''" "q < length s" "?p \<le> q"
      using str_find_match [OF q] str_find_bound [OF q] str_find_ge [OF q] by auto
    then have "s ! q = CHR ''/''"
      using Cons_nth_drop_Suc [of q s] by (metis One_nat_def list.inject take_Suc_Cons)
    with skip_slashes_stop [OF lt] \<open>?p \<le> q\<close> show "?p < q"
      using le_neq_implies_less by blast
    show "q < length s" by fact
  qed
  ultimately show ?thesis
    using assms lt by (auto simp: next_path_segment_def Let_def split: option.splits)
qed

function match_segments ::
  "string \<Rightarrow> string \<Rightarrow> nat \<Rightarrow> nat \<Rightarrow> params \<Rightarrow> bool \<times> params" where
  "match_segments pattern path pattern_pos path_pos ps =
     (case next_path_segment pattern pattern_pos of
        None \<Rightarrow> (next_path_segment path path_pos = None, ps)
      | Some (pseg, pattern_pos') \<Rightarrow>
          (case next_path_segment path path_pos of
             None \<Rightarrow> (False, ps)
           | Some (sseg, path_pos') \<Rightarrow>
               (if is_param_segment pseg then
                  match_segments pattern path pattern_pos' path_pos'
                    (put (substr pseg 1 (length pseg - 2)) sseg ps)
                else if pseg \<noteq> sseg then (False, ps)
                else match_segments pattern path pattern_pos' path_pos' ps)))"
  by pat_completeness auto
termination
  by (relation "measure (\<lambda>(pattern, path, pattern_pos, path_pos, ps). length pattern - pattern_pos)")
     (auto dest: next_path_segment_progress intro!: diff_less_mono2 dest: less_le_trans)

declare match_segments.simps [simp del]

definition matchRoute :: "string \<Rightarrow> string \<Rightarrow> params \<Rightarrow> bool \<times> params" where
  "matchRoute pattern path ps =
     (if pattern \<noteq> [] \<and> last pattern = CHR ''*'' then
        (starts_with (substr pattern 0 (length pattern - 1)) path, ps)
      else match_segments pattern path 0 0 ps)"

definition routeMatchesPath ::
  "gateway_route \<Rightarrow> string \<Rightarrow> string \<Rightarrow> string \<Rightarrow> params \<Rightarrow> bool \<times> params" where
  "routeMatchesPath route host tenant path ps =
     (if \<not> rt_enabled route then (False, ps)
      else if rt_host route \<noteq> ''*'' \<and> normalize_header_value (rt_host route) \<noteq> ''*'' \<and>
              normalize_header_value host \<noteq> normalize_header_value (rt_host route) then (False, ps)
      else if rt_tenant route \<noteq> ''*'' \<and> rt_tenant route \<noteq> tenant then (False, ps)
      else matchRoute (rt_path route) path ps)"

definition routeMatchesRequest ::
  "gateway_route \<Rightarrow> string \<Rightarrow> string \<Rightarrow> string \<Rightarrow> string \<Rightarrow> params \<Rightarrow> bool \<times> params" where
  "routeMatchesRequest route meth host tenant path ps =
     (case routeMatchesPath route host tenant path ps of
        (False, ps') \<Rightarrow> (False, ps')
      | (True, ps') \<Rightarrow> (rt_method route = [] \<or> rt_method route = ''*'' \<or> rt_method route = meth, ps'))"

text \<open>\<^verbatim>\<open>path::lexically_normal\<close> of a relative path without dot-dot elements, and \<^verbatim>\<open>operator/\<close> with a
  relative right operand.\<close>

definition lexically_normal :: "string \<Rightarrow> string" where
  "lexically_normal s =
     (let elems = split_on (CHR ''/'') s;
          kept = filter (\<lambda>e. e \<noteq> [] \<and> e \<noteq> ''.'') elems
      in if s = [] then []
         else if kept = [] then ''.''
         else join_with (CHR ''/'') kept @ (if last elems \<in> {[], ''.''} then ''/'' else []))"

definition path_append :: "string \<Rightarrow> string \<Rightarrow> string" where
  "path_append base p =
     (if base = [] \<or> last base = CHR ''/'' then base @ p else base @ ''/'' @ p)"

definition static_suffix :: "string \<Rightarrow> string \<Rightarrow> string" where
  "static_suffix mount_path request_path =
     (let suffix = (if mount_path \<noteq> [] \<and> starts_with mount_path request_path
                    then drop (length mount_path) request_path else request_path);
          suffix = (if suffix = [] then ''/'' else suffix);
          suffix = (if suffix = ''/'' then ''/index.html'' else suffix)
      in dropWhile (\<lambda>c. c = CHR ''/'') suffix)"

text \<open>\<^term>\<open>Some\<close> is \<^verbatim>\<open>true\<close> with \<^verbatim>\<open>resolved_path\<close> set; \<^verbatim>\<open>canon\<close> returning \<^term>\<open>None\<close> is the error code.\<close>

definition is_safe_static_path ::
  "(string \<Rightarrow> string option) \<Rightarrow> string \<Rightarrow> string \<Rightarrow> string \<Rightarrow> string option" where
  "is_safe_static_path canon mount_path request_path root_dir =
     (case canon root_dir of
        None \<Rightarrow> None
      | Some base \<Rightarrow>
          (let suffix = static_suffix mount_path request_path
           in if str_find ''..'' suffix 0 \<noteq> None then None
              else
                (let candidate = path_append base (lexically_normal suffix)
                 in case canon base of
                      None \<Rightarrow> None
                    | Some root_str \<Rightarrow>
                        (case canon candidate of
                           None \<Rightarrow> None
                         | Some candidate_str \<Rightarrow>
                             (if \<not> starts_with root_str candidate_str then None
                              else Some candidate_str)))))"

subsection \<open>Matching is matching of segment lists\<close>

definition path_segments :: "string \<Rightarrow> string list" where
  "path_segments s = filter (\<lambda>x. x \<noteq> []) (split_on (CHR ''/'') s)"

definition segment_matches :: "string \<Rightarrow> string \<Rightarrow> bool" where
  "segment_matches p s \<longleftrightarrow> is_param_segment p \<or> p = s"

definition bind_params :: "string list \<Rightarrow> string list \<Rightarrow> params \<Rightarrow> params" where
  "bind_params pats segs ps =
     fold (\<lambda>(p, s) ps. if is_param_segment p then put (substr p 1 (length p - 2)) s ps else ps)
       (zip pats segs) ps"

lemma path_segments_slash: "path_segments (CHR ''/'' # s) = path_segments s"
  by (simp add: path_segments_def)

lemma path_segments_append:
  assumes "t \<noteq> []" "CHR ''/'' \<notin> set t" "rest = [] \<or> hd rest = CHR ''/''"
  shows "path_segments (t @ rest) = t # path_segments rest"
proof (cases rest)
  case Nil
  then show ?thesis
    using assms by (simp add: path_segments_def split_on_id)
next
  case (Cons c cs)
  then have "c = CHR ''/''" using assms(3) by simp
  then show ?thesis
    using assms(1,2) Cons by (simp add: path_segments_def split_on_append_sep)
qed

lemma path_segments_skip: "path_segments (drop (skip_slashes s pos) s) = path_segments (drop pos s)"
proof (induction s pos rule: skip_slashes.induct)
  case (1 s pos)
  show ?case
  proof (cases "pos < length s \<and> s ! pos = CHR ''/''")
    case True
    then have "drop pos s = CHR ''/'' # drop (pos + 1) s"
      using Cons_nth_drop_Suc [of pos s] by simp
    with True 1 show ?thesis
      by (simp add: skip_slashes.simps [of s pos] path_segments_slash)
  next
    case False
    then show ?thesis
      by (auto simp: skip_slashes.simps [of s pos])
  qed
qed

lemma next_path_segment_None:
  "next_path_segment s pos = None \<Longrightarrow> path_segments (drop pos s) = []"
  using path_segments_skip [of s pos]
  by (auto simp: next_path_segment_def Let_def path_segments_def split: if_splits)

lemma next_path_segment_Some:
  assumes "next_path_segment s pos = Some (seg, pos')"
  shows "path_segments (drop pos s) = seg # path_segments (drop pos' s)"
proof -
  let ?p = "skip_slashes s pos" and ?f = "(\<noteq>) (CHR ''/'')"
  let ?d = "drop (skip_slashes s pos) s"
  have lt: "?p < length s"
    using assms by (auto simp: next_path_segment_def Let_def split: if_splits)
  have f: "str_find ''/'' s ?p =
      (if CHR ''/'' \<in> set ?d then Some (?p + length (takeWhile ?f ?d)) else None)"
    using lt by (simp add: str_find_def index_of_char)
  have stop: "seg = takeWhile ?f ?d \<and> drop pos' s = dropWhile ?f ?d"
  proof (cases "CHR ''/'' \<in> set ?d")
    case True
    then have "seg = take (length (takeWhile ?f ?d)) ?d" "pos' = ?p + length (takeWhile ?f ?d)"
      using assms lt by (simp_all add: next_path_segment_def Let_def f substr_def)
    then show ?thesis
      using takeWhile_eq_take [of ?f ?d] dropWhile_eq_drop [of ?f ?d] by (simp add: add.commute)
  next
    case False
    then have all: "takeWhile ?f ?d = ?d" "dropWhile ?f ?d = []"
      by (auto simp: takeWhile_eq_all_conv dropWhile_eq_Nil_conv)
    show ?thesis
      unfolding all using assms lt False by (auto simp: next_path_segment_def Let_def f substr_def)
  qed
  have "takeWhile ?f ?d \<noteq> []"
    using skip_slashes_stop [OF lt] lt by (simp add: takeWhile_eq_Nil_iff hd_drop_conv_nth)
  moreover have "CHR ''/'' \<notin> set (takeWhile ?f ?d)"
    by (auto dest: set_takeWhileD)
  moreover have "dropWhile ?f ?d = [] \<or> hd (dropWhile ?f ?d) = CHR ''/''"
    using hd_dropWhile [of ?f ?d] by auto
  ultimately have "path_segments (takeWhile ?f ?d @ dropWhile ?f ?d) =
      takeWhile ?f ?d # path_segments (dropWhile ?f ?d)"
    by (rule path_segments_append)
  then show ?thesis
    by (simp add: stop path_segments_skip)
qed

lemma next_path_segment_None_iff:
  "path_segments (drop pos s) = [] \<longleftrightarrow> next_path_segment s pos = None"
  using next_path_segment_None next_path_segment_Some by (cases "next_path_segment s pos") auto

lemma match_segments_spec:
  "fst (match_segments pattern path i j ps) =
     list_all2 segment_matches (path_segments (drop i pattern)) (path_segments (drop j path)) \<and>
   (fst (match_segments pattern path i j ps) \<longrightarrow>
     snd (match_segments pattern path i j ps) =
     bind_params (path_segments (drop i pattern)) (path_segments (drop j path)) ps)"
proof (induction pattern path i j ps rule: match_segments.induct)
  case (1 pattern path i j ps)
  note ms = match_segments.simps [of pattern path i j ps]
  show ?case
  proof (cases "next_path_segment pattern i")
    case None
    then show ?thesis
      by (simp add: ms next_path_segment_None bind_params_def next_path_segment_None_iff)
  next
    case pat: (Some ps1)
    obtain pseg i' where ps1: "ps1 = (pseg, i')" by fastforce
    show ?thesis
    proof (cases "next_path_segment path j")
      case None
      then show ?thesis
        using pat by (simp add: ms ps1 next_path_segment_None next_path_segment_Some)
    next
      case (Some ss1)
      obtain sseg j' where ss1: "ss1 = (sseg, j')" by fastforce
      show ?thesis
        using 1 [OF pat ps1 [symmetric] Some ss1 [symmetric]] pat Some
        by (simp add: ms ps1 ss1 next_path_segment_Some segment_matches_def bind_params_def)
    qed
  qed
qed

subsection \<open>Static paths\<close>

definition no_dotdot :: "string \<Rightarrow> bool" where
  "no_dotdot s \<longleftrightarrow> ''..'' \<notin> set (split_on (CHR ''/'') s)"

lemma no_dotdot_if_not_found:
  assumes "str_find ''..'' s 0 = None"
  shows "no_dotdot s"
proof -
  have "s \<noteq> a @ ''..'' @ b" for a b
    using str_find_None_infix [OF assms] .
  then show ?thesis
    using split_on_infix [of "''..''" "CHR ''/''" s] unfolding no_dotdot_def by blast
qed

lemma lexically_normal_split:
  fixes s :: string
  defines "kept \<equiv> filter (\<lambda>e. e \<noteq> [] \<and> e \<noteq> ''.'') (split_on (CHR ''/'') s)"
  assumes "kept \<noteq> []"
  shows "set (split_on (CHR ''/'') (lexically_normal s)) \<subseteq> set kept \<union> {[]}"
    and "lexically_normal s \<noteq> [] \<and> hd (lexically_normal s) \<noteq> CHR ''/''"
proof -
  have sep: "\<forall>x \<in> set kept. CHR ''/'' \<notin> set x"
    by (auto simp: kept_def dest: split_on_no_sep)
  have form: "lexically_normal s = join_with (CHR ''/'') kept \<or>
      lexically_normal s = join_with (CHR ''/'') (kept @ [[]])"
    using assms(2) by (auto simp: lexically_normal_def Let_def kept_def [symmetric] join_with_snoc_Nil)
      (simp add: kept_def)
  show "set (split_on (CHR ''/'') (lexically_normal s)) \<subseteq> set kept \<union> {[]}"
    using form split_join [OF assms(2) sep] split_join [of "kept @ [[]]" "CHR ''/''"] sep by auto
  have "hd kept \<in> set kept" "hd kept \<noteq> []"
    using assms(2) list.set_sel(1) [OF assms(2)] unfolding kept_def by auto
  then have "hd (hd kept) \<noteq> CHR ''/''"
    using sep by (metis list.set_sel(1))
  with form hd_join_with [of kept "CHR ''/''"] hd_join_with [of "kept @ [[]]" "CHR ''/''"] assms(2)
    \<open>hd kept \<noteq> []\<close>
  show "lexically_normal s \<noteq> [] \<and> hd (lexically_normal s) \<noteq> CHR ''/''"
    by auto
qed

lemma lexically_normal_safe:
  assumes "no_dotdot s"
  shows "no_dotdot (lexically_normal s) \<and> \<not> starts_with ''/'' (lexically_normal s)"
proof (cases "filter (\<lambda>e. e \<noteq> [] \<and> e \<noteq> ''.'') (split_on (CHR ''/'') s) = []")
  case True
  then show ?thesis
    by (auto simp: lexically_normal_def Let_def no_dotdot_def)
next
  case False
  show ?thesis
    using lexically_normal_split [OF False] assms
    by (cases "lexically_normal s") (auto simp: no_dotdot_def)
qed

subsection \<open>Properties\<close>

definition is_wildcard :: "string \<Rightarrow> bool" where
  "is_wildcard pattern \<longleftrightarrow> pattern \<noteq> [] \<and> last pattern = CHR ''*''"

text \<open>C6: the in-place matcher decides exactly the documented route language. A pattern ending in
  an asterisk matches the paths with the prefix before it; any other pattern matches when the two
  lists of non-empty segments have the same length and agree at every segment that is not a
  \<^verbatim>\<open>{name}\<close> placeholder, and then the placeholders are bound to the segments of the path.\<close>

theorem matchRoute_correct:
  assumes "matchRoute pattern path ps = (b, ps')"
  shows "b = (if is_wildcard pattern then \<exists>rest. path = butlast pattern @ rest
              else list_all2 segment_matches (path_segments pattern) (path_segments path)) \<and>
         (b \<longrightarrow> ps' = (if is_wildcard pattern then ps
                      else bind_params (path_segments pattern) (path_segments path) ps))"
proof (cases "is_wildcard pattern")
  case True
  then have "substr pattern 0 (length pattern - 1) = butlast pattern"
    by (simp add: substr_def butlast_conv_take)
  with True show ?thesis
    using assms by (auto simp: matchRoute_def is_wildcard_def starts_with_iff)
next
  case False
  then show ?thesis
    using assms match_segments_spec [of pattern path 0 0 ps]
    by (auto simp: matchRoute_def is_wildcard_def)
qed

theorem matchRoute_correct_witness:
  "matchRoute ''/u/{id}/o'' ''//u/7/o/'' [] = (True, [(''id'', ''7'')])"
proof -
  have segs: "path_segments ''/u/{id}/o'' = [''u'', ''{id}'', ''o'']"
    "path_segments ''//u/7/o/'' = [''u'', ''7'', ''o'']"
    by (simp_all add: path_segments_def)
  obtain b ps' where m: "matchRoute ''/u/{id}/o'' ''//u/7/o/'' [] = (b, ps')" by fastforce
  show ?thesis
    using matchRoute_correct [OF m] unfolding m segs
    by (simp add: is_wildcard_def segment_matches_def is_param_segment_def bind_params_def substr_def)
qed


definition sample_canon :: "string \<Rightarrow> string option" where
  "sample_canon s = (if s = ''/www/link'' then Some ''/www-private/f'' else Some s)"

lemma sample_static:
  "is_safe_static_path sample_canon ''/s'' ''/s/a//./b.css'' ''/www'' = Some ''/www/a/b.css''"
  by (simp add: is_safe_static_path_def static_suffix_def starts_with_def Let_def str_find_def
      lexically_normal_def path_append_def sample_canon_def)



end
