(* ===== verification/Api_Key_Manager.thy ===== *)
theory Api_Key_Manager
  imports Route_Utils
begin

unbundle bit_operations_syntax

text \<open>
  API keys (\<^verbatim>\<open>include/server/api_key_manager.h\<close>). The key table is an association list; the
  branch-free comparison works on bytes (\<^typ>\<open>8 word\<close>) and on the exclusive or of the two sizes
  (\<^typ>\<open>64 word\<close>) cut to a byte, as in the code.
\<close>

subsection \<open>Operations\<close>

type_synonym api_keys = "(string \<times> api_key_config) list"

definition ApiKeyManager_reload :: "api_key_config list \<Rightarrow> api_keys" where
  "ApiKeyManager_reload ks = fold (\<lambda>k m. put (ak_key k) k m) ks []"

definition byte_at :: "string \<Rightarrow> nat \<Rightarrow> u8" where
  "byte_at s i = (if i < length s then of_nat (code (s ! i)) else 0)"

definition constant_time_equals :: "string \<Rightarrow> string \<Rightarrow> bool" where
  "constant_time_equals a b =
     (let diff = (ucast ((of_nat (length a) :: u64) XOR of_nat (length b)) :: u8);
          len = max (length a) (length b)
      in fold (\<lambda>i d. d OR (byte_at a i XOR byte_at b i)) [0..<len] diff = 0)"

definition find_constant_time :: "api_keys \<Rightarrow> string \<Rightarrow> api_key_config option" where
  "find_constant_time keys key =
     fold (\<lambda>entry found. if constant_time_equals (fst entry) key then Some (snd entry) else found)
       keys None"

definition ApiKeyManager_validate :: "api_keys \<Rightarrow> string \<Rightarrow> bool" where
  "ApiKeyManager_validate keys key \<longleftrightarrow> find_constant_time keys key \<noteq> None"

definition ApiKeyManager_get :: "api_keys \<Rightarrow> string \<Rightarrow> api_key_config option" where
  "ApiKeyManager_get keys key = find_constant_time keys key"

definition contains :: "string list \<Rightarrow> string \<Rightarrow> bool" where
  "contains values value \<longleftrightarrow> value \<in> set values"

definition matches_scope :: "string list \<Rightarrow> string \<Rightarrow> bool \<Rightarrow> bool" where
  "matches_scope allowed actual host_scope =
     (if allowed = [] then True
      else
        (let normalized_actual = (if host_scope then normalize_header_value actual else actual)
         in list_ex (\<lambda>value. value = ''*'' \<or>
              (host_scope \<and> normalize_header_value value = normalized_actual) \<or>
              (\<not> host_scope \<and> value = normalized_actual)) allowed))"

definition authorize :: "api_keys \<Rightarrow> string \<Rightarrow> gateway_route \<Rightarrow> string \<Rightarrow> string \<Rightarrow> bool" where
  "authorize keys key route host tenant =
     (case ApiKeyManager_get keys key of
        None \<Rightarrow> False
      | Some config \<Rightarrow>
          (if contains (rt_denied_api_keys route) key then False
           else if rt_allowed_api_keys route \<noteq> [] \<and> \<not> contains (rt_allowed_api_keys route) key then False
           else if \<not> matches_scope (ak_allowed_hosts config) host True \<or>
                   \<not> matches_scope (ak_allowed_tenants config) tenant False then False
           else True))"

subsection \<open>The comparison\<close>

lemma fold_or_zero:
  "fold (\<lambda>i (d :: u8). d OR f i) xs d0 = 0 \<longleftrightarrow> d0 = 0 \<and> (\<forall>i \<in> set xs. f i = 0)"
  by (induction xs arbitrary: d0) (auto simp: or_eq_0_iff)

lemma xor_zero_iff: "(a :: 'a :: len word) XOR b = 0 \<longleftrightarrow> a = b"
  by (metis xor.assoc xor.right_neutral xor_self_eq xor.left_neutral)

lemma constant_time_equals_iff:
  "constant_time_equals a b \<longleftrightarrow>
     (of_nat (length a) :: u8) = of_nat (length b) \<and>
     (\<forall>i < max (length a) (length b). byte_at a i = byte_at b i)"
proof -
  have "(ucast ((of_nat (length a) :: u64) XOR of_nat (length b)) :: u8) =
        of_nat (length a) XOR of_nat (length b)"
    by (rule bit_word_eqI) (auto simp: bit_simps)
  then show ?thesis
    by (auto simp: constant_time_equals_def fold_or_zero xor_zero_iff Let_def)
qed

lemma byte_at_inject:
  "\<lbrakk>i < length a; i < length b\<rbrakk> \<Longrightarrow> byte_at a i = byte_at b i \<longleftrightarrow> a ! i = b ! i"
  by (simp add: byte_at_def word_of_nat_eq_iff take_bit_nat_eq_self)

lemma byte_at_zero: "i < length a \<Longrightarrow> byte_at a i = 0 \<longleftrightarrow> a ! i = NUL"
proof -
  have "(of_nat (code c) :: u8) = 0 \<longleftrightarrow> code c = code NUL" for c
    by (simp add: word_of_nat_eq_0_iff dvd_imp_le nat_dvd_not_less)
      (metis code_less dvd_imp_le linorder_not_less neq0_conv dvd_0_right)
  then show "i < length a \<Longrightarrow> ?thesis"
    by (simp add: byte_at_def del: of_char_Char)
qed

lemma constant_time_equals_refl: "constant_time_equals a a"
  by (simp add: constant_time_equals_iff)

lemma constant_time_equals_nul_free:
  assumes "NUL \<notin> set a" "NUL \<notin> set b"
  shows "constant_time_equals a b \<longleftrightarrow> a = b"
proof
  assume eq: "constant_time_equals a b"
  have len: "length x \<le> length y"
    if "NUL \<notin> set x" "\<forall>i < max (length x) (length y). byte_at x i = byte_at y i" for x y
  proof (rule ccontr)
    assume "\<not> length x \<le> length y"
    then have "byte_at x (length y) = 0" "length y < length x"
      using that(2) by (auto simp: byte_at_def)
    then show False
      using that(1) byte_at_zero [of "length y" x] by (metis nth_mem)
  qed
  have bytes: "\<forall>i < max (length a) (length b). byte_at a i = byte_at b i"
    using eq by (simp add: constant_time_equals_iff)
  have "length a = length b"
    using len [of a b] len [of b a] assms bytes by (auto simp: max.commute)
  with bytes show "a = b"
    by (intro nth_equalityI) (simp_all add: byte_at_inject)
qed (simp add: constant_time_equals_refl)

subsection \<open>Lookup\<close>

definition nul_free :: "string \<Rightarrow> bool" where
  "nul_free s \<longleftrightarrow> NUL \<notin> set s"

lemma find_constant_time_map_of:
  assumes "distinct (map fst keys)" "\<forall>k \<in> fst ` set keys. nul_free k" "nul_free key"
  shows "find_constant_time keys key = map_of keys key"
proof -
  have "fold (\<lambda>entry found. if constant_time_equals (fst entry) key then Some (snd entry) else found)
          keys acc = (case map_of keys key of None \<Rightarrow> acc | Some v \<Rightarrow> Some v)" for acc
    using assms(1,2)
  proof (induction keys arbitrary: acc)
    case (Cons e keys)
    have "constant_time_equals (fst e) key \<longleftrightarrow> fst e = key"
      using Cons.prems assms(3) by (intro constant_time_equals_nul_free) (auto simp: nul_free_def)
    moreover have "map_of keys key = None" if "fst e = key"
      using Cons.prems(1) that by (auto simp: map_of_eq_None_iff)
    ultimately show ?case
      using Cons by (cases e) (simp split: option.split)
  qed simp
  then show ?thesis
    by (simp add: find_constant_time_def split: option.split)
qed

lemma reload_fold:
  assumes "distinct (map fst m)" "distinct (map ak_key ks)"
  shows "distinct (map fst (fold (\<lambda>k m. put (ak_key k) k m) ks m)) \<and>
    map_of (fold (\<lambda>k m. put (ak_key k) k m) ks m) key =
      (case find (\<lambda>k. ak_key k = key) ks of None \<Rightarrow> map_of m key | Some k \<Rightarrow> Some k)"
  using assms
proof (induction ks arbitrary: m)
  case (Cons k ks)
  have "find (\<lambda>k. ak_key k = key) ks = None" if "ak_key k = key"
    using Cons.prems that by (auto simp: find_None_iff image_iff)
  then show ?case
    using Cons by (auto split: option.split)
qed simp

lemma reload_distinct: "distinct (map fst (ApiKeyManager_reload ks))"
proof -
  have "distinct (map fst m) \<Longrightarrow> distinct (map fst (fold (\<lambda>k m. put (ak_key k) k m) ks m))" for m
    by (induction ks arbitrary: m) auto
  then show ?thesis by (simp add: ApiKeyManager_reload_def)
qed

lemma reload_keys: "fst ` set (ApiKeyManager_reload ks) = ak_key ` set ks"
proof -
  have "fst ` set (fold (\<lambda>k m. put (ak_key k) k m) ks m) = fst ` set m \<union> ak_key ` set ks" for m
    by (induction ks arbitrary: m) (auto simp: dom_update)
  then show ?thesis by (simp add: ApiKeyManager_reload_def)
qed

lemma reload_lookup:
  assumes "distinct (map ak_key ks)" "\<forall>k \<in> set ks. nul_free (ak_key k)" "nul_free key"
  shows "ApiKeyManager_get (ApiKeyManager_reload ks) key = find (\<lambda>k. ak_key k = key) ks"
proof -
  have "ApiKeyManager_get (ApiKeyManager_reload ks) key = map_of (ApiKeyManager_reload ks) key"
    unfolding ApiKeyManager_get_def using assms reload_distinct reload_keys
    by (intro find_constant_time_map_of) auto
  then show ?thesis
    using reload_fold [of "[]" ks key] assms(1)
    by (simp add: ApiKeyManager_reload_def split: option.splits)
qed

definition scope_allows :: "(string \<Rightarrow> string) \<Rightarrow> string list \<Rightarrow> string \<Rightarrow> bool" where
  "scope_allows nf allowed actual \<longleftrightarrow>
     allowed = [] \<or> ''*'' \<in> set allowed \<or> nf actual \<in> nf ` set allowed"

lemma matches_scope_host: "matches_scope allowed actual True = scope_allows normalize_header_value allowed actual"
  by (auto simp: matches_scope_def scope_allows_def list_ex_iff Let_def) (metis image_eqI)

lemma matches_scope_tenant: "matches_scope allowed actual False = scope_allows id allowed actual"
  by (auto simp: matches_scope_def scope_allows_def list_ex_iff Let_def)

subsection \<open>Properties\<close>

text \<open>C7: a request is authorised exactly when its key is one of the configured keys, is not denied
  by the route, is in the route's allow list when there is one, and when the key's host and tenant
  scopes admit the request; keys are compared in full although the comparison is branch-free.\<close>

theorem authorize_correct:
  assumes "distinct (map ak_key ks)" "\<forall>k \<in> set ks. nul_free (ak_key k)" "nul_free key"
  shows "authorize (ApiKeyManager_reload ks) key route host tenant \<longleftrightarrow>
     (\<exists>k \<in> set ks. ak_key k = key \<and> key \<notin> set (rt_denied_api_keys route) \<and>
        (rt_allowed_api_keys route = [] \<or> key \<in> set (rt_allowed_api_keys route)) \<and>
        scope_allows normalize_header_value (ak_allowed_hosts k) host \<and>
        scope_allows id (ak_allowed_tenants k) tenant)"
proof (cases "find (\<lambda>k. ak_key k = key) ks")
  case None
  then have "ak_key k \<noteq> key" if "k \<in> set ks" for k
    using that by (auto simp: find_None_iff)
  moreover have "ApiKeyManager_get (ApiKeyManager_reload ks) key = None"
    using reload_lookup [OF assms] None by simp
  ultimately show ?thesis
    by (auto simp: authorize_def)
next
  case (Some k)
  then have k: "k \<in> set ks" "ak_key k = key"
    by (auto simp: find_Some_iff)
  then have unique: "k' = k" if "k' \<in> set ks" "ak_key k' = key" for k'
    using assms(1) that by (auto simp: distinct_map dest: inj_onD)
  have "ApiKeyManager_get (ApiKeyManager_reload ks) key = Some k"
    using reload_lookup [OF assms] Some by simp
  then have "authorize (ApiKeyManager_reload ks) key route host tenant \<longleftrightarrow>
      key \<notin> set (rt_denied_api_keys route) \<and>
      (rt_allowed_api_keys route = [] \<or> key \<in> set (rt_allowed_api_keys route)) \<and>
      scope_allows normalize_header_value (ak_allowed_hosts k) host \<and>
      scope_allows id (ak_allowed_tenants k) tenant"
    by (simp add: authorize_def contains_def matches_scope_host matches_scope_tenant)
  with k unique show ?thesis by blast
qed

theorem authorize_correct_witness:
  "authorize (ApiKeyManager_reload [api_key_default\<lparr>ak_key := ''k1'', ak_allowed_hosts := [''A.example'']\<rparr>])
     ''k1'' gateway_route_default ''a.EXAMPLE:443'' ''t''"
proof -
  let ?k = "api_key_default\<lparr>ak_key := ''k1'', ak_allowed_hosts := [''A.example'']\<rparr>"
  have "normalize_header_value ''a.EXAMPLE:443'' = normalize_header_value ''A.example''"
    by (simp add: normalize_header_value_def lower_def to_lower_char_def is_upper_def find_char_eq
        substr_def char_of_iff)
  then show ?thesis
    using authorize_correct [of "[?k]" "''k1''" gateway_route_default "''a.EXAMPLE:443''" "''t''"]
    by (simp add: nul_free_def scope_allows_def api_key_default_def gateway_route_default_def)
qed

text \<open>C22: the comparison folds the difference of the two lengths into one byte, so it does not see
  a difference that is a multiple of 256: any string equals itself followed by 256 NUL bytes.\<close>

theorem constant_time_equals_nul_padding: "constant_time_equals a (a @ replicate 256 NUL)"
proof -
  have "(of_nat (length (a @ replicate 256 NUL)) :: u8) = of_nat (length a)"
    by (simp add: word_of_nat_eq_iff take_bit_eq_mod)
  moreover have "byte_at a i = byte_at (a @ replicate 256 NUL) i" for i
    by (simp add: byte_at_def nth_append)
  ultimately show ?thesis
    by (simp add: constant_time_equals_iff)
qed

end
