(* ===== verification/Connection_Budget.thy ===== *)
theory Connection_Budget
  imports Gateway_Interfaces
begin

text \<open>
  The process-wide connection budget (\<^verbatim>\<open>include/server/connection_budget.h\<close>), shared by all
  workers. The state holds the two atomics, the program counter of each worker inside the
  compare-exchange loop of \<^verbatim>\<open>try_acquire\<close>, and the live \<^verbatim>\<open>Ticket\<close> objects (the entry is
  \<^verbatim>\<open>owner_ != nullptr\<close>). Every atomic access is one step, so that the interleavings of the workers
  and of a reload of the limit are exactly the runs of the step relation.
\<close>

subsection \<open>State and steps\<close>

datatype acquire_pc =
    Idle
  | Loaded size_t
  | Checked size_t

record budget =
  bg_in_use :: size_t
  bg_max :: size_t
  bg_pc :: "nat \<Rightarrow> acquire_pc"
  bg_tickets :: "bool list"

definition budget_create :: "size_t \<Rightarrow> budget" where
  "budget_create m = \<lparr>bg_in_use = 0, bg_max = m, bg_pc = (\<lambda>_. Idle), bg_tickets = []\<rparr>"

text \<open>\<^verbatim>\<open>fetch_sub(1)\<close> on a 64-bit counter: it would wrap at zero.\<close>

definition release :: "budget \<Rightarrow> budget" where
  "release s = s\<lparr>bg_in_use := (bg_in_use s + (2 ^ 64 - 1)) mod 2 ^ 64\<rparr>"

definition ticket_reset :: "nat \<Rightarrow> budget \<Rightarrow> budget" where
  "ticket_reset t s =
     (if bg_tickets s ! t then (release s)\<lparr>bg_tickets := (bg_tickets s)[t := False]\<rparr> else s)"

definition ticket_move_construct :: "nat \<Rightarrow> budget \<Rightarrow> budget" where
  "ticket_move_construct other s =
     s\<lparr>bg_tickets := (bg_tickets s)[other := False] @ [bg_tickets s ! other]\<rparr>"

definition ticket_move_assign :: "nat \<Rightarrow> nat \<Rightarrow> budget \<Rightarrow> budget" where
  "ticket_move_assign this other s =
     (if this \<noteq> other then
        (let s1 = ticket_reset this s
         in s1\<lparr>bg_tickets := (bg_tickets s1)[this := bg_tickets s1 ! other, other := False]\<rparr>)
      else s)"

definition set_limit :: "size_t \<Rightarrow> budget \<Rightarrow> budget" where
  "set_limit m s = s\<lparr>bg_max := m\<rparr>"

abbreviation goto :: "nat \<Rightarrow> acquire_pc \<Rightarrow> budget \<Rightarrow> budget" where
  "goto w pc s \<equiv> s\<lparr>bg_pc := (bg_pc s)(w := pc)\<rparr>"

datatype budget_label =
    Load nat
  | Refuse nat
  | Pass nat
  | Cas_ok nat
  | Cas_fail nat
  | Move_construct nat
  | Move_assign nat nat
  | Destroy nat
  | Set_limit size_t

text \<open>\<^verbatim>\<open>compare_exchange_weak\<close> may fail spuriously; on failure it refreshes \<^verbatim>\<open>current\<close>.\<close>

inductive budget_step :: "budget_label \<Rightarrow> budget \<Rightarrow> budget \<Rightarrow> bool" where
  load: "bg_pc s w = Idle \<Longrightarrow> budget_step (Load w) s (goto w (Loaded (bg_in_use s)) s)"
| refuse: "\<lbrakk>bg_pc s w = Loaded current; current \<ge> bg_max s\<rbrakk> \<Longrightarrow>
     budget_step (Refuse w) s (goto w Idle s)"
| pass: "\<lbrakk>bg_pc s w = Loaded current; current < bg_max s\<rbrakk> \<Longrightarrow>
     budget_step (Pass w) s (goto w (Checked current) s)"
| cas_ok: "\<lbrakk>bg_pc s w = Checked current; bg_in_use s = current\<rbrakk> \<Longrightarrow>
     budget_step (Cas_ok w) s
       ((goto w Idle s)\<lparr>bg_in_use := current + 1, bg_tickets := bg_tickets s @ [True]\<rparr>)"
| cas_fail: "bg_pc s w = Checked current \<Longrightarrow>
     budget_step (Cas_fail w) s (goto w (Loaded (bg_in_use s)) s)"
| move_construct: "t < length (bg_tickets s) \<Longrightarrow>
     budget_step (Move_construct t) s (ticket_move_construct t s)"
| move_assign: "\<lbrakk>t < length (bg_tickets s); u < length (bg_tickets s)\<rbrakk> \<Longrightarrow>
     budget_step (Move_assign t u) s (ticket_move_assign t u s)"
| destroy: "t < length (bg_tickets s) \<Longrightarrow> budget_step (Destroy t) s (ticket_reset t s)"
| limit: "m < 2 ^ 64 \<Longrightarrow> budget_step (Set_limit m) s (set_limit m s)"

inductive_cases budget_step_elims:
  "budget_step (Load w) s s'" "budget_step (Refuse w) s s'" "budget_step (Pass w) s s'"
  "budget_step (Cas_ok w) s s'" "budget_step (Cas_fail w) s s'" "budget_step (Move_construct t) s s'"
  "budget_step (Move_assign t u) s s'" "budget_step (Destroy t) s s'" "budget_step (Set_limit m) s s'"

subsection \<open>The invariant\<close>

definition live_tickets :: "budget \<Rightarrow> nat" where
  "live_tickets s = count_list (bg_tickets s) True"

definition budget_inv :: "size_t \<Rightarrow> budget \<Rightarrow> bool" where
  "budget_inv B s \<longleftrightarrow> B < 2 ^ 64 \<and> bg_in_use s = live_tickets s \<and> bg_in_use s \<le> B \<and> bg_max s \<le> B \<and>
     (\<forall>w current. bg_pc s w = Checked current \<longrightarrow> current < B)"

fun limit_within :: "size_t \<Rightarrow> budget_label \<Rightarrow> bool" where
  "limit_within B (Set_limit m) = (m \<le> B)"
| "limit_within B _ = True"

lemma count_list_update:
  "t < length ts \<Longrightarrow> count_list (ts[t := b]) True + (if ts ! t then 1 else 0) =
     count_list ts True + (if b then 1 else 0)"
proof (induction ts arbitrary: t)
  case (Cons a ts)
  show ?case
  proof (cases t)
    case (Suc k)
    then show ?thesis
      using Cons.IH [of k] Cons.prems by auto
  qed simp
qed simp

lemma live_ticket_positive:
  "\<lbrakk>t < length (bg_tickets s); bg_tickets s ! t\<rbrakk> \<Longrightarrow> 0 < live_tickets s"
  by (metis count_list_0_iff live_tickets_def neq0_conv nth_mem)

lemma ticket_reset_inv [inv_intros]:
  assumes "budget_inv B s" "t < length (bg_tickets s)"
  shows "budget_inv B (ticket_reset t s)"
proof (cases "bg_tickets s ! t")
  case True
  then have "0 < bg_in_use s" "bg_in_use s < 2 ^ 64"
    using assms live_ticket_positive [of t s] by (auto simp: budget_inv_def)
  then have "bg_in_use (release s) = bg_in_use s - 1"
    by (simp add: release_def mod_if)
  then show ?thesis
    using True assms count_list_update [of t "bg_tickets s" False]
    by (auto simp: ticket_reset_def budget_inv_def live_tickets_def release_def)
qed (use assms in \<open>simp add: ticket_reset_def\<close>)

lemma ticket_move_construct_inv [inv_intros]:
  assumes "budget_inv B s" "t < length (bg_tickets s)"
  shows "budget_inv B (ticket_move_construct t s)"
  using assms count_list_update [of t "bg_tickets s" False]
  by (auto simp: ticket_move_construct_def budget_inv_def live_tickets_def)

lemma ticket_reset_slots:
  "t < length (bg_tickets s) \<Longrightarrow>
     \<not> bg_tickets (ticket_reset t s) ! t \<and> length (bg_tickets (ticket_reset t s)) = length (bg_tickets s)"
  by (simp add: ticket_reset_def)

lemma ticket_move_assign_inv [inv_intros]:
  assumes "budget_inv B s" "t < length (bg_tickets s)" "u < length (bg_tickets s)"
  shows "budget_inv B (ticket_move_assign t u s)"
proof (cases "t = u")
  case False
  let ?s = "ticket_reset t s"
  let ?ts = "(bg_tickets ?s)[t := bg_tickets ?s ! u]"
  have "count_list (?ts[u := False]) True = count_list (bg_tickets ?s) True"
    using False assms ticket_reset_slots [OF assms(2)]
      count_list_update [of t "bg_tickets ?s" "bg_tickets ?s ! u"] count_list_update [of u ?ts False]
    by (auto split: if_splits)
  then show ?thesis
    using False ticket_reset_inv [OF assms(1,2)]
    by (simp add: ticket_move_assign_def Let_def budget_inv_def live_tickets_def)
qed (use assms in \<open>simp add: ticket_move_assign_def\<close>)

lemma goto_inv [inv_intros]:
  "\<lbrakk>budget_inv B s; \<And>c. pc = Checked c \<Longrightarrow> c < B\<rbrakk> \<Longrightarrow> budget_inv B (goto w pc s)"
  by (auto simp: budget_inv_def live_tickets_def)

lemma set_limit_inv [inv_intros]:
  "\<lbrakk>budget_inv B s; m \<le> B\<rbrakk> \<Longrightarrow> budget_inv B (set_limit m s)"
  by (auto simp: budget_inv_def live_tickets_def set_limit_def)

lemma acquired_inv [inv_intros]:
  assumes "budget_inv B s" "bg_pc s w = Checked (bg_in_use s)"
  shows "budget_inv B ((goto w Idle s)\<lparr>bg_in_use := Suc (bg_in_use s), bg_tickets := bg_tickets s @ [True]\<rparr>)"
  using assms by (auto simp: budget_inv_def live_tickets_def Suc_le_eq)

lemma budget_step_inv:
  assumes "budget_inv B s" "budget_step l s s'" "limit_within B l"
  shows "budget_inv B s'"
  using assms(2,1,3)
proof (cases rule: budget_step.cases)
  case (pass w current)
  then show ?thesis
    using assms(1) goto_inv [OF assms(1), of "Checked current" w] by (auto simp: budget_inv_def)
qed (use assms(1,3) in \<open>auto intro!: inv_intros\<close>)

interpretation cb: guarded_system "\<lambda>s. \<exists>m. m \<le> B \<and> B < 2 ^ 64 \<and> s = budget_create m"
  "\<lambda>l s s'. budget_step l s s' \<and> limit_within B l" "budget_inv B" for B
proof unfold_locales
  show "budget_inv B s" if "\<exists>m. m \<le> B \<and> B < 2 ^ 64 \<and> s = budget_create m" for s
    using that by (auto simp: budget_create_def budget_inv_def live_tickets_def)
qed (blast intro: budget_step_inv)

subsection \<open>A worker's call\<close>

text \<open>Without interference the call returns after one round.\<close>

lemma acquire_alone:
  assumes "bg_pc s w = Idle" "bg_in_use s < bg_max s"
  shows "\<exists>s1 s2 s3. budget_step (Load w) s s1 \<and> budget_step (Pass w) s1 s2 \<and>
           budget_step (Cas_ok w) s2 s3 \<and> bg_in_use s3 = bg_in_use s + 1 \<and>
           bg_tickets s3 = bg_tickets s @ [True] \<and> bg_pc s3 w = Idle"
proof -
  let ?s1 = "goto w (Loaded (bg_in_use s)) s" and ?s2 = "goto w (Checked (bg_in_use s)) s"
  have "budget_step (Load w) s ?s1" "budget_step (Pass w) ?s1 ?s2"
    "budget_step (Cas_ok w) ?s2
       (s\<lparr>bg_pc := (bg_pc s)(w := Idle), bg_in_use := bg_in_use s + 1, bg_tickets := bg_tickets s @ [True]\<rparr>)"
    using assms load [of s w] pass [of ?s1 w "bg_in_use s"] cas_ok [of ?s2 w "bg_in_use s"] by simp_all
  then show ?thesis by force
qed

subsection \<open>Properties\<close>

text \<open>C8: under every interleaving of the workers, of ticket moves and destructions and of reloads
  of the limit, the counter equals the number of live tickets (each slot is released exactly once,
  and the counter never wraps), and it never exceeds the largest limit that was in force.\<close>

theorem budget_never_exceeded:
  assumes "cb.run B s ls s'" "s = budget_create m" "m \<le> B" "B < 2 ^ 64"
  shows "bg_in_use s' = live_tickets s' \<and> bg_in_use s' \<le> B"
  using cb.reachable_inv [of B s ls s'] assms by (auto simp: budget_inv_def)

definition budget_sample :: budget where
  "budget_sample = (budget_create 1)\<lparr>bg_pc := (\<lambda>_. Idle)(0 := Loaded 0)\<rparr>"

theorem budget_never_exceeded_witness:
  "bg_in_use budget_sample = live_tickets budget_sample \<and> bg_in_use budget_sample \<le> 1"
proof (rule budget_never_exceeded)
  have "budget_step (Load 0) (budget_create 1) budget_sample"
    using load [of "budget_create 1" 0] by (simp add: budget_create_def budget_sample_def)
  then show "cb.run 1 (budget_create 1) ([] @ [Load 0]) budget_sample"
    by (intro cb.run_snoc [OF cb.run_nil]) simp
qed auto

end
