(* ===== verification/Rate_Limiter.thy ===== *)
theory Rate_Limiter
  imports Gateway_Config Gateway_Interfaces
begin

text \<open>
  The token bucket and its manager (\<^verbatim>\<open>rate_limiter.h\<close>, \<^verbatim>\<open>rate_limiter.cpp\<close>,
  \<^verbatim>\<open>rate_limiter_manager.h\<close>). Time points are integers (nanoseconds of the steady clock), passed
  to the operations that read the clock. The \<^verbatim>\<open>double\<close> arithmetic of the refill is done in
  \<^typ>\<open>rat\<close>: rounding of doubles is the one thing left out.
\<close>

subsection \<open>Operations\<close>

type_synonym time_ns = int

record rate_limiter =
  lim_capacity :: size_t
  lim_refill_per_second :: size_t
  lim_tokens :: size_t
  lim_last_refill :: time_ns
  lim_tokens_fraction :: rat

definition limiter_create :: "size_t \<Rightarrow> size_t \<Rightarrow> time_ns \<Rightarrow> rate_limiter" where
  "limiter_create capacity refill now =
     \<lparr>lim_capacity = capacity, lim_refill_per_second = refill, lim_tokens = capacity,
      lim_last_refill = now, lim_tokens_fraction = 0\<rparr>"

definition seconds :: "time_ns \<Rightarrow> rat" where
  "seconds d = of_int d / 1000000000"

definition limiter_try_acquire :: "time_ns \<Rightarrow> rate_limiter \<Rightarrow> bool \<times> rate_limiter" where
  "limiter_try_acquire now l =
     (let elapsed = seconds (now - lim_last_refill l);
          new_tokens = elapsed * of_nat (lim_refill_per_second l) + lim_tokens_fraction l;
          whole = nat \<lfloor>new_tokens\<rfloor>;
          tokens = (if whole > 0 then min (lim_capacity l) (lim_tokens l + whole) else lim_tokens l);
          l' = l\<lparr>lim_last_refill := now, lim_tokens_fraction := new_tokens - of_nat whole\<rparr>
      in if tokens > 0 then (True, l'\<lparr>lim_tokens := tokens - 1\<rparr>)
         else (False, l'\<lparr>lim_tokens := tokens\<rparr>))"

record rate_limiter_manager =
  rlm_limiters :: "(string \<times> rate_limiter) list"
  rlm_last_used :: "(string \<times> time_ns) list"
  rlm_default_config :: rate_limit_config

definition manager_create :: "rate_limit_config \<Rightarrow> rate_limiter_manager" where
  "manager_create c = \<lparr>rlm_limiters = [], rlm_last_used = [], rlm_default_config = c\<rparr>"

definition update_default_config :: "rate_limit_config \<Rightarrow> rate_limiter_manager \<Rightarrow> rate_limiter_manager" where
  "update_default_config c m = m\<lparr>rlm_default_config := c\<rparr>"

text \<open>The clock is read three times: by the constructor of a new limiter, for \<^verbatim>\<open>last_used_\<close> and by
  the limiter.\<close>

definition try_acquire_locked ::
  "string \<Rightarrow> rate_limit_config \<Rightarrow> time_ns \<times> time_ns \<times> time_ns \<Rightarrow> rate_limiter_manager \<Rightarrow>
   bool \<times> rate_limiter_manager" where
  "try_acquire_locked key config = (\<lambda>(now1, now2, now3) m.
     (let l = (case map_of (rlm_limiters m) key of
                 Some l \<Rightarrow> l
               | None \<Rightarrow> limiter_create (rl_capacity config) (rl_refill_per_second config) now1)
      in case limiter_try_acquire now3 l of
           (ok, l') \<Rightarrow> (ok, m\<lparr>rlm_limiters := put key l' (rlm_limiters m),
                          rlm_last_used := put key now2 (rlm_last_used m)\<rparr>)))"

definition try_acquire_default ::
  "string \<Rightarrow> time_ns \<times> time_ns \<times> time_ns \<Rightarrow> rate_limiter_manager \<Rightarrow> bool \<times> rate_limiter_manager" where
  "try_acquire_default key clock m = try_acquire_locked key (rlm_default_config m) clock m"

definition try_acquire ::
  "string \<Rightarrow> rate_limit_config \<Rightarrow> time_ns \<times> time_ns \<times> time_ns \<Rightarrow> rate_limiter_manager \<Rightarrow>
   bool \<times> rate_limiter_manager" where
  "try_acquire key config clock m = try_acquire_locked key config clock m"

text \<open>The loop of \<^verbatim>\<open>cleanup\<close>: an entry is erased from both maps when its last use is known and
  older than the idle time.\<close>

definition limiter_idle :: "time_ns \<Rightarrow> time_ns \<Rightarrow> (string \<times> time_ns) list \<Rightarrow> string \<Rightarrow> bool" where
  "limiter_idle now idle last_used key =
     (case map_of last_used key of None \<Rightarrow> False | Some used \<Rightarrow> now - used > idle)"

definition cleanup :: "time_ns \<Rightarrow> time_ns \<Rightarrow> rate_limiter_manager \<Rightarrow> rate_limiter_manager" where
  "cleanup now idle m =
     (let gone = filter (limiter_idle now idle (rlm_last_used m)) (map fst (rlm_limiters m))
      in m\<lparr>rlm_limiters := filter (\<lambda>(k, l). k \<notin> set gone) (rlm_limiters m),
           rlm_last_used := filter (\<lambda>(k, t). k \<notin> set gone) (rlm_last_used m)\<rparr>)"

subsection \<open>The bucket\<close>

definition limiter_inv :: "rate_limiter \<Rightarrow> bool" where
  "limiter_inv l \<longleftrightarrow> lim_tokens l \<le> lim_capacity l \<and>
     0 \<le> lim_tokens_fraction l \<and> lim_tokens_fraction l < 1"

text \<open>What a limiter holds, whole tokens and fraction together.\<close>

definition level :: "rate_limiter \<Rightarrow> rat" where
  "level l = of_nat (lim_tokens l) + lim_tokens_fraction l"

definition refill :: "rate_limiter \<Rightarrow> time_ns \<Rightarrow> rat" where
  "refill l now = seconds (now - lim_last_refill l) * of_nat (lim_refill_per_second l)"

lemma seconds_0 [simp]: "seconds 0 = 0"
  by (simp add: seconds_def)

lemma refill_nonneg: "lim_last_refill l \<le> now \<Longrightarrow> 0 \<le> refill l now"
  by (simp add: refill_def seconds_def)

lemma limiter_create_inv [inv_intros]: "limiter_inv (limiter_create c r now)"
  by (simp add: limiter_inv_def limiter_create_def)

definition refilled :: "rate_limiter \<Rightarrow> time_ns \<Rightarrow> size_t" where
  "refilled l now =
     (let whole = nat \<lfloor>refill l now + lim_tokens_fraction l\<rfloor>
      in if 0 < whole then min (lim_capacity l) (lim_tokens l + whole) else lim_tokens l)"

lemma limiter_try_acquire_eq:
  "limiter_try_acquire now l =
     (0 < refilled l now,
      l\<lparr>lim_last_refill := now,
        lim_tokens_fraction := refill l now + lim_tokens_fraction l -
          of_nat (nat \<lfloor>refill l now + lim_tokens_fraction l\<rfloor>),
        lim_tokens := refilled l now - 1\<rparr>)"
  by (simp add: limiter_try_acquire_def refilled_def refill_def Let_def del: of_nat_nat)

lemma limiter_frame:
  "limiter_try_acquire now l = (ok, l') \<Longrightarrow>
     lim_capacity l' = lim_capacity l \<and> lim_refill_per_second l' = lim_refill_per_second l \<and>
     lim_last_refill l' = now"
  by (auto simp: limiter_try_acquire_def Let_def split: if_splits)

lemma whole_bounds:
  fixes x :: rat
  assumes "0 \<le> x"
  shows "of_nat (nat \<lfloor>x\<rfloor>) \<le> x" "x < of_nat (nat \<lfloor>x\<rfloor>) + 1"
proof -
  have "(of_nat (nat \<lfloor>x\<rfloor>) :: rat) = of_int \<lfloor>x\<rfloor>"
    using assms by simp
  then show "of_nat (nat \<lfloor>x\<rfloor>) \<le> x" "x < of_nat (nat \<lfloor>x\<rfloor>) + 1"
    using floor_correct [of x] by simp_all
qed

lemma limiter_try_acquire_inv [inv_intros]:
  assumes "limiter_inv l" "lim_last_refill l \<le> now" "limiter_try_acquire now l = (ok, l')"
  shows "limiter_inv l'"
proof -
  let ?x = "refill l now + lim_tokens_fraction l"
  have "0 \<le> ?x"
    using assms refill_nonneg [of l now] by (simp add: limiter_inv_def)
  note whole_bounds [OF this]
  then show ?thesis
    using assms
    by (auto simp: limiter_try_acquire_def Let_def limiter_inv_def refill_def split: if_splits)
qed

text \<open>A call never creates tokens: the level plus the token handed out is at most the old level
  plus the refill, with equality as long as the bucket does not overflow.\<close>

lemma level_step:
  assumes "limiter_inv l" "lim_last_refill l \<le> now" "limiter_try_acquire now l = (ok, l')"
  shows "level l' + (if ok then 1 else 0) \<le> level l + refill l now"
    and "level l + refill l now < of_nat (lim_capacity l) \<Longrightarrow>
         level l' + (if ok then 1 else 0) = level l + refill l now"
proof -
  let ?x = "refill l now + lim_tokens_fraction l"
  have "0 \<le> ?x"
    using assms refill_nonneg [of l now] by (simp add: limiter_inv_def)
  note w = whole_bounds [OF this]
  let ?t = "refilled l now"
  have "of_nat (?t - 1) + (if 0 < ?t then 1 else 0) = (of_nat ?t :: rat)"
    by (cases ?t) auto
  then have step: "level l' + (if ok then 1 else 0) = of_nat ?t + (?x - of_nat (nat \<lfloor>?x\<rfloor>))"
    using assms(3) by (auto simp: limiter_try_acquire_eq level_def simp del: of_nat_nat)
  have "?t \<le> lim_tokens l + nat \<lfloor>?x\<rfloor>"
    by (simp add: refilled_def Let_def)
  then have "(of_nat ?t :: rat) \<le> of_nat (lim_tokens l) + of_nat (nat \<lfloor>?x\<rfloor>)"
    by (metis of_nat_add of_nat_le_iff)
  then show "level l' + (if ok then 1 else 0) \<le> level l + refill l now"
    unfolding step by (simp add: level_def del: of_nat_nat)
  assume "level l + refill l now < of_nat (lim_capacity l)"
  then have "(of_nat (lim_tokens l + nat \<lfloor>?x\<rfloor>) :: rat) < of_nat (lim_capacity l)"
    using w(1) by (simp add: level_def del: of_nat_nat)
  then have "?t = lim_tokens l + nat \<lfloor>?x\<rfloor>"
    by (auto simp: refilled_def Let_def of_nat_less_iff simp del: of_nat_add of_nat_nat)
  then show "level l' + (if ok then 1 else 0) = level l + refill l now"
    unfolding step by (simp add: level_def del: of_nat_nat)
qed

text \<open>A sequence of calls at the given times, with the number of tokens handed out.\<close>

fun run_limiter :: "rate_limiter \<Rightarrow> time_ns list \<Rightarrow> nat \<times> rate_limiter" where
  "run_limiter l [] = (0, l)"
| "run_limiter l (t # ts) =
     (case limiter_try_acquire t l of (ok, l1) \<Rightarrow>
        case run_limiter l1 ts of (n, l2) \<Rightarrow> ((if ok then 1 else 0) + n, l2))"

lemma run_limiter_level:
  assumes "limiter_inv l" "sorted (lim_last_refill l # ts)" "run_limiter l ts = (n, l')"
  shows "of_nat n + level l' \<le>
         level l + seconds (last (lim_last_refill l # ts) - lim_last_refill l) * of_nat (lim_refill_per_second l)
         \<and> limiter_inv l'"
  using assms
proof (induction ts arbitrary: l n)
  case Nil
  then show ?case by (simp add: seconds_def)
next
  case (Cons t ts)
  obtain ok l1 where st: "limiter_try_acquire t l = (ok, l1)" by fastforce
  obtain m where run: "run_limiter l1 ts = (m, l')" and n: "n = (if ok then 1 else 0) + m"
    using Cons.prems(3) st by (auto split: prod.splits)
  have t: "lim_last_refill l \<le> t" using Cons.prems(2) by simp
  note f = limiter_frame [OF st]
  have "of_nat m + level l' \<le>
      level l1 + seconds (last (t # ts) - t) * of_nat (lim_refill_per_second l) \<and> limiter_inv l'"
    using Cons.IH [OF limiter_try_acquire_inv [OF Cons.prems(1) t st] _ run] Cons.prems(2) f by simp
  moreover have "level l1 + (if ok then 1 else 0) \<le>
      level l + seconds (t - lim_last_refill l) * of_nat (lim_refill_per_second l)"
    using level_step(1) [OF Cons.prems(1) t st] by (simp add: refill_def)
  moreover have "seconds (last (t # ts) - t) * of_nat (lim_refill_per_second l) +
      seconds (t - lim_last_refill l) * of_nat (lim_refill_per_second l) =
      seconds (last (t # ts) - lim_last_refill l) * of_nat (lim_refill_per_second l)"
    unfolding distrib_right [symmetric] by (simp add: seconds_def add_divide_distrib [symmetric])
  ultimately show ?case
    by (simp add: n split: if_splits)
qed

lemma granted_after_refill:
  assumes "limiter_inv l" "0 < lim_capacity l" "1 \<le> refill l now"
  shows "fst (limiter_try_acquire now l)"
proof -
  have "1 \<le> refill l now + lim_tokens_fraction l"
    using assms by (simp add: limiter_inv_def)
  then have "0 < nat \<lfloor>refill l now + lim_tokens_fraction l\<rfloor>"
    by simp
  then show ?thesis
    using assms(2) by (simp add: limiter_try_acquire_eq refilled_def Let_def)
qed

subsection \<open>The manager\<close>

datatype acquire_event =
    Acquire string rate_limit_config "time_ns \<times> time_ns \<times> time_ns"
  | Acquire_default string "time_ns \<times> time_ns \<times> time_ns"

fun acquire_key :: "acquire_event \<Rightarrow> string" where
  "acquire_key (Acquire k c clk) = k"
| "acquire_key (Acquire_default k clk) = k"

fun acquire_exec :: "acquire_event \<Rightarrow> rate_limiter_manager \<Rightarrow> bool \<times> rate_limiter_manager" where
  "acquire_exec (Acquire k c clk) m = try_acquire k c clk m"
| "acquire_exec (Acquire_default k clk) m = try_acquire_default k clk m"

definition manager_cell ::
  "rate_limiter_manager \<Rightarrow> string \<Rightarrow> rate_limiter option \<times> time_ns option \<times> rate_limit_config" where
  "manager_cell m k = (map_of (rlm_limiters m) k, map_of (rlm_last_used m) k, rlm_default_config m)"

lemmas acquire_defs =
  try_acquire_def try_acquire_default_def try_acquire_locked_def manager_cell_def Let_def

interpretation rlm: keyed_machine acquire_key manager_cell acquire_exec
proof unfold_locales
  fix e s t k
  show "manager_cell (snd (acquire_exec e s)) k = manager_cell s k" if "k \<noteq> acquire_key e"
    using that by (cases e) (auto simp: acquire_defs split: prod.split)
  assume "manager_cell s (acquire_key e) = manager_cell t (acquire_key e)"
  then show "manager_cell (snd (acquire_exec e s)) (acquire_key e) =
        manager_cell (snd (acquire_exec e t)) (acquire_key e)"
    and "fst (acquire_exec e s) = fst (acquire_exec e t)"
    by (cases e; auto simp: acquire_defs split: prod.split option.split)+
qed

definition manager_inv :: "rate_limiter_manager \<Rightarrow> bool" where
  "manager_inv m \<longleftrightarrow> distinct (map fst (rlm_limiters m)) \<and> distinct (map fst (rlm_last_used m)) \<and>
     fst ` set (rlm_limiters m) = fst ` set (rlm_last_used m)"

lemma try_acquire_locked_inv:
  "manager_inv m \<Longrightarrow> manager_inv (snd (try_acquire_locked k c clk m))"
  by (cases clk) (auto simp: manager_inv_def try_acquire_locked_def Let_def dom_update split: prod.split)

lemma fst_filter_keys: "fst ` set (filter (\<lambda>(k, x). P k) m) = {k \<in> fst ` set m. P k}"
  by force

lemma map_of_filter_keys:
  "map_of (filter (\<lambda>(k, x). P k) m) k = (if P k then map_of m k else None)"
  by (induction m) auto

lemma distinct_filter_keys: "distinct (map fst m) \<Longrightarrow> distinct (map fst (filter Q m))"
  by (induction m) (auto simp: image_iff)

lemma cleanup_inv: "manager_inv m \<Longrightarrow> manager_inv (cleanup now idle m)"
proof -
  assume inv: "manager_inv m"
  define gone where "gone = filter (limiter_idle now idle (rlm_last_used m)) (map fst (rlm_limiters m))"
  have "fst ` set (filter (\<lambda>(k, x). k \<notin> set gone) (rlm_limiters m)) =
        fst ` set (filter (\<lambda>(k, x). k \<notin> set gone) (rlm_last_used m))"
    unfolding fst_filter_keys using inv by (simp add: manager_inv_def)
  then show ?thesis
    using inv unfolding manager_inv_def cleanup_def Let_def gone_def [symmetric]
    by (simp del: set_filter add: distinct_filter_keys)
qed

lemma cleanup_lookup:
  assumes "manager_inv m"
  shows "map_of (rlm_limiters (cleanup now idle m)) k =
     (if limiter_idle now idle (rlm_last_used m) k then None else map_of (rlm_limiters m) k)"
proof -
  have "map_of (rlm_limiters m) k = None" if "k \<notin> fst ` set (rlm_limiters m)"
    using that by (simp add: map_of_eq_None_iff)
  then show ?thesis
    by (auto simp: cleanup_def Let_def map_of_filter_keys)
qed

subsection \<open>Properties\<close>

text \<open>C9: a token bucket never grants more than its capacity plus the refill of the elapsed time,
  for every sequence of calls with a monotone clock; tokens stay within the capacity and the
  fraction below one.\<close>

theorem rate_limit_bound:
  assumes "sorted (t0 # ts)" "run_limiter (limiter_create cap rate t0) ts = (granted, l')"
  shows "of_nat granted \<le> of_nat cap + seconds (last (t0 # ts) - t0) * of_nat rate \<and> limiter_inv l'"
proof -
  let ?l = "limiter_create cap rate t0"
  have "of_nat granted + level l' \<le> level ?l + seconds (last (t0 # ts) - t0) * of_nat rate \<and> limiter_inv l'"
    using run_limiter_level [of ?l ts granted l'] assms limiter_create_inv
    by (simp add: limiter_create_def)
  moreover have "0 \<le> level l'" if "limiter_inv l'"
    using that by (simp add: level_def limiter_inv_def)
  ultimately show ?thesis
    by (auto simp: level_def limiter_create_def)
qed

theorem rate_limit_bound_witness:
  "\<exists>g l'. run_limiter (limiter_create 1 2 0) [0, 0, 500000000] = (g, l') \<and>
     of_nat g \<le> (1 :: rat) + seconds (last [0, 0, 0, 500000000] - 0) * 2"
proof -
  obtain g l' where r: "run_limiter (limiter_create 1 2 0) [0, 0, 500000000] = (g, l')"
    by fastforce
  show ?thesis
    using rate_limit_bound [OF _ r] r by auto
qed



text \<open>C11: limiters of different keys are independent. In any sequence of calls, the answers a key
  gets and the limiter it ends with are those of the calls of this key alone.\<close>

theorem rate_limit_isolation:
  "filter (\<lambda>(e, r). acquire_key e = k) (fst (run_events acquire_exec es m)) =
     fst (run_events acquire_exec (filter (\<lambda>e. acquire_key e = k) es) m) \<and>
   map_of (rlm_limiters (snd (run_events acquire_exec es m))) k =
     map_of (rlm_limiters (snd (run_events acquire_exec (filter (\<lambda>e. acquire_key e = k) es) m))) k"
  using rlm.noninterference [of m k m es] by (simp add: manager_cell_def)

text \<open>cleaning up removes exactly the limiters whose last use is older than the idle time, keeps
  the others unchanged, and keeps the two maps of the manager in step.\<close>

theorem rate_limit_cleanup:
  assumes "manager_inv m"
  shows "manager_inv (cleanup now idle m) \<and>
     map_of (rlm_limiters (cleanup now idle m)) k =
       (case map_of (rlm_last_used m) k of
          Some used \<Rightarrow> if now - used > idle then None else map_of (rlm_limiters m) k
        | None \<Rightarrow> None)"
proof -
  have "map_of (rlm_limiters m) k = None" if "map_of (rlm_last_used m) k = None"
    using that assms by (simp add: manager_inv_def map_of_eq_None_iff)
  then show ?thesis
    using cleanup_lookup [OF assms] cleanup_inv [OF assms]
    by (auto simp: limiter_idle_def split: option.split)
qed

end
