(* ===== verification/Connection_Pool.thy ===== *)
theory Connection_Pool
  imports Gateway_Interfaces
begin

text \<open>
  The pool of idle upstream connections (\<^verbatim>\<open>connection_pool.h\<close>, \<^verbatim>\<open>connection_pool.cpp\<close>). Sockets
  are identified by a number; the clock is passed to the operations that read it. A connection
  that is dropped is closed by its last \<^verbatim>\<open>shared_ptr\<close> and leaves the model.
\<close>

subsection \<open>Operations\<close>

record pooled_connection =
  pc_socket :: nat
  pc_leftover :: string
  pc_last_used :: int

record connection_pool =
  cp_idle :: "(string \<times> pooled_connection list) list"
  cp_test_idle_timeout :: "int option"

definition max_idle_per_upstream :: size_t where
  "max_idle_per_upstream = 16"

definition idle_timeout :: int where
  "idle_timeout = 60000000000"

definition effective_idle_timeout :: "connection_pool \<Rightarrow> int" where
  "effective_idle_timeout p = (case cp_test_idle_timeout p of Some t \<Rightarrow> t | None \<Rightarrow> idle_timeout)"

definition pool_create :: connection_pool where
  "pool_create = \<lparr>cp_idle = [], cp_test_idle_timeout = None\<rparr>"

definition set_idle_timeout_for_testing :: "int \<Rightarrow> connection_pool \<Rightarrow> connection_pool" where
  "set_idle_timeout_for_testing t p = p\<lparr>cp_test_idle_timeout := Some t\<rparr>"

definition pool_key :: "string \<Rightarrow> int \<Rightarrow> string \<Rightarrow> string" where
  "pool_key host port scheme = scheme @ host @ '':'' @ dec_int port"

text \<open>The loop that drops expired connections from the front of the deque.\<close>

fun checkout_loop ::
  "int \<Rightarrow> pooled_connection list \<Rightarrow> (pooled_connection \<times> pooled_connection list) option" where
  "checkout_loop expiry [] = None"
| "checkout_loop expiry (conn # dq) =
     (if pc_last_used conn < expiry then checkout_loop expiry dq else Some (conn, dq))"

definition checkout ::
  "string \<Rightarrow> int \<Rightarrow> string \<Rightarrow> int \<Rightarrow> connection_pool \<Rightarrow> pooled_connection option \<times> connection_pool" where
  "checkout host port scheme now p =
     (let key = pool_key host port scheme
      in case map_of (cp_idle p) key of
           None \<Rightarrow> (None, p)
         | Some dq \<Rightarrow>
             (case checkout_loop (now - effective_idle_timeout p) dq of
                None \<Rightarrow> (None, p\<lparr>cp_idle := AList.delete key (cp_idle p)\<rparr>)
              | Some (conn, rest) \<Rightarrow>
                  (Some conn,
                   p\<lparr>cp_idle := (if rest = [] then AList.delete key (cp_idle p)
                                else put key rest (cp_idle p))\<rparr>)))"

definition checkin ::
  "string \<Rightarrow> int \<Rightarrow> string \<Rightarrow> pooled_connection \<Rightarrow> int \<Rightarrow> connection_pool \<Rightarrow> connection_pool" where
  "checkin host port scheme conn now p =
     (let key = pool_key host port scheme;
          dq = (case map_of (cp_idle p) key of Some dq \<Rightarrow> dq | None \<Rightarrow> [])
      in if length dq \<ge> max_idle_per_upstream then p\<lparr>cp_idle := put key dq (cp_idle p)\<rparr>
         else p\<lparr>cp_idle := put key (dq @ [conn\<lparr>pc_last_used := now\<rparr>]) (cp_idle p)\<rparr>)"

definition invalidate :: "string \<Rightarrow> int \<Rightarrow> string \<Rightarrow> connection_pool \<Rightarrow> connection_pool" where
  "invalidate host port scheme p =
     p\<lparr>cp_idle := AList.delete (pool_key host port scheme) (cp_idle p)\<rparr>"

subsection \<open>One cell per upstream identity\<close>

datatype pool_event =
    Checkout string int string int
  | Checkin string int string pooled_connection int
  | Invalidate string int string

fun pool_event_key :: "pool_event \<Rightarrow> string" where
  "pool_event_key (Checkout h p s now) = pool_key h p s"
| "pool_event_key (Checkin h p s c now) = pool_key h p s"
| "pool_event_key (Invalidate h p s) = pool_key h p s"

fun pool_exec :: "pool_event \<Rightarrow> connection_pool \<Rightarrow> pooled_connection option \<times> connection_pool" where
  "pool_exec (Checkout h p s now) cp = checkout h p s now cp"
| "pool_exec (Checkin h p s c now) cp = (None, checkin h p s c now cp)"
| "pool_exec (Invalidate h p s) cp = (None, invalidate h p s cp)"

definition pool_cell :: "connection_pool \<Rightarrow> string \<Rightarrow> pooled_connection list option \<times> int" where
  "pool_cell p k = (map_of (cp_idle p) k, effective_idle_timeout p)"

lemmas pool_defs =
  checkout_def checkin_def invalidate_def pool_cell_def effective_idle_timeout_def Let_def

interpretation cpool: keyed_machine pool_event_key pool_cell pool_exec
proof unfold_locales
  fix e s t k
  show "pool_cell (snd (pool_exec e s)) k = pool_cell s k" if "k \<noteq> pool_event_key e"
    using that by (cases e) (auto simp: pool_defs split: option.split)
  assume "pool_cell s (pool_event_key e) = pool_cell t (pool_event_key e)"
  then show "pool_cell (snd (pool_exec e s)) (pool_event_key e) =
        pool_cell (snd (pool_exec e t)) (pool_event_key e)"
    and "fst (pool_exec e s) = fst (pool_exec e t)"
    by (cases e; auto simp: pool_defs split: option.splits)+
qed

subsection \<open>Bounded queues\<close>

definition idle_queue :: "string \<Rightarrow> connection_pool \<Rightarrow> pooled_connection list" where
  "idle_queue k p = (case map_of (cp_idle p) k of None \<Rightarrow> [] | Some q \<Rightarrow> q)"

definition pool_inv :: "connection_pool \<Rightarrow> bool" where
  "pool_inv p \<longleftrightarrow> distinct (map fst (cp_idle p)) \<and>
     (\<forall>k q. map_of (cp_idle p) k = Some q \<longrightarrow> q \<noteq> [] \<and> length q \<le> max_idle_per_upstream)"

lemma checkout_loop_dropWhile:
  "checkout_loop expiry q =
     (case dropWhile (\<lambda>c. pc_last_used c < expiry) q of [] \<Rightarrow> None | c # cs \<Rightarrow> Some (c, cs))"
  by (induction q) auto

lemma checkout_loop_Some:
  "checkout_loop expiry q = Some (c, rest) \<Longrightarrow>
     (\<exists>old. q = old @ c # rest \<and> (\<forall>x \<in> set old. pc_last_used x < expiry)) \<and> expiry \<le> pc_last_used c"
proof (induction q)
  case (Cons a q)
  show ?case
  proof (cases "pc_last_used a < expiry")
    case True
    with Cons obtain old where "q = old @ c # rest" "\<forall>x \<in> set old. pc_last_used x < expiry"
        "expiry \<le> pc_last_used c" by auto
    with True show ?thesis
      by (intro conjI exI [of _ "a # old"]) auto
  next
    case False
    with Cons.prems show ?thesis
      by auto
  qed
qed simp

lemma idle_queue_update:
  "idle_queue k (p\<lparr>cp_idle := (if rest = [] then AList.delete key (cp_idle p) else put key rest (cp_idle p))\<rparr>) =
     (if k = key then rest else idle_queue k p)"
  by (simp add: idle_queue_def)

lemma checkout_Some:
  assumes "checkout host port scheme now p = (Some c, p')"
  shows "(\<exists>old. idle_queue (pool_key host port scheme) p =
              old @ c # idle_queue (pool_key host port scheme) p' \<and>
            (\<forall>x \<in> set old. pc_last_used x < now - effective_idle_timeout p))"
    and "now - effective_idle_timeout p \<le> pc_last_used c"
    and "k \<noteq> pool_key host port scheme \<Longrightarrow> idle_queue k p' = idle_queue k p"
proof -
  let ?k = "pool_key host port scheme"
  obtain q rest where q: "map_of (cp_idle p) ?k = Some q"
      "checkout_loop (now - effective_idle_timeout p) q = Some (c, rest)"
    and p': "p' = p\<lparr>cp_idle := (if rest = [] then AList.delete ?k (cp_idle p) else put ?k rest (cp_idle p))\<rparr>"
    using assms by (auto simp: checkout_def Let_def split: option.splits)
  have "idle_queue ?k p' = rest" "k \<noteq> ?k \<Longrightarrow> idle_queue k p' = idle_queue k p" "idle_queue ?k p = q"
    unfolding p' idle_queue_update using q by (simp_all add: idle_queue_def)
  with checkout_loop_Some [OF q(2)]
  show "\<exists>old. idle_queue ?k p = old @ c # idle_queue ?k p' \<and>
            (\<forall>x \<in> set old. pc_last_used x < now - effective_idle_timeout p)"
    and "now - effective_idle_timeout p \<le> pc_last_used c"
    and "k \<noteq> ?k \<Longrightarrow> idle_queue k p' = idle_queue k p"
    by auto
qed

lemma checkout_None:
  "checkout host port scheme now p = (None, p') \<Longrightarrow>
     idle_queue k p' = (if k = pool_key host port scheme then [] else idle_queue k p)"
  by (auto simp: checkout_def idle_queue_def Let_def split: option.splits)

lemma checkout_inv:
  assumes "pool_inv p"
  shows "pool_inv (snd (checkout host port scheme now p))"
proof (cases "map_of (cp_idle p) (pool_key host port scheme)")
  case None
  then show ?thesis
    using assms by (simp add: checkout_def Let_def)
next
  case (Some q)
  show ?thesis
  proof (cases "checkout_loop (now - effective_idle_timeout p) q")
    case None
    with Some assms show ?thesis
      by (simp add: checkout_def Let_def pool_inv_def)
  next
    case (Some cr)
    obtain c rest where cr: "cr = (c, rest)" by fastforce
    have "length rest \<le> length q"
      using checkout_loop_Some [of "now - effective_idle_timeout p" q c rest] Some cr by auto
    moreover have "length q \<le> max_idle_per_upstream"
      using assms \<open>map_of (cp_idle p) _ = Some q\<close> by (auto simp: pool_inv_def)
    ultimately have "length rest \<le> max_idle_per_upstream" by simp
    then show ?thesis
      using Some cr assms \<open>map_of (cp_idle p) _ = Some q\<close>
      by (auto simp: checkout_def Let_def pool_inv_def)
  qed
qed

lemma pool_exec_inv [inv_intros]: "pool_inv p \<Longrightarrow> pool_inv (snd (pool_exec e p))"
proof (cases e)
  case (Checkin h port s c now)
  assume "pool_inv p"
  then have "pool_inv (checkin h port s c now p)"
    by (auto simp: pool_inv_def checkin_def Let_def max_idle_per_upstream_def intro: le_antisym
        split: option.split)
  then show ?thesis by (simp add: Checkin)
next
  case (Invalidate h port s)
  assume "pool_inv p"
  then show ?thesis by (simp add: Invalidate pool_inv_def invalidate_def)
qed (simp add: checkout_inv)

lemma run_pool_inv: "pool_inv p \<Longrightarrow> pool_inv (snd (run_events pool_exec es p))"
  by (induction es arbitrary: p) (auto intro: inv_intros)

subsection \<open>First in, first out, at most once\<close>

text \<open>What was returned to the pool and what was taken from it under a key, in order.\<close>

fun pool_in :: "string \<Rightarrow> pool_event \<Rightarrow> pooled_connection list" where
  "pool_in k (Checkin h p s c now) = (if pool_key h p s = k then [c\<lparr>pc_last_used := now\<rparr>] else [])"
| "pool_in k _ = []"

definition pool_out :: "string \<Rightarrow> pool_event \<times> pooled_connection option \<Rightarrow> pooled_connection list" where
  "pool_out k = (\<lambda>(e, r). if pool_event_key e = k then (case r of None \<Rightarrow> [] | Some c \<Rightarrow> [c]) else [])"

lemma pool_step_fifo:
  "subseq (pool_out k (e, fst (pool_exec e p)) @ idle_queue k (snd (pool_exec e p)))
     (idle_queue k p @ pool_in k e)"
proof (cases e)
  case (Checkout h port s now)
  obtain r p' where c: "checkout h port s now p = (r, p')" by fastforce
  show ?thesis
  proof (cases r)
    case None
    then show ?thesis
      using checkout_None [of h port s now p p' k] c by (simp add: Checkout pool_out_def)
  next
    case (Some x)
    then show ?thesis
      using checkout_Some(1) [of h port s now p x p'] checkout_Some(3) [of h port s now p x p' k] c
      by (auto simp: Checkout pool_out_def)
  qed
next
  case (Checkin h port s c now)
  then show ?thesis
    by (auto simp: pool_out_def idle_queue_def checkin_def Let_def split: option.split)
next
  case (Invalidate h port s)
  then show ?thesis
    by (auto simp: pool_out_def idle_queue_def invalidate_def)
qed

lemma pool_run_fifo:
  "subseq (concat (map (pool_out k) (fst (run_events pool_exec es p))) @
           idle_queue k (snd (run_events pool_exec es p)))
     (idle_queue k p @ concat (map (pool_in k) es))"
proof (induction es arbitrary: p)
  case (Cons e es)
  let ?p = "snd (pool_exec e p)"
  let ?out = "pool_out k (e, fst (pool_exec e p))"
  have a: "subseq (?out @ concat (map (pool_out k) (fst (run_events pool_exec es ?p))) @
          idle_queue k (snd (run_events pool_exec es ?p)))
        (?out @ idle_queue k ?p @ concat (map (pool_in k) es))"
    using list_emb_append_mono [OF subseq_order.order_refl Cons.IH [of ?p]] by simp
  have b: "subseq ((?out @ idle_queue k ?p) @ concat (map (pool_in k) es))
        ((idle_queue k p @ pool_in k e) @ concat (map (pool_in k) es))"
    using pool_step_fifo by (rule list_emb_append_mono) simp
  show ?case
    using subseq_order.order_trans [OF a b [unfolded append_assoc]] by simp
qed simp

subsection \<open>Properties\<close>


text \<open>a connection handed out has not been idle beyond the timeout, every older connection of
  the identity was expired and is gone, and the remaining ones stay in the pool.\<close>

theorem checkout_fresh:
  assumes "checkout host port scheme now p = (Some c, p')"
  shows "now - effective_idle_timeout p \<le> pc_last_used c \<and>
     (\<exists>old. idle_queue (pool_key host port scheme) p =
              old @ c # idle_queue (pool_key host port scheme) p' \<and>
            (\<forall>x \<in> set old. pc_last_used x < now - effective_idle_timeout p))"
  using checkout_Some(1,2) [OF assms] by blast

definition pool_sample :: connection_pool where
  "pool_sample = checkin ''10.0.0.1'' 80 [] \<lparr>pc_socket = 7, pc_leftover = [], pc_last_used = 0\<rparr> 5 pool_create"

end
