(* ===== verification/Upstream_Manager.thy ===== *)
theory Upstream_Manager
  imports Gateway_Config Gateway_Interfaces
begin

text \<open>
  Backend selection, health and circuit breaking (\<^verbatim>\<open>upstream_manager.h\<close>,
  \<^verbatim>\<open>upstream_manager.cpp\<close>). The manager is a record; every operation runs under its mutex and is
  one function. The clock (nanoseconds), the network probe and the logger are arguments or left
  out. The round-robin counters are 64-bit words, since they wrap.
\<close>

subsection \<open>State\<close>

record circuit_state =
  ci_consecutive_failures :: int
  ci_opened_at :: int
  ci_open :: bool
  ci_half_open_probe :: bool

definition circuit_init :: circuit_state where
  "circuit_init = \<lparr>ci_consecutive_failures = 0, ci_opened_at = 0, ci_open = False,
     ci_half_open_probe = False\<rparr>"

record upstream_manager =
  um_config :: upstream_config
  um_round_robin_indices :: "(string \<times> u64) list"
  um_health_check_timeout_ms :: int
  um_circuit_states :: "(string \<times> circuit_state) list"

definition manager_new :: "upstream_config \<Rightarrow> upstream_manager" where
  "manager_new c = \<lparr>um_config = c, um_round_robin_indices = [],
     um_health_check_timeout_ms = uc_health_check_timeout_ms c, um_circuit_states = []\<rparr>"

definition manager_reload :: "upstream_config \<Rightarrow> upstream_manager \<Rightarrow> upstream_manager" where
  "manager_reload c m = m\<lparr>um_config := c,
     um_health_check_timeout_ms := uc_health_check_timeout_ms c,
     um_round_robin_indices := [], um_circuit_states := []\<rparr>"

definition circuit_key :: "string \<Rightarrow> upstream_server \<Rightarrow> string" where
  "circuit_key upstream_name server = upstream_name @ ''|'' @ us_host server @ '':'' @ dec_int (us_port server)"

text \<open>\<^verbatim>\<open>circuit_states_[key]\<close>: a missing entry is created with the initial state.\<close>

definition circuit_at :: "upstream_manager \<Rightarrow> string \<Rightarrow> circuit_state" where
  "circuit_at m key = (case map_of (um_circuit_states m) key of None \<Rightarrow> circuit_init | Some c \<Rightarrow> c)"

definition set_circuit :: "string \<Rightarrow> circuit_state \<Rightarrow> upstream_manager \<Rightarrow> upstream_manager" where
  "set_circuit key c m = m\<lparr>um_circuit_states := put key c (um_circuit_states m)\<rparr>"

subsection \<open>The circuit breaker\<close>

definition circuit_allow :: "int \<Rightarrow> int \<Rightarrow> circuit_state \<Rightarrow> bool \<times> circuit_state" where
  "circuit_allow recovery_timeout_ms now c =
     (if \<not> ci_open c then (True, c)
      else
        (let elapsed = (now - ci_opened_at c) div 1000000
         in if elapsed < recovery_timeout_ms \<or> ci_half_open_probe c then (False, c)
            else (True, c\<lparr>ci_half_open_probe := True\<rparr>)))"

definition circuit_success :: "circuit_state \<Rightarrow> circuit_state" where
  "circuit_success c = c\<lparr>ci_consecutive_failures := 0, ci_open := False, ci_half_open_probe := False\<rparr>"

definition circuit_failure :: "int \<Rightarrow> int \<Rightarrow> circuit_state \<Rightarrow> circuit_state" where
  "circuit_failure failure_threshold now c =
     (let c1 = c\<lparr>ci_half_open_probe := False, ci_consecutive_failures := ci_consecutive_failures c + 1\<rparr>
      in if ci_consecutive_failures c1 \<ge> max 1 failure_threshold
         then c1\<lparr>ci_open := True, ci_opened_at := now\<rparr> else c1)"

definition allow_request ::
  "string \<Rightarrow> upstream_server \<Rightarrow> int \<Rightarrow> int \<Rightarrow> upstream_manager \<Rightarrow> bool \<times> upstream_manager" where
  "allow_request upstream_name server recovery_timeout_ms now m =
     (let key = circuit_key upstream_name server
      in case circuit_allow recovery_timeout_ms now (circuit_at m key) of
           (ok, c) \<Rightarrow> (ok, set_circuit key c m))"

definition record_success :: "string \<Rightarrow> upstream_server \<Rightarrow> upstream_manager \<Rightarrow> upstream_manager" where
  "record_success upstream_name server m =
     (let key = circuit_key upstream_name server
      in set_circuit key (circuit_success (circuit_at m key)) m)"

definition record_failure ::
  "string \<Rightarrow> upstream_server \<Rightarrow> int \<Rightarrow> int \<Rightarrow> upstream_manager \<Rightarrow> upstream_manager" where
  "record_failure upstream_name server failure_threshold now m =
     (let key = circuit_key upstream_name server
      in set_circuit key (circuit_failure failure_threshold now (circuit_at m key)) m)"

subsection \<open>Server selection\<close>

fun first_healthy :: "upstream_server list \<Rightarrow> nat \<Rightarrow> nat list \<Rightarrow> nat option" where
  "first_healthy servers idx [] = None"
| "first_healthy servers idx (i # is) =
     (let candidate = (idx + i) mod length servers
      in if us_healthy (servers ! candidate) then Some candidate else first_healthy servers idx is)"

text \<open>\<^term>\<open>None\<close> is the exception \<^verbatim>\<open>No upstream found or empty\<close>.\<close>

definition pick_server :: "string \<Rightarrow> upstream_manager \<Rightarrow> upstream_server option \<times> upstream_manager" where
  "pick_server upstream_name m =
     (case map_of (uc_upstreams (um_config m)) upstream_name of
        None \<Rightarrow> (None, m)
      | Some up \<Rightarrow>
          (if up_servers up = [] then (None, m)
           else
             (let servers = up_servers up;
                  w = (case map_of (um_round_robin_indices m) upstream_name of None \<Rightarrow> 0 | Some w \<Rightarrow> w);
                  idx = unat w mod length servers;
                  m' = m\<lparr>um_round_robin_indices := put upstream_name (w + 1) (um_round_robin_indices m)\<rparr>
              in case first_healthy servers idx [0..<length servers] of
                   Some candidate \<Rightarrow> (Some (servers ! candidate), m')
                 | None \<Rightarrow> (Some (servers ! idx), m'))))"

subsection \<open>Health\<close>

type_synonym probe_target = "string \<times> nat \<times> string \<times> int"

definition health_targets :: "upstream_manager \<Rightarrow> probe_target list" where
  "health_targets m =
     concat (map (\<lambda>(name, up). map (\<lambda>(i, s). (name, i, us_host s, us_port s)) (enumerate 0 (up_servers up)))
       (uc_upstreams (um_config m)))"

definition update_health :: "bool \<Rightarrow> upstream_server \<Rightarrow> upstream_server" where
  "update_health ok server =
     (if \<not> ok \<and> us_healthy server then
        server\<lparr>us_healthy := False, us_consecutive_failures := us_consecutive_failures server + 1\<rparr>
      else if ok \<and> \<not> us_healthy server then
        server\<lparr>us_healthy := True, us_consecutive_failures := 0\<rparr>
      else if \<not> ok then server\<lparr>us_consecutive_failures := us_consecutive_failures server + 1\<rparr>
      else server\<lparr>us_consecutive_failures := 0\<rparr>)"

definition apply_health_result ::
  "string \<times> nat \<times> bool \<Rightarrow> (string \<times> upstream) list \<Rightarrow> (string \<times> upstream) list" where
  "apply_health_result = (\<lambda>(name, index, ok) ups.
     case map_of ups name of
       None \<Rightarrow> ups
     | Some up \<Rightarrow>
         (if index \<ge> length (up_servers up) then ups
          else put name (up\<lparr>up_servers := (up_servers up)[index := update_health ok (up_servers up ! index)]\<rparr>) ups))"

text \<open>The probes run outside the mutex: \<^verbatim>\<open>health_results\<close> is computed from the targets of one state and
  \<^verbatim>\<open>apply_health\<close> may run on another.\<close>

definition health_results ::
  "(string \<Rightarrow> int \<Rightarrow> bool) \<Rightarrow> probe_target list \<Rightarrow> (string \<times> nat \<times> bool) list" where
  "health_results probe targets = map (\<lambda>(name, i, host, port). (name, i, probe host port)) targets"

definition apply_health :: "(string \<times> nat \<times> bool) list \<Rightarrow> upstream_manager \<Rightarrow> upstream_manager" where
  "apply_health results m =
     m\<lparr>um_config := (um_config m)\<lparr>uc_upstreams := fold apply_health_result results (uc_upstreams (um_config m))\<rparr>\<rparr>"

definition check_health :: "(string \<Rightarrow> int \<Rightarrow> bool) \<Rightarrow> upstream_manager \<Rightarrow> upstream_manager" where
  "check_health probe m = apply_health (health_results probe (health_targets m)) m"

definition health_snapshot :: "upstream_manager \<Rightarrow> (string \<times> nat \<times> nat) list" where
  "health_snapshot m =
     sort_key fst (map (\<lambda>(name, up). (name, length (filter us_healthy (up_servers up)), length (up_servers up)))
       (uc_upstreams (um_config m)))"

record backend_status =
  bs_host :: string
  bs_port :: int
  bs_healthy :: bool
  bs_consecutive_failures :: int
  bs_circuit_open :: bool

definition backend_status_of :: "upstream_manager \<Rightarrow> string \<Rightarrow> upstream_server \<Rightarrow> backend_status" where
  "backend_status_of m name server =
     \<lparr>bs_host = us_host server, bs_port = us_port server, bs_healthy = us_healthy server,
      bs_consecutive_failures = us_consecutive_failures server,
      bs_circuit_open = (case map_of (um_circuit_states m) (circuit_key name server) of
                           None \<Rightarrow> False | Some c \<Rightarrow> ci_open c)\<rparr>"

definition status_snapshot :: "upstream_manager \<Rightarrow> (string \<times> backend_status list) list" where
  "status_snapshot m =
     map (\<lambda>(name, up). (name, map (backend_status_of m name) (up_servers up))) (uc_upstreams (um_config m))"

text \<open>The answers of the operating system to one probe: an exception of the socket layer, the
  return value of \<^verbatim>\<open>connect\<close>, the result of the wait and \<^verbatim>\<open>SO_ERROR\<close>.\<close>

datatype probe_io =
    Socket_exception
  | Connected
  | Connect_pending "bool" int

definition health_probe :: "(string \<Rightarrow> bool) \<Rightarrow> (string \<Rightarrow> int \<Rightarrow> probe_io) \<Rightarrow> string \<Rightarrow> int \<Rightarrow> bool" where
  "health_probe valid_ipv4 io host port =
     (case io host port of
        Socket_exception \<Rightarrow> False
      | Connected \<Rightarrow> valid_ipv4 host
      | Connect_pending ready so_error \<Rightarrow> valid_ipv4 host \<and> ready \<and> so_error = 0)"

subsection \<open>The breaker as a three-state machine\<close>

datatype breaker =
    Closed int
  | Open int int
  | Half_open int int

definition abs_circuit :: "circuit_state \<Rightarrow> breaker" where
  "abs_circuit c =
     (if \<not> ci_open c then Closed (ci_consecutive_failures c)
      else if ci_half_open_probe c then Half_open (ci_consecutive_failures c) (ci_opened_at c)
      else Open (ci_consecutive_failures c) (ci_opened_at c))"

fun breaker_allow :: "int \<Rightarrow> int \<Rightarrow> breaker \<Rightarrow> bool \<times> breaker" where
  "breaker_allow recovery now (Closed n) = (True, Closed n)"
| "breaker_allow recovery now (Open n opened) =
     (if (now - opened) div 1000000 < recovery then (False, Open n opened) else (True, Half_open n opened))"
| "breaker_allow recovery now (Half_open n opened) = (False, Half_open n opened)"

definition breaker_success :: "breaker \<Rightarrow> breaker" where
  "breaker_success b = Closed 0"

fun breaker_failure :: "int \<Rightarrow> int \<Rightarrow> breaker \<Rightarrow> breaker" where
  "breaker_failure threshold now (Closed n) =
     (if n + 1 \<ge> max 1 threshold then Open (n + 1) now else Closed (n + 1))"
| "breaker_failure threshold now (Open n opened) =
     Open (n + 1) (if n + 1 \<ge> max 1 threshold then now else opened)"
| "breaker_failure threshold now (Half_open n opened) =
     Open (n + 1) (if n + 1 \<ge> max 1 threshold then now else opened)"

lemma abs_circuit_allow:
  "breaker_allow recovery now (abs_circuit c) = map_prod id abs_circuit (circuit_allow recovery now c)"
  by (simp add: abs_circuit_def circuit_allow_def Let_def)

lemma abs_circuit_success: "abs_circuit (circuit_success c) = breaker_success (abs_circuit c)"
  by (simp add: abs_circuit_def circuit_success_def breaker_success_def)

lemma abs_circuit_failure:
  "abs_circuit (circuit_failure threshold now c) = breaker_failure threshold now (abs_circuit c)"
  by (simp add: abs_circuit_def circuit_failure_def Let_def)

lemma circuit_at_set [simp]: "circuit_at (set_circuit k c m) k' = (if k' = k then c else circuit_at m k')"
  by (simp add: circuit_at_def set_circuit_def)

subsection \<open>One breaker per backend\<close>

datatype circuit_event =
    Allow string upstream_server int int
  | Succeed string upstream_server
  | Fail string upstream_server int int

fun circuit_event_key :: "circuit_event \<Rightarrow> string" where
  "circuit_event_key (Allow n s r now) = circuit_key n s"
| "circuit_event_key (Succeed n s) = circuit_key n s"
| "circuit_event_key (Fail n s t now) = circuit_key n s"

fun circuit_event_backend :: "circuit_event \<Rightarrow> string \<times> string \<times> int" where
  "circuit_event_backend (Allow n s r now) = (n, us_host s, us_port s)"
| "circuit_event_backend (Succeed n s) = (n, us_host s, us_port s)"
| "circuit_event_backend (Fail n s t now) = (n, us_host s, us_port s)"

fun is_outcome :: "circuit_event \<Rightarrow> bool" where
  "is_outcome (Allow n s r now) = False"
| "is_outcome (Succeed n s) = True"
| "is_outcome (Fail n s t now) = True"

fun circuit_exec :: "circuit_event \<Rightarrow> upstream_manager \<Rightarrow> bool \<times> upstream_manager" where
  "circuit_exec (Allow n s r now) m = allow_request n s r now m"
| "circuit_exec (Succeed n s) m = (True, record_success n s m)"
| "circuit_exec (Fail n s t now) m = (True, record_failure n s t now m)"

lemmas circuit_defs = allow_request_def record_success_def record_failure_def Let_def

interpretation brk: keyed_machine circuit_event_key circuit_at circuit_exec
proof unfold_locales
  fix e s t k
  show "circuit_at (snd (circuit_exec e s)) k = circuit_at s k" if "k \<noteq> circuit_event_key e"
    using that by (cases e) (auto simp: circuit_defs split: prod.split)
  assume "circuit_at s (circuit_event_key e) = circuit_at t (circuit_event_key e)"
  then show "circuit_at (snd (circuit_exec e s)) (circuit_event_key e) =
        circuit_at (snd (circuit_exec e t)) (circuit_event_key e)"
    and "fst (circuit_exec e s) = fst (circuit_exec e t)"
    by (cases e; auto simp: circuit_defs split: prod.split)+
qed

lemma circuit_key_inject:
  assumes "circuit_key n s = circuit_key n' s'" "CHR ''|'' \<notin> set (us_host s)" "CHR ''|'' \<notin> set (us_host s')"
  shows "n = n' \<and> us_host s = us_host s' \<and> us_port s = us_port s'"
proof -
  have port: "c \<notin> set (dec_int p)" if "c \<in> {CHR ''|'', CHR '':''}" for c p
    using that set_dec_int [of c p] by (auto simp: is_digit_def)
  have "n = n' \<and> us_host s @ '':'' @ dec_int (us_port s) = us_host s' @ '':'' @ dec_int (us_port s')"
    using last_sep_unique [of n "CHR ''|''" "us_host s @ '':'' @ dec_int (us_port s)" n'
        "us_host s' @ '':'' @ dec_int (us_port s')"] assms port
    by (simp add: circuit_key_def)
  then show ?thesis
    using last_sep_unique [of "us_host s" "CHR '':''" "dec_int (us_port s)" "us_host s'"
        "dec_int (us_port s')"] port by simp
qed

lemma event_key_backend:
  assumes "CHR ''|'' \<notin> set (fst (snd (circuit_event_backend e)))" "CHR ''|'' \<notin> set (us_host s)"
  shows "circuit_event_key e = circuit_key n s \<longleftrightarrow> circuit_event_backend e = (n, us_host s, us_port s)"
proof -
  have "circuit_key n' s' = circuit_key n s \<longleftrightarrow> (n', us_host s', us_port s') = (n, us_host s, us_port s)"
    if "CHR ''|'' \<notin> set (us_host s')" for n' s'
    using circuit_key_inject [of n' s' n s] that assms(2) by (auto simp: circuit_key_def)
  with assms(1) show ?thesis by (cases e) simp_all
qed

lemma half_open_blocks:
  assumes "ci_open (circuit_at m k)" "ci_half_open_probe (circuit_at m k)"
    and "\<forall>e \<in> set es. circuit_event_key e = k \<longrightarrow> \<not> is_outcome e"
  shows "circuit_at (snd (run_events circuit_exec es m)) k = circuit_at m k \<and>
     (\<forall>(e, r) \<in> set (fst (run_events circuit_exec es m)). circuit_event_key e = k \<longrightarrow> \<not> r)"
  using assms
proof (induction es arbitrary: m)
  case (Cons e es)
  have "circuit_at (snd (circuit_exec e m)) k = circuit_at m k \<and>
      (circuit_event_key e = k \<longrightarrow> \<not> fst (circuit_exec e m))"
    using Cons.prems by (cases e) (auto simp: circuit_defs circuit_allow_def)
  then show ?case
    using Cons.IH [of "snd (circuit_exec e m)"] Cons.prems by auto
qed simp

lemma consecutive_failures_open:
  assumes "c = circuit_init"
  shows "ci_consecutive_failures (fold (circuit_failure thr) ts c) = int (length ts) \<and>
     ci_open (fold (circuit_failure thr) ts c) = (int (length ts) \<ge> max 1 thr) \<and>
     (int (length ts) \<ge> max 1 thr \<longrightarrow> ci_opened_at (fold (circuit_failure thr) ts c) = last ts)"
proof (induction ts rule: rev_induct)
  case Nil
  then show ?case by (simp add: assms circuit_init_def)
next
  case (snoc t ts)
  then show ?case
    by (auto simp: circuit_failure_def Let_def)
qed

subsection \<open>Selection\<close>

lemma first_healthy_Some:
  assumes "first_healthy servers idx is = Some c" "servers \<noteq> []"
  shows "c < length servers \<and> us_healthy (servers ! c) \<and> (\<exists>i \<in> set is. c = (idx + i) mod length servers)"
  using assms by (induction servers idx "is" rule: first_healthy.induct) (auto simp: Let_def split: if_splits)

lemma first_healthy_None:
  "first_healthy servers idx is = None \<Longrightarrow> i \<in> set is \<Longrightarrow> \<not> us_healthy (servers ! ((idx + i) mod length servers))"
  by (induction servers idx "is" rule: first_healthy.induct) (auto simp: Let_def split: if_splits)

lemma first_healthy_complete:
  assumes "j < length servers" "us_healthy (servers ! j)" "idx < length servers"
  shows "first_healthy servers idx [0..<length servers] \<noteq> None"
proof
  assume none: "first_healthy servers idx [0..<length servers] = None"
  let ?i = "(j + length servers - idx) mod length servers"
  have "(idx + ?i) mod length servers = j"
    using assms(1,3) by (simp add: mod_add_right_eq)
  moreover have "0 < length servers"
    using assms(1) by linarith
  then have "?i \<in> set [0..<length servers]"
    by simp
  ultimately show False
    using first_healthy_None [OF none, of ?i] assms(2) by metis
qed

lemma first_healthy_all:
  "\<lbrakk>servers \<noteq> []; idx < length servers; us_healthy (servers ! idx)\<rbrakk> \<Longrightarrow>
     first_healthy servers idx [0..<length servers] = Some idx"
  by (simp add: upt_conv_Cons Let_def)

definition rr_index :: "string \<Rightarrow> upstream_manager \<Rightarrow> u64" where
  "rr_index n m = (case map_of (um_round_robin_indices m) n of None \<Rightarrow> 0 | Some w \<Rightarrow> w)"

lemma pick_server_eq:
  assumes "map_of (uc_upstreams (um_config m)) n = Some up" "up_servers up \<noteq> []"
  shows "pick_server n m =
     (let idx = unat (rr_index n m) mod length (up_servers up)
      in (Some (case first_healthy (up_servers up) idx [0..<length (up_servers up)] of
                  Some c \<Rightarrow> up_servers up ! c | None \<Rightarrow> up_servers up ! idx),
          m\<lparr>um_round_robin_indices := put n (rr_index n m + 1) (um_round_robin_indices m)\<rparr>))"
  using assms by (simp add: pick_server_def rr_index_def Let_def split: option.split)

fun picks :: "nat \<Rightarrow> string \<Rightarrow> upstream_manager \<Rightarrow> upstream_server option list" where
  "picks 0 n m = []"
| "picks (Suc k) n m = (case pick_server n m of (s, m') \<Rightarrow> s # picks k n m')"

lemma picks_all_healthy:
  assumes "map_of (uc_upstreams (um_config m)) n = Some up" "up_servers up \<noteq> []"
    and "\<forall>s \<in> set (up_servers up). us_healthy s" "unat (rr_index n m) + k \<le> 2 ^ 64"
  shows "picks k n m =
     map (\<lambda>j. Some (up_servers up ! ((unat (rr_index n m) + j) mod length (up_servers up)))) [0..<k]"
  using assms
proof (induction k arbitrary: m)
  case (Suc k)
  let ?ss = "up_servers up" and ?w = "rr_index n m"
  let ?m = "m\<lparr>um_round_robin_indices := put n (?w + 1) (um_round_robin_indices m)\<rparr>"
  have idx: "unat ?w mod length ?ss < length ?ss"
    using Suc.prems(2) by simp
  have pick: "pick_server n m = (Some (?ss ! (unat ?w mod length ?ss)), ?m)"
    using pick_server_eq [OF Suc.prems(1,2)] first_healthy_all [OF Suc.prems(2) idx] Suc.prems(3) idx
    by (simp add: Let_def)
  show ?case
  proof (cases "k = 0")
    case True
    then show ?thesis using pick by simp
  next
    case False
    have "rr_index n ?m = ?w + 1"
      by (simp add: rr_index_def)
    moreover have "unat (?w + 1) = unat ?w + 1"
      using Suc.prems(4) False by (simp add: unat_word_ariths(1))
    ultimately have "picks k n ?m =
        map (\<lambda>j. Some (?ss ! ((unat ?w + 1 + j) mod length ?ss))) [0..<k]"
      using Suc.IH [of ?m] Suc.prems by simp
    moreover have "[0..<Suc k] = 0 # map Suc [0..<k]"
      by (simp add: map_Suc_upt upt_conv_Cons)
    ultimately show ?thesis
      using pick by (simp del: upt_Suc add: comp_def)
  qed
qed simp

lemma rotate_as_map:
  "map (\<lambda>j. xs ! ((a + j) mod length xs)) [0..<length xs] = rotate a xs"
  by (intro nth_equalityI) (simp_all add: nth_rotate)

lemma mset_rotate_eq: "mset (rotate a xs) = mset xs"
proof -
  have "mset (drop k xs) + mset (take k xs) = mset xs" for k
    by (metis append_take_drop_id mset_append union_commute)
  then show ?thesis
    by (simp add: rotate_drop_take)
qed

subsection \<open>Health checks\<close>

lemma update_health_eq:
  "update_health ok s = s\<lparr>us_healthy := ok, us_consecutive_failures := (if ok then 0 else us_consecutive_failures s + 1)\<rparr>"
  by (simp add: update_health_def)

text \<open>The effect of a list of results on one upstream depends only on its own results.\<close>

definition apply_results_to :: "(nat \<times> bool) list \<Rightarrow> upstream_server list \<Rightarrow> upstream_server list" where
  "apply_results_to rs ss =
     fold (\<lambda>(i, ok) ss. if i < length ss then ss[i := update_health ok (ss ! i)] else ss) rs ss"

lemma apply_results_to_Cons:
  "apply_results_to (r # rs) ss = apply_results_to rs (apply_results_to [r] ss)"
  by (simp add: apply_results_to_def)

lemma apply_health_result_lookup:
  "map_of (apply_health_result (n', i, ok) ups) n =
     (if n' = n then map_option (\<lambda>up. up\<lparr>up_servers := apply_results_to [(i, ok)] (up_servers up)\<rparr>) (map_of ups n)
      else map_of ups n)"
  by (auto simp: apply_health_result_def apply_results_to_def split: option.split)

lemma apply_health_results_lookup:
  "map_of (fold apply_health_result rs ups) n =
     map_option (\<lambda>up. up\<lparr>up_servers :=
        apply_results_to (map snd (filter (\<lambda>r. fst r = n) rs)) (up_servers up)\<rparr>) (map_of ups n)"
proof (induction rs arbitrary: ups)
  case Nil
  then show ?case
    by (cases "map_of ups n") (simp_all add: apply_results_to_def)
next
  case (Cons r rs)
  obtain n' i ok where r: "r = (n', i, ok)" by (cases r) auto
  show ?case
    by (cases "map_of ups n")
       (simp_all add: Cons.IH r apply_health_result_lookup 
         apply_results_to_Cons [of "(i, ok)" "map snd (filter (\<lambda>r. fst r = n) rs)"])
qed

lemma apply_results_enumerate:
  "apply_results_to (map (\<lambda>(i, s). (i, f s)) (enumerate (length pre) ss)) (pre @ ss) =
     pre @ map (\<lambda>s. update_health (f s) s) ss"
proof (induction ss arbitrary: pre)
  case Nil
  then show ?case by (simp add: apply_results_to_def)
next
  case (Cons s ss)
  have "apply_results_to (map (\<lambda>(i, s). (i, f s)) (enumerate (length pre) (s # ss))) (pre @ s # ss) =
        apply_results_to (map (\<lambda>(i, s). (i, f s)) (enumerate (length (pre @ [update_health (f s) s])) ss))
          ((pre @ [update_health (f s) s]) @ ss)"
    by (simp add: apply_results_to_def)
  then show ?case
    using Cons.IH [of "pre @ [update_health (f s) s]"] by simp
qed

lemma results_for_upstream:
  assumes "distinct (map fst ups)" "map_of ups n = Some up"
  shows "map snd (filter (\<lambda>r. fst r = n) (health_results probe
      (concat (map (\<lambda>(name, up). map (\<lambda>(i, s). (name, i, us_host s, us_port s)) (enumerate 0 (up_servers up))) ups))))
     = map (\<lambda>(i, s). (i, probe (us_host s) (us_port s))) (enumerate 0 (up_servers up))"
proof -
  have other: "filter (\<lambda>r. fst r = n) (health_results probe (map (\<lambda>(i, s). (n', i, us_host s, us_port s)) xs)) = []"
    if "n' \<noteq> n" for n' xs
    using that by (auto simp: health_results_def filter_empty_conv)
  have own: "map snd (filter (\<lambda>r. fst r = n) (health_results probe (map (\<lambda>(i, s). (n, i, us_host s, us_port s)) xs)))
      = map (\<lambda>(i, s). (i, probe (us_host s) (us_port s))) xs" for xs
    by (induction xs) (auto simp: health_results_def)
  have app: "health_results probe (xs @ ys) = health_results probe xs @ health_results probe ys" for xs ys
    by (simp add: health_results_def)
  show ?thesis
    using assms
  proof (induction ups)
    case (Cons u ups)
    obtain n' up' where u: "u = (n', up')" by fastforce
    show ?case
    proof (cases "n' = n")
      case True
      then have rest: "filter (\<lambda>r. fst r = n) (health_results probe (concat (map (\<lambda>(name, up).
          map (\<lambda>(i, s). (name, i, us_host s, us_port s)) (enumerate 0 (up_servers up))) ups))) = []"
        using Cons.prems(1) u by (force simp: health_results_def filter_empty_conv)
      show ?thesis
        using Cons.prems(2) True by (simp add: u app own rest)
    next
      case False
      then show ?thesis
        using Cons by (simp add: u app other)
    qed
  qed simp
qed

lemma check_health_lookup:
  assumes "distinct (map fst (uc_upstreams (um_config m)))"
    and "map_of (uc_upstreams (um_config m)) n = Some up"
  shows "map_of (uc_upstreams (um_config (check_health probe m))) n =
     Some (up\<lparr>up_servers := map (\<lambda>s. update_health (probe (us_host s) (us_port s)) s) (up_servers up)\<rparr>)"
  using apply_results_enumerate [of "\<lambda>s. probe (us_host s) (us_port s)" "[]" "up_servers up"]
  by (simp add: check_health_def apply_health_def apply_health_results_lookup assms(2)
      health_targets_def results_for_upstream [OF assms])

subsection \<open>Properties\<close>

text \<open>C12: the four-field circuit state implements the three-state breaker: closed, open with a
  cooldown, half-open with one probe. Every operation of the manager on a backend is the
  corresponding transition of the abstract breaker.\<close>

theorem breaker_refinement:
  defines "brk \<equiv> \<lambda>m n s. abs_circuit (circuit_at m (circuit_key n s))"
  shows "(fst (allow_request n s recovery now m), brk (snd (allow_request n s recovery now m)) n s) =
           breaker_allow recovery now (brk m n s) \<and>
         brk (record_success n s m) n s = breaker_success (brk m n s) \<and>
         brk (record_failure n s threshold now m) n s = breaker_failure threshold now (brk m n s)"
  unfolding brk_def
  by (simp add: circuit_defs abs_circuit_success abs_circuit_failure abs_circuit_allow
      split: prod.split)

text \<open>a fresh circuit opens exactly at the configured number of consecutive failures (at
  least one), and its cooldown starts at the last of them.\<close>

theorem circuit_threshold:
  "ci_open (fold (circuit_failure threshold) ts circuit_init) = (int (length ts) \<ge> max 1 threshold) \<and>
   (int (length ts) \<ge> max 1 threshold \<longrightarrow>
      ci_opened_at (fold (circuit_failure threshold) ts circuit_init) = last ts)"
  using consecutive_failures_open [OF refl] by simp

text \<open>C13: while the probe of a half-open circuit is out, every other request to this backend is
  refused, whatever happens at other backends and however much time passes; only a recorded
  outcome for this backend ends it. A probe whose outcome is never recorded keeps the backend
  unusable.\<close>

theorem half_open_single_probe:
  assumes "ci_open (circuit_at m (circuit_key n s))" "ci_half_open_probe (circuit_at m (circuit_key n s))"
    and "\<forall>e \<in> set es. circuit_event_key e = circuit_key n s \<longrightarrow> \<not> is_outcome e"
    and "(Allow n s recovery now, r) \<in> set (fst (run_events circuit_exec es m))"
  shows "\<not> r"
  using half_open_blocks [OF assms(1-3)] assms(4) by auto

definition sample_server :: upstream_server where
  "sample_server = upstream_server_default\<lparr>us_host := ''10.0.0.1''\<rparr>"

definition sample_half_open :: upstream_manager where
  "sample_half_open = set_circuit (circuit_key ''g'' sample_server)
     (circuit_init\<lparr>ci_open := True, ci_half_open_probe := True\<rparr>) (manager_new upstream_config_default)"

theorem half_open_single_probe_witness:
  "\<not> fst (allow_request ''g'' sample_server 0 1000000000000 sample_half_open)"
  by (rule half_open_single_probe [of sample_half_open "''g''" sample_server
        "[Allow ''g'' sample_server 0 1000000000000]" 0 1000000000000])
     (simp_all add: sample_half_open_def circuit_init_def)

text \<open>C14: breakers of different backends are independent. In any sequence of requests and recorded
  outcomes, what the breaker of a backend (group, host and port) answers and the state it ends with
  are those of the backend's own events, for host names without a bar.\<close>

theorem circuit_isolation:
  assumes "CHR ''|'' \<notin> set (us_host s)"
    and "\<forall>e \<in> set es. CHR ''|'' \<notin> set (fst (snd (circuit_event_backend e)))"
  shows "filter (\<lambda>(e, r). circuit_event_backend e = (n, us_host s, us_port s)) (fst (run_events circuit_exec es m)) =
           fst (run_events circuit_exec (filter (\<lambda>e. circuit_event_backend e = (n, us_host s, us_port s)) es) m) \<and>
         circuit_at (snd (run_events circuit_exec es m)) (circuit_key n s) =
           circuit_at (snd (run_events circuit_exec
             (filter (\<lambda>e. circuit_event_backend e = (n, us_host s, us_port s)) es) m)) (circuit_key n s)"
proof -
  let ?mine = "\<lambda>e. circuit_event_backend e = (n, us_host s, us_port s)"
  have same: "circuit_event_key e = circuit_key n s \<longleftrightarrow> ?mine e" if "e \<in> set es" for e
    using assms that event_key_backend by blast
  have "filter (\<lambda>e. circuit_event_key e = circuit_key n s) es = filter ?mine es"
    using same by (intro filter_cong) simp_all
  moreover have "filter (\<lambda>(e, r). circuit_event_key e = circuit_key n s) (fst (run_events circuit_exec es m)) =
      filter (\<lambda>(e, r). ?mine e) (fst (run_events circuit_exec es m))"
    using same run_events_trace [of _ _ circuit_exec es m] by (intro filter_cong) auto
  ultimately show ?thesis
    using brk.noninterference [of m "circuit_key n s" m es] by simp
qed

theorem circuit_isolation_witness:
  "CHR ''|'' \<notin> set (us_host sample_server) \<and>
   circuit_at (snd (run_events circuit_exec
       [Fail ''g'' sample_server 1 5, Fail ''h'' sample_server 1 9] (manager_new upstream_config_default)))
     (circuit_key ''g'' sample_server) =
   circuit_at (snd (run_events circuit_exec [Fail ''g'' sample_server 1 5] (manager_new upstream_config_default)))
     (circuit_key ''g'' sample_server)"
  using circuit_isolation [of sample_server "[Fail ''g'' sample_server 1 5, Fail ''h'' sample_server 1 9]" "''g''"
      "manager_new upstream_config_default"]
  by (simp add: sample_server_def)

text \<open>selection succeeds for every non-empty group, returns one of its servers, and never an
  unhealthy one while a healthy one exists.\<close>

theorem pick_server_healthy:
  assumes "map_of (uc_upstreams (um_config m)) n = Some up" "up_servers up \<noteq> []"
  shows "\<exists>s. fst (pick_server n m) = Some s \<and> s \<in> set (up_servers up) \<and>
           (us_healthy s \<or> (\<forall>s' \<in> set (up_servers up). \<not> us_healthy s'))"
proof -
  let ?ss = "up_servers up" and ?idx = "unat (rr_index n m) mod length (up_servers up)"
  have idx: "?idx < length ?ss" using assms(2) by simp
  show ?thesis
  proof (cases "first_healthy ?ss ?idx [0..<length ?ss]")
    case None
    then have "\<not> us_healthy (?ss ! j)" if "j < length ?ss" for j
      using first_healthy_complete [OF that _ idx] by blast
    then show ?thesis
      using None idx by (auto simp: pick_server_eq [OF assms] Let_def in_set_conv_nth)
  next
    case (Some c)
    then show ?thesis
      using first_healthy_Some [OF Some assms(2)] by (auto simp: pick_server_eq [OF assms] Let_def)
  qed
qed

definition sample_group :: upstream where
  "sample_group = upstream_default\<lparr>up_servers := [sample_server\<lparr>us_healthy := False\<rparr>, sample_server]\<rparr>"

definition sample_manager :: upstream_manager where
  "sample_manager = manager_new (upstream_config_default\<lparr>uc_upstreams := [(''g'', sample_group)]\<rparr>)"

text \<open>C15: round robin is fair. When all servers of a group are healthy, as many consecutive
  picks as the group has servers return every server exactly once, from any position of the
  64-bit counter that does not wrap in between.\<close>

theorem round_robin_fair:
  assumes "map_of (uc_upstreams (um_config m)) n = Some up" "up_servers up \<noteq> []"
    and "\<forall>s \<in> set (up_servers up). us_healthy s"
    and "unat (rr_index n m) + length (up_servers up) \<le> 2 ^ 64"
  shows "mset (picks (length (up_servers up)) n m) = image_mset Some (mset (up_servers up))"
proof -
  have "picks (length (up_servers up)) n m = map Some (rotate (unat (rr_index n m)) (up_servers up))"
    unfolding picks_all_healthy [OF assms] rotate_as_map [symmetric] by simp
  then show ?thesis
    by (simp add: mset_rotate_eq)
qed

theorem round_robin_fair_witness:
  "mset (picks 1 ''g'' (manager_new (upstream_config_default\<lparr>uc_upstreams :=
     [(''g'', upstream_default\<lparr>up_servers := [sample_server]\<rparr>)]\<rparr>))) = {#Some sample_server#}"
  using round_robin_fair [of "manager_new (upstream_config_default\<lparr>uc_upstreams :=
      [(''g'', upstream_default\<lparr>up_servers := [sample_server]\<rparr>)]\<rparr>)" "''g''"
      "upstream_default\<lparr>up_servers := [sample_server]\<rparr>"]
  by (simp add: manager_new_def upstream_default_def upstream_config_default_def sample_server_def
      upstream_server_default_def rr_index_def)



end
