(* ===== verification/Lru_Store.thy ===== *)
theory Lru_Store
  imports Gateway_Prelude
begin

text \<open>
  The contract of a least-recently-used cache: a bounded store in which every use of a key makes
  it the most recent one and evicts from the other end. The lemma proved from the contract says
  that such a store holds exactly the most recently used keys. \<^verbatim>\<open>File_Cache\<close> and \<^verbatim>\<open>Fd_Cache\<close>
  interpret it.
\<close>

text \<open>The keys by recency of their last use, most recent first.\<close>

definition recency :: "'k list \<Rightarrow> 'k list \<Rightarrow> 'k list" where
  "recency us start = fold (\<lambda>k R. k # removeAll k R) us start"

lemma removeAll_take_distinct:
  assumes "distinct R"
  shows "take n (removeAll k (take (Suc n) R)) = take n (removeAll k R)"
  using assms
proof (induction R arbitrary: n)
  case (Cons x xs)
  show ?case
  proof (cases "x = k")
    case True
    then have "k \<notin> set xs" "k \<notin> set (take n xs)"
      using Cons.prems by (auto dest: in_set_takeD)
    with True show ?thesis by simp
  next
    case False
    with Cons show ?thesis by (cases n) simp_all
  qed
qed simp

locale lru_store =
  fixes inv :: "'s \<Rightarrow> bool"
    and keys :: "'s \<Rightarrow> 'k list"
    and limit :: "'s \<Rightarrow> nat"
    and admissible :: "'s \<Rightarrow> 'p \<Rightarrow> bool"
    and "use" :: "'k \<Rightarrow> 'p \<Rightarrow> 's \<Rightarrow> 's"
  assumes inv_keys: "inv s \<Longrightarrow> distinct (keys s) \<and> length (keys s) \<le> limit s \<and> 0 < limit s"
    and use_inv: "\<lbrakk>inv s; admissible s p\<rbrakk> \<Longrightarrow> inv (use k p s)"
    and use_keys: "\<lbrakk>inv s; admissible s p\<rbrakk> \<Longrightarrow>
          keys (use k p s) = k # take (limit s - 1) (removeAll k (keys s))"
    and use_limit: "\<lbrakk>inv s; admissible s p\<rbrakk> \<Longrightarrow> limit (use k p s) = limit s"
    and use_admissible: "\<lbrakk>inv s; admissible s p\<rbrakk> \<Longrightarrow> admissible (use k p s) q = admissible s q"
begin

lemma keeps_most_recent:
  assumes "inv s" "list_all (\<lambda>(k, p). admissible s p) us" "distinct R" "keys s = take (limit s) R"
  shows "keys (fold (\<lambda>(k, p). use k p) us s) = take (limit s) (recency (map fst us) R)"
  using assms
proof (induction us arbitrary: s R)
  case (Cons u us)
  obtain k p where u: "u = (k, p)" by fastforce
  obtain n where n: "limit s = Suc n"
    using inv_keys [OF Cons.prems(1)] by (cases "limit s") auto
  have step: "inv (use k p s)" "limit (use k p s) = limit s" "\<And>q. admissible (use k p s) q = admissible s q"
    using use_inv [of s p k] use_limit [of s p k] use_admissible [of s p k] Cons.prems u by auto
  have "keys (use k p s) = k # take n (removeAll k (take (Suc n) R))"
    using use_keys [OF Cons.prems(1), of p k] Cons.prems u n by simp
  then have "keys (use k p s) = take (limit (use k p s)) (k # removeAll k R)"
    by (simp add: removeAll_take_distinct [OF Cons.prems(3)] step n)
  then have "keys (fold (\<lambda>(k, p). use k p) us (use k p s)) =
      take (limit (use k p s)) (recency (map fst us) (k # removeAll k R))"
    using Cons.prems u by (intro Cons.IH) (simp_all add: step distinct_removeAll)
  then show ?case
    by (simp add: u recency_def step)
qed (simp add: recency_def)

end

end
