(* ===== verification/File_Cache.thy ===== *)
theory File_Cache
  imports Lru_Store
begin

text \<open>
  The cache of file contents (\<^verbatim>\<open>file_cache.h\<close>, \<^verbatim>\<open>file_cache.cpp\<close>): a list of entries, most
  recently used first, and an index from paths to list positions. An index entry is an iterator
  to the list element of that path, so the index is modelled by its set of paths (a list without
  repetition); the invariant says that it holds exactly the paths of the list.
\<close>

subsection \<open>Operations\<close>

record cache_entry =
  ce_content :: string
  ce_size :: size_t
  ce_mtime :: int

record file_cache =
  fc_max_entries :: size_t
  fc_max_file_size :: size_t
  fc_list :: "(string \<times> cache_entry) list"
  fc_map :: "string list"

definition file_cache_create :: "size_t \<Rightarrow> size_t \<Rightarrow> file_cache" where
  "file_cache_create max_entries max_file_size_mb =
     \<lparr>fc_max_entries = max_entries, fc_max_file_size = max_file_size_mb * 1024 * 1024,
      fc_list = [], fc_map = []\<rparr>"

definition erase_entry :: "string \<Rightarrow> (string \<times> 'v) list \<Rightarrow> (string \<times> 'v) list" where
  "erase_entry path l = filter (\<lambda>x. fst x \<noteq> path) l"

text \<open>\<^verbatim>\<open>list_.splice(list_.begin(), list_, it)\<close> for the element of \<^verbatim>\<open>path\<close>, with its new value.\<close>

definition splice_front :: "string \<Rightarrow> 'v \<Rightarrow> (string \<times> 'v) list \<Rightarrow> (string \<times> 'v) list" where
  "splice_front path v l = (path, v) # erase_entry path l"

definition file_cache_get :: "string \<Rightarrow> int \<Rightarrow> file_cache \<Rightarrow> string option \<times> file_cache" where
  "file_cache_get path file_mtime c =
     (if path \<in> set (fc_map c) then
        (let entry = the (map_of (fc_list c) path)
         in if file_mtime = 0 \<or> ce_mtime entry = file_mtime
            then (Some (ce_content entry), c\<lparr>fc_list := splice_front path entry (fc_list c)\<rparr>)
            else (None, c\<lparr>fc_list := erase_entry path (fc_list c), fc_map := removeAll path (fc_map c)\<rparr>))
      else (None, c))"

text \<open>\<^verbatim>\<open>back()\<close> of an empty list is undefined; it is reached only with a limit of zero entries
  (the model drops nothing there, and the invariant asks for a positive limit).\<close>

definition evict_last :: "file_cache \<Rightarrow> file_cache" where
  "evict_last c =
     (if fc_list c = [] then c
      else c\<lparr>fc_map := removeAll (fst (last (fc_list c))) (fc_map c), fc_list := butlast (fc_list c)\<rparr>)"

definition file_cache_put :: "string \<Rightarrow> string \<Rightarrow> size_t \<Rightarrow> int \<Rightarrow> file_cache \<Rightarrow> file_cache" where
  "file_cache_put path content sz mtime c =
     (let e = \<lparr>ce_content = content, ce_size = sz, ce_mtime = mtime\<rparr>
      in if sz > fc_max_file_size c then c
         else if path \<in> set (fc_map c) then c\<lparr>fc_list := splice_front path e (fc_list c)\<rparr>
         else
           (let c1 = (if length (fc_list c) \<ge> fc_max_entries c then evict_last c else c)
            in c1\<lparr>fc_list := (path, e) # fc_list c1, fc_map := path # fc_map c1\<rparr>))"

definition file_cache_clear :: "file_cache \<Rightarrow> file_cache" where
  "file_cache_clear c = c\<lparr>fc_list := [], fc_map := []\<rparr>"

definition file_cache_size :: "file_cache \<Rightarrow> size_t" where
  "file_cache_size c = length (fc_list c)"

subsection \<open>The invariant\<close>

definition fc_keys :: "file_cache \<Rightarrow> string list" where
  "fc_keys c = map fst (fc_list c)"

definition file_cache_inv :: "file_cache \<Rightarrow> bool" where
  "file_cache_inv c \<longleftrightarrow> distinct (fc_keys c) \<and> set (fc_map c) = set (fc_keys c) \<and>
     length (fc_list c) \<le> fc_max_entries c \<and> 0 < fc_max_entries c \<and>
     (\<forall>e \<in> snd ` set (fc_list c). ce_size e \<le> fc_max_file_size c)"

lemma keys_erase [simp]: "map fst (erase_entry path l) = removeAll path (map fst l)"
  by (induction l) (auto simp: erase_entry_def)

lemma lookup_erase [simp]: "map_of (erase_entry path l) k = (if k = path then None else map_of l k)"
  by (induction l) (auto simp: erase_entry_def)

lemma length_erase: "length (erase_entry path l) \<le> length l"
  by (simp add: erase_entry_def)

lemma length_erase_mem: "path \<in> set (map fst l) \<Longrightarrow> length (erase_entry path l) < length l"
  unfolding erase_entry_def by (rule length_filter_less [of "(path, the (map_of l path))"]) (auto simp: map_of_SomeD weak_map_of_SomeI)

lemma set_erase: "set (erase_entry path l) \<subseteq> set l"
  by (simp add: erase_entry_def)

lemma file_cache_create_inv: "0 < n \<Longrightarrow> file_cache_inv (file_cache_create n mb)"
  by (simp add: file_cache_inv_def file_cache_create_def fc_keys_def)

lemma length_removeAll_distinct:
  "distinct xs \<Longrightarrow> length (removeAll x xs) = (if x \<in> set xs then length xs - 1 else length xs)"
  by (simp add: distinct_remove1_removeAll [symmetric] length_remove1)

lemma fc_keys_put:
  assumes "file_cache_inv c" "sz \<le> fc_max_file_size c"
  shows "fc_keys (file_cache_put path content sz mtime c) =
           path # take (fc_max_entries c - 1) (removeAll path (fc_keys c))"
proof (cases "path \<in> set (fc_map c)")
  case True
  then have "path \<in> set (fc_keys c)" using assms(1) by (simp add: file_cache_inv_def)
  then have "length (removeAll path (fc_keys c)) \<le> fc_max_entries c - 1"
    using assms(1) by (auto simp: file_cache_inv_def length_removeAll_distinct) (simp add: fc_keys_def)
  with True assms(2) show ?thesis
    by (simp add: file_cache_put_def splice_front_def fc_keys_def)
next
  case False
  have "length (fc_list c) \<le> fc_max_entries c" "0 < fc_max_entries c" "path \<notin> set (fc_keys c)"
    using False assms(1) by (auto simp: file_cache_inv_def)
  with False assms(2) show ?thesis
    by (auto simp: file_cache_put_def evict_last_def fc_keys_def butlast_conv_take take_map not_le Let_def)
qed

lemma fc_put_limits [simp]:
  "fc_max_entries (file_cache_put path content sz mtime c) = fc_max_entries c"
  "fc_max_file_size (file_cache_put path content sz mtime c) = fc_max_file_size c"
  by (simp_all add: file_cache_put_def evict_last_def Let_def)

lemma fc_get_limits [simp]:
  "fc_max_entries (snd (file_cache_get path mt c)) = fc_max_entries c"
  "fc_max_file_size (snd (file_cache_get path mt c)) = fc_max_file_size c"
  by (simp_all add: file_cache_get_def Let_def)

lemma evict_last_index:
  assumes "distinct (fc_keys c)" "set (fc_map c) = set (fc_keys c)"
  shows "set (fc_map (evict_last c)) = set (fc_keys (evict_last c))"
proof (cases "fc_list c" rule: rev_cases)
  case (snoc xs x)
  then have "fst x \<notin> fst ` set xs" using assms(1) by (simp add: fc_keys_def)
  with snoc assms(2) show ?thesis by (auto simp: evict_last_def fc_keys_def)
qed (use assms in \<open>simp add: evict_last_def\<close>)

lemma fc_put_entries:
  "set (fc_list (file_cache_put path content sz mtime c)) \<subseteq>
     insert (path, \<lparr>ce_content = content, ce_size = sz, ce_mtime = mtime\<rparr>) (set (fc_list c))"
  using set_erase [of path "fc_list c"]
  by (auto simp: file_cache_put_def evict_last_def splice_front_def Let_def dest: in_set_butlastD)

lemma fc_put_oversize: "fc_max_file_size c < sz \<Longrightarrow> file_cache_put path content sz mtime c = c"
  by (simp add: file_cache_put_def)

lemma file_cache_put_inv [inv_intros]:
  assumes "file_cache_inv c"
  shows "file_cache_inv (file_cache_put path content sz mtime c)" (is "file_cache_inv ?c")
proof (cases "sz \<le> fc_max_file_size c")
  case True
  have keys: "fc_keys ?c = path # take (fc_max_entries c - 1) (removeAll path (fc_keys c))"
    by (rule fc_keys_put [OF assms True])
  have "distinct (fc_keys ?c)"
    using assms keys by (auto simp: file_cache_inv_def distinct_removeAll dest: in_set_takeD)
  moreover have "length (fc_keys ?c) \<le> fc_max_entries c"
    unfolding keys using assms by (auto simp: file_cache_inv_def)
  moreover have "set (fc_map ?c) = set (fc_keys ?c)"
    using assms True evict_last_index [of c]
    by (auto simp: file_cache_put_def file_cache_inv_def Let_def splice_front_def fc_keys_def erase_entry_def)
  moreover have "\<forall>e \<in> snd ` set (fc_list ?c). ce_size e \<le> fc_max_file_size c"
    using fc_put_entries [of path content sz mtime c] assms True
    by (fastforce simp: file_cache_inv_def)
  ultimately show ?thesis using assms by (simp add: file_cache_inv_def fc_keys_def [of ?c])
qed (use assms in \<open>simp add: fc_put_oversize not_le\<close>)

lemma file_cache_inv_erase:
  assumes "file_cache_inv c"
  shows "file_cache_inv (c\<lparr>fc_list := erase_entry path (fc_list c), fc_map := removeAll path (fc_map c)\<rparr>)"
  using assms set_erase [of path "fc_list c"] length_erase [of path "fc_list c"]
  by (auto simp: file_cache_inv_def fc_keys_def distinct_removeAll)

lemma file_cache_inv_splice:
  assumes "file_cache_inv c" "map_of (fc_list c) path = Some e"
  shows "file_cache_inv (c\<lparr>fc_list := splice_front path e (fc_list c)\<rparr>)"
proof -
  have mem: "(path, e) \<in> set (fc_list c)" using assms(2) by (rule map_of_SomeD)
  then have "path \<in> set (map fst (fc_list c))" by force
  then have "length (erase_entry path (fc_list c)) < length (fc_list c)" by (rule length_erase_mem)
  moreover have "ce_size e \<le> fc_max_file_size c" using assms(1) mem by (force simp: file_cache_inv_def)
  ultimately show ?thesis
    using assms(1) set_erase [of path "fc_list c"] \<open>path \<in> set (map fst (fc_list c))\<close>
    by (auto simp: file_cache_inv_def fc_keys_def splice_front_def distinct_removeAll)
qed

lemma file_cache_index:
  assumes "file_cache_inv c" "path \<in> set (fc_map c)"
  obtains e where "map_of (fc_list c) path = Some e"
proof -
  have "path \<in> fst ` set (fc_list c)" using assms by (simp add: file_cache_inv_def fc_keys_def)
  then show ?thesis using that by (fastforce dest: weak_map_of_SomeI)
qed

lemma file_cache_get_inv [inv_intros]:
  assumes "file_cache_inv c"
  shows "file_cache_inv (snd (file_cache_get path mt c))"
proof (cases "path \<in> set (fc_map c)")
  case True
  then obtain e where "map_of (fc_list c) path = Some e" by (rule file_cache_index [OF assms])
  with True assms show ?thesis
    by (simp add: file_cache_get_def Let_def file_cache_inv_erase file_cache_inv_splice)
qed (use assms in \<open>simp add: file_cache_get_def\<close>)

interpretation fclru: lru_store file_cache_inv fc_keys fc_max_entries
  "\<lambda>c (content, sz, mtime). sz \<le> fc_max_file_size c"
  "\<lambda>path (content, sz, mtime). file_cache_put path content sz mtime"
  by unfold_locales (auto simp: fc_keys_put file_cache_put_inv, auto simp: file_cache_inv_def fc_keys_def)

subsection \<open>Sequences of operations\<close>

datatype fc_event = FcGet string int | FcPut string string size_t int | FcClear

fun fc_exec :: "fc_event \<Rightarrow> file_cache \<Rightarrow> file_cache" where
  "fc_exec (FcGet path mt) c = snd (file_cache_get path mt c)"
| "fc_exec (FcPut path content sz mt) c = file_cache_put path content sz mt c"
| "fc_exec FcClear c = file_cache_clear c"

text \<open>What was stored last for a path, with its modification time: the specification of the cache
  as if it never evicted.\<close>

fun latest_put :: "size_t \<Rightarrow> string \<Rightarrow> fc_event list \<Rightarrow> (string \<times> int) option \<Rightarrow> (string \<times> int) option" where
  "latest_put cap path [] r = r"
| "latest_put cap path (FcPut p content sz mt # es) r =
     latest_put cap path es (if p = path \<and> sz \<le> cap then Some (content, mt) else r)"
| "latest_put cap path (e # es) r = latest_put cap path es r"

definition coherent :: "file_cache \<Rightarrow> string \<Rightarrow> (string \<times> int) option \<Rightarrow> bool" where
  "coherent c path r \<longleftrightarrow>
     (\<forall>e. map_of (fc_list c) path = Some e \<longrightarrow> r = Some (ce_content e, ce_mtime e))"

lemma map_of_butlast: "distinct (map fst l) \<Longrightarrow> map_of (butlast l) k = Some v \<Longrightarrow> map_of l k = Some v"
  by (cases l rule: rev_cases) (auto simp: map_of_append map_add_def split: option.splits)

lemma lookup_get:
  assumes "map_of (fc_list (snd (file_cache_get path mt c))) k = Some e" "file_cache_inv c"
  shows "map_of (fc_list c) k = Some e"
proof (cases "path \<in> set (fc_map c)")
  case True
  then obtain e0 where "map_of (fc_list c) path = Some e0" by (rule file_cache_index [OF assms(2)])
  with True assms(1) show ?thesis
    by (auto simp: file_cache_get_def Let_def splice_front_def split: if_splits)
qed (use assms in \<open>simp add: file_cache_get_def\<close>)

lemma lookup_evict:
  "\<lbrakk>file_cache_inv c; map_of (fc_list (evict_last c)) k = Some e\<rbrakk> \<Longrightarrow> map_of (fc_list c) k = Some e"
  using map_of_butlast [of "fc_list c" k e] by (auto simp: evict_last_def file_cache_inv_def fc_keys_def split: if_splits)

lemma lookup_put:
  assumes "map_of (fc_list (file_cache_put path content sz mt c)) k = Some e" "file_cache_inv c"
  shows "if k = path \<and> sz \<le> fc_max_file_size c
         then e = \<lparr>ce_content = content, ce_size = sz, ce_mtime = mt\<rparr>
         else map_of (fc_list c) k = Some e"
proof (cases "k = path \<and> sz \<le> fc_max_file_size c")
  case True
  then show ?thesis using assms(1) by (simp add: file_cache_put_def Let_def splice_front_def split: if_splits)
next
  case False
  consider "fc_max_file_size c < sz" | "sz \<le> fc_max_file_size c" "k \<noteq> path"
    using False by linarith
  then show ?thesis
  proof cases
    case 1
    then show ?thesis using assms(1) False by (simp add: fc_put_oversize)
  next
    case 2
    then show ?thesis
      using assms(1) lookup_evict [OF assms(2), of k e]
      by (simp add: file_cache_put_def Let_def splice_front_def split: if_splits)
  qed
qed

lemma coherent_get:
  "\<lbrakk>file_cache_inv c; coherent c path r\<rbrakk> \<Longrightarrow> coherent (snd (file_cache_get p mt c)) path r"
  unfolding coherent_def by (metis lookup_get)

lemma coherent_put:
  assumes "file_cache_inv c" "coherent c path r"
  shows "coherent (file_cache_put p content sz mt c) path
           (if p = path \<and> sz \<le> fc_max_file_size c then Some (content, mt) else r)"
  unfolding coherent_def
proof (intro allI impI)
  fix e assume "map_of (fc_list (file_cache_put p content sz mt c)) path = Some e"
  from lookup_put [OF this assms(1)] assms(2)
  show "(if p = path \<and> sz \<le> fc_max_file_size c then Some (content, mt) else r) = Some (ce_content e, ce_mtime e)"
    by (auto simp: coherent_def split: if_splits)
qed

lemma coherent_run:
  assumes "file_cache_inv c" "coherent c path r"
  shows "coherent (fold fc_exec es c) path (latest_put (fc_max_file_size c) path es r) \<and>
         file_cache_inv (fold fc_exec es c)"
  using assms
proof (induction es arbitrary: c r)
  case (Cons e es)
  note IH = Cons.IH and inv = Cons.prems(1) and coh = Cons.prems(2)
  show ?case
  proof (cases e)
    case (FcGet p mt)
    show ?thesis
      using IH [OF file_cache_get_inv [OF inv] coherent_get [OF inv coh], of p mt] by (simp add: FcGet)
  next
    case (FcPut p content sz mt)
    show ?thesis
      using IH [OF file_cache_put_inv [OF inv] coherent_put [OF inv coh], of p content sz mt] by (simp add: FcPut)
  next
    case FcClear
    have "coherent (file_cache_clear c) path r" "file_cache_inv (file_cache_clear c)"
         "fc_max_file_size (file_cache_clear c) = fc_max_file_size c"
      using inv by (auto simp: coherent_def file_cache_clear_def file_cache_inv_def fc_keys_def)
    then show ?thesis using IH [of "file_cache_clear c" r] by (simp add: FcClear)
  qed
qed simp

subsection \<open>Properties\<close>

text \<open>C20: the file cache is coherent. After any sequence of lookups, insertions and clears, a hit
  returns the content of the last accepted insertion of that path, and its modification time is the
  one asked for unless the caller skips the check with zero; the cache never holds more than its
  limit of entries.\<close>

theorem file_cache_coherent:
  assumes "0 < n" "fst (file_cache_get path mt (fold fc_exec es (file_cache_create n mb))) = Some content"
  shows "(\<exists>m. latest_put (mb * 1024 * 1024) path es None = Some (content, m) \<and> (mt = 0 \<or> m = mt)) \<and>
         file_cache_size (fold fc_exec es (file_cache_create n mb)) \<le>
           fc_max_entries (fold fc_exec es (file_cache_create n mb))"
proof -
  let ?c = "fold fc_exec es (file_cache_create n mb)"
  have c: "coherent ?c path (latest_put (mb * 1024 * 1024) path es None)" "file_cache_inv ?c"
    using coherent_run [OF file_cache_create_inv [OF assms(1), of mb], of path None]
    by (simp_all add: coherent_def file_cache_create_def)
  have mem: "path \<in> set (fc_map ?c)" using assms(2) by (auto simp: file_cache_get_def split: if_splits)
  then obtain e where "map_of (fc_list ?c) path = Some e" by (rule file_cache_index [OF c(2)])
  with mem assms(2) c show ?thesis
    by (auto simp: file_cache_get_def Let_def coherent_def file_cache_size_def file_cache_inv_def split: if_splits)
qed

theorem file_cache_coherent_witness:
  "(\<exists>m. latest_put (1 * 1024 * 1024) ''/a'' [FcPut ''/a'' ''old'' 3 5, FcPut ''/a'' ''new'' 3 7] None =
          Some (''new'', m) \<and> (7 = (0 :: int) \<or> m = 7)) \<and>
   file_cache_size (fold fc_exec [FcPut ''/a'' ''old'' 3 5, FcPut ''/a'' ''new'' 3 7] (file_cache_create 2 1)) \<le>
   fc_max_entries (fold fc_exec [FcPut ''/a'' ''old'' 3 5, FcPut ''/a'' ''new'' 3 7] (file_cache_create 2 1))"
  by (rule file_cache_coherent)
     (simp_all add: file_cache_create_def file_cache_put_def file_cache_get_def splice_front_def erase_entry_def)

text \<open>the file cache evicts the least recently stored path: after any sequence of accepted
  insertions it holds exactly the most recent distinct paths, most recent first, as many as its
  limit allows.\<close>

theorem file_cache_lru:
  assumes "0 < n" "\<forall>(path, content, sz, mt) \<in> set ps. sz \<le> mb * 1024 * 1024"
  shows "fc_keys (fold (\<lambda>(path, content, sz, mt). file_cache_put path content sz mt) ps (file_cache_create n mb)) =
           take n (recency (map fst ps) [])"
  using fclru.keeps_most_recent [OF file_cache_create_inv [OF assms(1), of mb], of ps "[]"] assms(2)
  by (auto simp: list_all_iff file_cache_create_def fc_keys_def case_prod_unfold)

end
