(* ===== verification/Fd_Cache.thy ===== *)
theory Fd_Cache
  imports Lru_Store
begin

text \<open>
  The cache of open file descriptors (\<^verbatim>\<open>fd_cache.h\<close>, \<^verbatim>\<open>fd_cache.cpp\<close>): a list of paths, most
  recently used first, and a map from paths to descriptors. The iterator \<^verbatim>\<open>lru_it\<close> of an entry
  points to its path in the list, so splicing and erasing it are operations on the path. The cache
  owns its descriptors: every operation returns the descriptors it passes to \<^verbatim>\<open>close\<close>.
\<close>

subsection \<open>Operations\<close>

record cached_fd =
  cf_fd :: int
  cf_file_size :: int
  cf_mtime :: int
  cf_validated_at :: int

record fd_cache =
  fdc_max_entries :: size_t
  fdc_ttl_sec :: int
  fdc_list :: "string list"
  fdc_map :: "(string \<times> cached_fd) list"

definition fd_cache_create :: "size_t \<Rightarrow> int \<Rightarrow> fd_cache" where
  "fd_cache_create max_entries ttl_sec =
     \<lparr>fdc_max_entries = max_entries, fdc_ttl_sec = ttl_sec, fdc_list = [], fdc_map = []\<rparr>"

definition fd_clear :: "fd_cache \<Rightarrow> int list \<times> fd_cache" where
  "fd_clear c = (map (\<lambda>(path, entry). cf_fd entry) (fdc_map c), c\<lparr>fdc_map := [], fdc_list := []\<rparr>)"

definition fd_size :: "fd_cache \<Rightarrow> size_t" where
  "fd_size c = length (fdc_list c)"

definition lru_splice :: "string \<Rightarrow> fd_cache \<Rightarrow> fd_cache" where
  "lru_splice path c = c\<lparr>fdc_list := path # remove1 path (fdc_list c)\<rparr>"

definition lru_erase :: "string \<Rightarrow> fd_cache \<Rightarrow> fd_cache" where
  "lru_erase path c = c\<lparr>fdc_list := remove1 path (fdc_list c), fdc_map := AList.delete path (fdc_map c)\<rparr>"

text \<open>The second component is what a hit writes to the output parameters: file size and mtime.\<close>

definition fd_try_get :: "string \<Rightarrow> int \<Rightarrow> fd_cache \<Rightarrow> (int \<times> (int \<times> int) option) \<times> fd_cache" where
  "fd_try_get path now c =
     (case map_of (fdc_map c) path of
        None \<Rightarrow> ((-1, None), c)
      | Some e \<Rightarrow>
          (if now - cf_validated_at e < fdc_ttl_sec c
           then ((cf_fd e, Some (cf_file_size e, cf_mtime e)), lru_splice path c)
           else ((-1, None), c)))"

definition fd_validate :: "string \<Rightarrow> int \<Rightarrow> int \<Rightarrow> fd_cache \<Rightarrow> int \<times> int list \<times> fd_cache" where
  "fd_validate path mtime now c =
     (case map_of (fdc_map c) path of
        None \<Rightarrow> (-1, [], c)
      | Some e \<Rightarrow>
          (if cf_mtime e \<noteq> mtime then (-1, [cf_fd e], lru_erase path c)
           else (cf_fd e, [],
             lru_splice path (c\<lparr>fdc_map := put path (e\<lparr>cf_validated_at := now\<rparr>) (fdc_map c)\<rparr>))))"

text \<open>The eviction loop of \<^verbatim>\<open>put\<close>. With a limit of zero entries it reaches \<^verbatim>\<open>back()\<close> of an empty
  list, which is undefined behaviour: the value \<^term>\<open>None\<close>.\<close>

function fd_evict :: "fd_cache \<Rightarrow> (int list \<times> fd_cache) option" where
  "fd_evict c =
     (if length (fdc_list c) < fdc_max_entries c then Some ([], c)
      else if fdc_list c = [] then None
      else
        (let last_path = last (fdc_list c);
             c1 = c\<lparr>fdc_list := butlast (fdc_list c)\<rparr>;
             (gone, c2) =
               (case map_of (fdc_map c) last_path of
                  None \<Rightarrow> ([], c1)
                | Some e \<Rightarrow> ([cf_fd e], c1\<lparr>fdc_map := AList.delete last_path (fdc_map c1)\<rparr>))
         in map_option (\<lambda>(cl, c3). (gone @ cl, c3)) (fd_evict c2)))"
  by pat_completeness auto
termination
  by (relation "measure (\<lambda>c. length (fdc_list c))")
     (auto split: option.splits prod.splits)

declare fd_evict.simps [simp del]

definition fd_put :: "string \<Rightarrow> int \<Rightarrow> int \<Rightarrow> int \<Rightarrow> int \<Rightarrow> fd_cache \<Rightarrow> (int list \<times> fd_cache) option" where
  "fd_put path fd mtime file_size now c =
     (let (gone, c1) =
            (case map_of (fdc_map c) path of
               None \<Rightarrow> ([], c)
             | Some e \<Rightarrow> ([cf_fd e], lru_erase path c))
      in case fd_evict c1 of
           None \<Rightarrow> None
         | Some (cl, c2) \<Rightarrow>
             Some (gone @ cl,
               c2\<lparr>fdc_list := path # fdc_list c2,
                  fdc_map := put path \<lparr>cf_fd = fd, cf_file_size = file_size, cf_mtime = mtime,
                                       cf_validated_at = now\<rparr> (fdc_map c2)\<rparr>))"

subsection \<open>The invariant\<close>

definition fd_cache_inv :: "fd_cache \<Rightarrow> bool" where
  "fd_cache_inv c \<longleftrightarrow> distinct (fdc_list c) \<and> distinct (map fst (fdc_map c)) \<and>
     set (fdc_list c) = fst ` set (fdc_map c) \<and>
     length (fdc_list c) \<le> fdc_max_entries c \<and> 0 < fdc_max_entries c"

definition held_fds :: "fd_cache \<Rightarrow> int multiset" where
  "held_fds c = image_mset (\<lambda>(path, e). cf_fd e) (mset (fdc_map c))"

lemma fd_cache_create_inv: "0 < n \<Longrightarrow> fd_cache_inv (fd_cache_create n ttl)"
  by (simp add: fd_cache_inv_def fd_cache_create_def)

lemma fd_index:
  assumes "fd_cache_inv c"
  shows "path \<in> set (fdc_list c) \<longleftrightarrow> map_of (fdc_map c) path \<noteq> None"
  using assms by (simp add: fd_cache_inv_def map_of_eq_None_iff)

lemma remove1_distinct [simp]: "distinct xs \<Longrightarrow> set (remove1 x xs) = set xs - {x}"
  by (simp add: set_remove1_eq)

lemma keys_delete [simp]: "fst ` set (AList.delete k m) = fst ` set m - {k}"
  by (auto simp: AList.delete_eq image_iff)

lemma mset_delete_split:
  assumes "distinct (map fst m)" "map_of m k = Some v"
  shows "mset m = add_mset (k, v) (mset (AList.delete k m))"
  using assms
proof (induction m)
  case (Cons x m)
  show ?case
  proof (cases "fst x = k")
    case True
    then have "AList.delete k m = m"
      using Cons.prems(1) unfolding AList.delete_eq by (intro filter_True) (auto simp: image_iff)
    with True Cons.prems show ?thesis by (cases x) auto
  next
    case False
    with Cons show ?thesis by (cases x) auto
  qed
qed simp

lemma held_delete:
  assumes "fd_cache_inv c" "map_of (fdc_map c) path = Some e"
  shows "held_fds c = add_mset (cf_fd e) (image_mset (\<lambda>(path, e). cf_fd e) (mset (AList.delete path (fdc_map c))))"
  using mset_delete_split [OF _ assms(2)] assms(1) by (simp add: held_fds_def fd_cache_inv_def)

lemma lru_splice_inv:
  assumes "fd_cache_inv c" "map_of (fdc_map c) path \<noteq> None"
  shows "fd_cache_inv (lru_splice path c)"
proof -
  have "path \<in> set (fdc_list c)" using fd_index [OF assms(1)] assms(2) by simp
  then show ?thesis
    using assms(1) by (auto simp: fd_cache_inv_def lru_splice_def length_remove1 length_pos_if_in_set Suc_le_eq)
qed

lemma lru_erase_inv: "fd_cache_inv c \<Longrightarrow> fd_cache_inv (lru_erase path c)"
  by (auto simp: fd_cache_inv_def lru_erase_def length_remove1)

lemma lru_erase_frame [simp]:
  "fdc_max_entries (lru_erase path c) = fdc_max_entries c" "fdc_ttl_sec (lru_erase path c) = fdc_ttl_sec c"
  by (simp_all add: lru_erase_def)

lemma fd_evict_correct:
  assumes "fd_cache_inv c"
  obtains gone c' where "fd_evict c = Some (gone, c')"
    and "fdc_list c' = take (fdc_max_entries c - 1) (fdc_list c)"
    and "fd_cache_inv c'" "length (fdc_list c') < fdc_max_entries c"
    and "held_fds c = mset gone + held_fds c'"
    and "fdc_max_entries c' = fdc_max_entries c" "fdc_ttl_sec c' = fdc_ttl_sec c"
proof (cases "length (fdc_list c) < fdc_max_entries c")
  case True
  then show ?thesis using that [of "[]" c] assms by (simp add: fd_evict.simps)
next
  case False
  then have full: "length (fdc_list c) = fdc_max_entries c" "fdc_list c \<noteq> []"
    using assms by (auto simp: fd_cache_inv_def)
  let ?p = "last (fdc_list c)"
  let ?c = "c\<lparr>fdc_list := butlast (fdc_list c), fdc_map := AList.delete ?p (fdc_map c)\<rparr>"
  obtain e where e: "map_of (fdc_map c) ?p = Some e"
    using fd_index [OF assms, of ?p] full(2) by auto
  have split: "fdc_list c = butlast (fdc_list c) @ [?p]" using full(2) by simp
  then have last: "?p \<notin> set (butlast (fdc_list c))" "set (fdc_list c) = insert ?p (set (butlast (fdc_list c)))"
    using assms unfolding fd_cache_inv_def by (metis distinct.simps(2) distinct_append distinct1_rotate rotate1.simps(2), metis Un_insert_right set_append list.simps(15) sup_bot.right_neutral empty_set)
  have inv: "fd_cache_inv ?c"
    using assms last by (auto simp: fd_cache_inv_def distinct_butlast)
  have room: "length (fdc_list ?c) < fdc_max_entries ?c" using full by (cases "fdc_list c") auto
  then have "fd_evict ?c = Some ([], ?c)" by (subst fd_evict.simps) simp
  then have run: "fd_evict c = Some ([cf_fd e], ?c)"
    using False full e by (simp add: fd_evict.simps [of c] Let_def)
  show ?thesis
    by (rule that [OF run]) (use inv full room held_delete [OF assms e] in \<open>simp_all add: butlast_conv_take held_fds_def\<close>)
qed

lemma fd_put_correct:
  assumes "fd_cache_inv c"
  obtains gone c' where "fd_put path fd mtime file_size now c = Some (gone, c')"
    and "fdc_list c' = path # take (fdc_max_entries c - 1) (removeAll path (fdc_list c))"
    and "fd_cache_inv c'"
    and "add_mset fd (held_fds c) = mset gone + held_fds c'"
    and "fdc_max_entries c' = fdc_max_entries c" "fdc_ttl_sec c' = fdc_ttl_sec c"
proof -
  obtain cl0 c1 where c1: "(case map_of (fdc_map c) path of None \<Rightarrow> ([], c)
        | Some e \<Rightarrow> ([cf_fd e], lru_erase path c)) = (cl0, c1)"
    and inv1: "fd_cache_inv c1" and list1: "fdc_list c1 = removeAll path (fdc_list c)"
    and held1: "held_fds c = mset cl0 + held_fds c1"
    and frame: "fdc_max_entries c1 = fdc_max_entries c" "fdc_ttl_sec c1 = fdc_ttl_sec c"
  proof (cases "map_of (fdc_map c) path")
    case None
    then have "removeAll path (fdc_list c) = fdc_list c" using fd_index [OF assms, of path] by simp
    with None that [of "[]" c] assms show ?thesis by simp
  next
    case (Some e)
    have "removeAll path (fdc_list c) = remove1 path (fdc_list c)"
      using assms by (simp add: distinct_remove1_removeAll fd_cache_inv_def)
    with Some that [of "[cf_fd e]" "lru_erase path c"] lru_erase_inv [OF assms] held_delete [OF assms Some]
    show ?thesis by (simp add: lru_erase_def held_fds_def)
  qed
  obtain cl2 c2 where c2: "fd_evict c1 = Some (cl2, c2)" "fd_cache_inv c2"
      "fdc_list c2 = take (fdc_max_entries c1 - 1) (fdc_list c1)" "length (fdc_list c2) < fdc_max_entries c1"
      "held_fds c1 = mset cl2 + held_fds c2" "fdc_max_entries c2 = fdc_max_entries c1"
      "fdc_ttl_sec c2 = fdc_ttl_sec c1"
    by (rule fd_evict_correct [OF inv1])
  let ?e = "\<lparr>cf_fd = fd, cf_file_size = file_size, cf_mtime = mtime, cf_validated_at = now\<rparr>"
  let ?c = "c2\<lparr>fdc_list := path # fdc_list c2, fdc_map := put path ?e (fdc_map c2)\<rparr>"
  have new: "path \<notin> set (fdc_list c2)" using c2(3) list1 by (auto dest: in_set_takeD)
  then have "path \<notin> fst ` set (fdc_map c2)" using c2(2) by (simp add: fd_cache_inv_def)
  then have map2: "put path ?e (fdc_map c2) = fdc_map c2 @ [(path, ?e)]"
    by (intro put_absent) (simp add: map_of_eq_None_iff)
  have "fd_put path fd mtime file_size now c = Some (cl0 @ cl2, ?c)"
    unfolding fd_put_def c1 by (simp add: c2(1))
  moreover have "fd_cache_inv ?c"
    using new c2(2,4,6) \<open>path \<notin> fst ` set (fdc_map c2)\<close> unfolding map2 by (auto simp: fd_cache_inv_def)
  ultimately show ?thesis
    using that [of "cl0 @ cl2" ?c] c2 list1 held1 frame by (simp add: map2 held_fds_def)
qed

lemma lru_splice_frame [simp]:
  "fdc_max_entries (lru_splice path c) = fdc_max_entries c" "fdc_map (lru_splice path c) = fdc_map c"
  "held_fds (lru_splice path c) = held_fds c"
  by (simp_all add: lru_splice_def held_fds_def)

lemma held_erase:
  "\<lbrakk>fd_cache_inv c; map_of (fdc_map c) path = Some e\<rbrakk> \<Longrightarrow>
     held_fds c = add_mset (cf_fd e) (held_fds (lru_erase path c))"
  using held_delete [of c path e] by (simp add: lru_erase_def held_fds_def [of "_\<lparr>fdc_list := _\<rparr>"] held_fds_def [of "_\<lparr>fdc_list := _, fdc_map := _\<rparr>"])

lemma fd_validate_correct:
  assumes "fd_cache_inv c" "fd_validate path mtime now c = (fd, gone, c')"
  shows "fd_cache_inv c' \<and> held_fds c = mset gone + held_fds c' \<and>
         fdc_max_entries c' = fdc_max_entries c \<and> (fd \<noteq> -1 \<longrightarrow> fd \<in># held_fds c')"
proof (cases "map_of (fdc_map c) path")
  case (Some e)
  let ?e = "e\<lparr>cf_validated_at := now\<rparr>"
  let ?c = "c\<lparr>fdc_map := put path ?e (fdc_map c)\<rparr>"
  have "fst ` set (put path ?e (fdc_map c)) = fst ` set (fdc_map c)"
    using Some map_of_SomeD [OF Some] by (force simp: AList.dom_update)
  then have inv: "fd_cache_inv ?c"
    using assms(1) by (simp add: fd_cache_inv_def AList.distinct_update)
  have held: "held_fds ?c = held_fds c" "cf_fd e \<in># held_fds c"
    using held_delete [OF inv, of path ?e] held_delete [OF assms(1) Some] by (auto simp: AList.delete_update_same)
  then show ?thesis
    using assms Some lru_erase_inv [OF assms(1), of path] lru_splice_inv [OF inv, of path] held_erase [OF assms(1) Some]
    by (auto simp: fd_validate_def split: if_splits)
qed (use assms in \<open>simp add: fd_validate_def\<close>)

lemma fd_try_get_correct:
  assumes "fd_cache_inv c" "fd_try_get path now c = ((fd, info), c')"
  shows "fd_cache_inv c' \<and> held_fds c' = held_fds c \<and> fdc_max_entries c' = fdc_max_entries c \<and>
         (fd \<noteq> -1 \<longrightarrow> fd \<in># held_fds c')"
proof (cases "map_of (fdc_map c) path")
  case (Some e)
  then have "cf_fd e \<in># held_fds c" using held_delete [OF assms(1) Some] by simp
  with Some assms lru_splice_inv [OF assms(1), of path] show ?thesis
    by (auto simp: fd_try_get_def split: if_splits)
qed (use assms in \<open>simp add: fd_try_get_def\<close>)

interpretation fdlru: lru_store fd_cache_inv fdc_list fdc_max_entries "\<lambda>c p. True"
  "\<lambda>path (fd, mtime, file_size, now) c. snd (the (fd_put path fd mtime file_size now c))"
proof unfold_locales
  fix s k and p q :: "int \<times> int \<times> int \<times> int" assume inv: "fd_cache_inv s"
  show "distinct (fdc_list s) \<and> length (fdc_list s) \<le> fdc_max_entries s \<and> 0 < fdc_max_entries s"
    using inv by (simp add: fd_cache_inv_def)
  obtain fd mtime file_size now where p: "p = (fd, mtime, file_size, now)" by (cases p)
  obtain gone c' where "fd_put k fd mtime file_size now s = Some (gone, c')"
      "fdc_list c' = k # take (fdc_max_entries s - 1) (removeAll k (fdc_list s))" "fd_cache_inv c'"
      "fdc_max_entries c' = fdc_max_entries s"
    by (rule fd_put_correct [OF inv])
  then show "fd_cache_inv ((case p of (fd, mtime, file_size, now) \<Rightarrow> \<lambda>c. snd (the (fd_put k fd mtime file_size now c))) s)"
    "fdc_list ((case p of (fd, mtime, file_size, now) \<Rightarrow> \<lambda>c. snd (the (fd_put k fd mtime file_size now c))) s) =
       k # take (fdc_max_entries s - 1) (removeAll k (fdc_list s))"
    "fdc_max_entries ((case p of (fd, mtime, file_size, now) \<Rightarrow> \<lambda>c. snd (the (fd_put k fd mtime file_size now c))) s) =
       fdc_max_entries s"
    by (simp_all add: p)
qed simp

subsection \<open>Sequences of operations\<close>

datatype fd_event =
    FdTryGet string int
  | FdValidate string int int
  | FdPut string int int int int
  | FdClear

fun fd_exec :: "fd_event \<Rightarrow> fd_cache \<Rightarrow> (int list \<times> fd_cache) option" where
  "fd_exec (FdTryGet path now) c = Some ([], snd (fd_try_get path now c))"
| "fd_exec (FdValidate path mtime now) c = Some (snd (fd_validate path mtime now c))"
| "fd_exec (FdPut path fd mtime file_size now) c = fd_put path fd mtime file_size now c"
| "fd_exec FdClear c = Some (fd_clear c)"

fun fd_run :: "fd_event list \<Rightarrow> fd_cache \<Rightarrow> (int list \<times> fd_cache) option" where
  "fd_run [] c = Some ([], c)"
| "fd_run (e # es) c =
     (case fd_exec e c of
        None \<Rightarrow> None
      | Some (gone, c1) \<Rightarrow> map_option (\<lambda>(more, c2). (gone @ more, c2)) (fd_run es c1))"

fun fd_inserted :: "fd_event \<Rightarrow> int list" where
  "fd_inserted (FdPut path fd mtime file_size now) = [fd]"
| "fd_inserted e = []"

lemma fd_exec_correct:
  assumes "fd_cache_inv c"
  obtains gone c' where "fd_exec e c = Some (gone, c')" "fd_cache_inv c'"
    "mset (fd_inserted e) + held_fds c = mset gone + held_fds c'" "fdc_max_entries c' = fdc_max_entries c"
proof (cases e)
  case (FdTryGet path now)
  obtain fd info c' where g: "fd_try_get path now c = ((fd, info), c')" by (metis surj_pair)
  from fd_try_get_correct [OF assms g] g FdTryGet show ?thesis by (intro that [of "[]" c']) simp_all
next
  case (FdValidate path mtime now)
  obtain fd gone c' where v: "fd_validate path mtime now c = (fd, gone, c')" by (metis surj_pair)
  from fd_validate_correct [OF assms v] v FdValidate show ?thesis by (intro that [of gone c']) simp_all
next
  case (FdPut path fd mtime file_size now)
  obtain gone c' where "fd_put path fd mtime file_size now c = Some (gone, c')" "fd_cache_inv c'"
      "add_mset fd (held_fds c) = mset gone + held_fds c'" "fdc_max_entries c' = fdc_max_entries c"
    by (rule fd_put_correct [OF assms])
  with FdPut show ?thesis by (intro that [of gone c']) simp_all
next
  case FdClear
  with assms show ?thesis
    by (intro that [of "fst (fd_clear c)" "snd (fd_clear c)"])
       (simp_all add: fd_clear_def fd_cache_inv_def held_fds_def)
qed

lemma fd_run_correct:
  assumes "fd_cache_inv c"
  obtains gone c' where "fd_run es c = Some (gone, c')" "fd_cache_inv c'"
    "mset (concat (map fd_inserted es)) + held_fds c = mset gone + held_fds c'"
    "fdc_max_entries c' = fdc_max_entries c"
  using assms
proof (induction es arbitrary: c thesis)
  case Nil
  then show ?case by simp
next
  case (Cons e es)
  obtain gone c1 where e: "fd_exec e c = Some (gone, c1)" "fd_cache_inv c1"
      "mset (fd_inserted e) + held_fds c = mset gone + held_fds c1" "fdc_max_entries c1 = fdc_max_entries c"
    by (rule fd_exec_correct [OF Cons.prems(2)])
  obtain more c2 where r: "fd_run es c1 = Some (more, c2)" "fd_cache_inv c2"
      "mset (concat (map fd_inserted es)) + held_fds c1 = mset more + held_fds c2"
      "fdc_max_entries c2 = fdc_max_entries c1"
    by (rule Cons.IH [OF _ e(2)])
  have "mset (concat (map fd_inserted es)) + (mset (fd_inserted e) + held_fds c) =
      mset gone + (mset (concat (map fd_inserted es)) + held_fds c1)"
    unfolding e(3) by (simp only: ac_simps)
  then have "mset (concat (map fd_inserted (e # es))) + held_fds c = mset (gone @ more) + held_fds c2"
    unfolding r(3) by (simp add: ac_simps)
  with e r show ?case by (intro Cons.prems(1) [of "gone @ more" c2]) simp_all
qed

subsection \<open>Properties\<close>

text \<open>C23: the descriptor cache owns what it is given. After any sequence of lookups, validations,
  insertions and clears, the descriptors inserted are exactly those closed so far, each once, and
  those still held; a lookup only returns a descriptor that is still held; the number of entries
  stays within the limit; and no operation reaches the undefined \<^verbatim>\<open>back()\<close> of an empty list.\<close>

theorem fd_cache_ownership:
  assumes "0 < n"
  shows "\<exists>gone c'. fd_run es (fd_cache_create n ttl) = Some (gone, c') \<and>
           mset (concat (map fd_inserted es)) = mset gone + held_fds c' \<and> fd_size c' \<le> n \<and>
           (fst (fst (fd_try_get path now c')) = -1 \<or> fst (fst (fd_try_get path now c')) \<in># held_fds c')"
proof -
  obtain gone c' where r: "fd_run es (fd_cache_create n ttl) = Some (gone, c')" "fd_cache_inv c'"
    "mset (concat (map fd_inserted es)) + held_fds (fd_cache_create n ttl) = mset gone + held_fds c'"
    "fdc_max_entries c' = fdc_max_entries (fd_cache_create n ttl)"
    by (rule fd_run_correct [OF fd_cache_create_inv [OF assms, of ttl]])
  obtain fd info c'' where g: "fd_try_get path now c' = ((fd, info), c'')"
    by (cases "fd_try_get path now c'") auto
  have "fd = -1 \<or> fd \<in># held_fds c'" using fd_try_get_correct [OF r(2) g] by auto
  moreover have "held_fds (fd_cache_create n ttl) = {#}" "fdc_max_entries c' = n"
    using r(4) by (simp_all add: held_fds_def fd_cache_create_def)
  ultimately show ?thesis
    using r g by (auto simp: fd_size_def fd_cache_inv_def)
qed

theorem fd_cache_ownership_witness:
  "\<exists>gone c'. fd_run [FdPut ''/a'' 7 1 10 0, FdPut ''/b'' 8 1 10 0, FdValidate ''/b'' 2 5] (fd_cache_create 1 10) =
       Some (gone, c') \<and>
     mset (concat (map fd_inserted [FdPut ''/a'' 7 1 10 0, FdPut ''/b'' 8 1 10 0, FdValidate ''/b'' 2 5])) =
       mset gone + held_fds c' \<and> fd_size c' \<le> 1 \<and>
     (fst (fst (fd_try_get ''/b'' 5 c')) = -1 \<or> fst (fst (fd_try_get ''/b'' 5 c')) \<in># held_fds c')"
  by (rule fd_cache_ownership) simp

text \<open>the descriptor cache evicts the least recently used path: after any sequence of
  insertions it holds exactly the most recent distinct paths, most recent first, as many as its
  limit allows.\<close>

theorem fd_cache_lru:
  assumes "0 < n"
  shows "fdc_list (fold (\<lambda>(path, fd, mtime, file_size, now) c. snd (the (fd_put path fd mtime file_size now c)))
           ps (fd_cache_create n ttl)) = take n (recency (map fst ps) [])"
  using fdlru.keeps_most_recent [OF fd_cache_create_inv [OF assms, of ttl], of ps "[]"]
  by (simp add: list_all_iff fd_cache_create_def case_prod_unfold)

end
