(* ===== verification/Logging_Utils.thy ===== *)
theory Logging_Utils
  imports Gateway_Config
begin

text \<open>
  Redaction of secrets in log lines (\<^verbatim>\<open>logging_utils.h\<close>): header values, API keys and the values
  of sensitive query parameters. \<^verbatim>\<open>std::tolower\<close> is taken in the C locale. The scanning loop over the query is
  modelled with its positions; it is shown equal to splitting the query at the ampersands, and the
  result is shown not to depend on the secrets.
\<close>

subsection \<open>Operations\<close>

definition lowercase :: "string \<Rightarrow> string" where
  "lowercase value = map to_lower_char value"

definition hex_value :: "char \<Rightarrow> int" where
  "hex_value ch =
     (if code (CHR ''0'') \<le> code ch \<and> code ch \<le> code (CHR ''9'') then int (code ch) - int (code (CHR ''0''))
      else if code (CHR ''a'') \<le> code ch \<and> code ch \<le> code (CHR ''f'') then int (code ch) - int (code (CHR ''a'')) + 10
      else if code (CHR ''A'') \<le> code ch \<and> code ch \<le> code (CHR ''F'') then int (code ch) - int (code (CHR ''A'')) + 10
      else -1)"

text \<open>One iteration per character; the argument is what follows position \<^verbatim>\<open>i\<close>, so \<^verbatim>\<open>i + 2 < size\<close>
  says that two more characters follow.\<close>

fun decode_loop :: "string \<Rightarrow> string" where
  "decode_loop [] = []"
| "decode_loop [c] = (if c = CHR ''+'' then [CHR '' ''] else [c])"
| "decode_loop [c, d] = (if c = CHR ''+'' then CHR '' '' else c) # decode_loop [d]"
| "decode_loop (c # h # l # rest) =
     (if c = CHR ''+'' then CHR '' '' # decode_loop (h # l # rest)
      else if c = CHR ''%'' \<and> hex_value h \<ge> 0 \<and> hex_value l \<ge> 0
        then char_of (nat (hex_value h * 16 + hex_value l)) # decode_loop rest
      else c # decode_loop (h # l # rest))"

definition decode_query_name :: "string \<Rightarrow> string" where
  "decode_query_name name = lowercase (decode_loop name)"

definition contains_name :: "string list \<Rightarrow> string \<Rightarrow> bool" where
  "contains_name names name = list_ex (\<lambda>candidate. lowercase candidate = lowercase name) names"

abbreviation redacted_text :: string where
  "redacted_text \<equiv> ''[redacted]''"

definition redact_header_value :: "string \<Rightarrow> string \<Rightarrow> logging_config \<Rightarrow> string" where
  "redact_header_value name value config =
     (if log_redact_sensitive_headers config \<and> value \<noteq> [] \<and> contains_name (log_sensitive_headers config) name
      then redacted_text else value)"

definition redact_api_key :: "string \<Rightarrow> string" where
  "redact_api_key key = (if key = [] then ''anonymous'' else redacted_text)"

text \<open>The body of the loop for one query part.\<close>

definition redact_part :: "logging_config \<Rightarrow> string \<Rightarrow> string" where
  "redact_part config part =
     (case find_char (CHR ''='') part of
        None \<Rightarrow> part
      | Some equals \<Rightarrow>
          (if contains_name (log_sensitive_query_params config) (decode_query_name (substr part 0 equals))
           then substr part 0 (equals + 1) @ redacted_text else part))"

function redact_loop :: "logging_config \<Rightarrow> string \<Rightarrow> nat \<Rightarrow> string \<Rightarrow> string" where
  "redact_loop config target position redacted =
     (if position < length target then
        (case str_find ''&'' target position of
           None \<Rightarrow> redacted @ redact_part config (substr target position (length target - position))
         | Some separator \<Rightarrow>
             redact_loop config target (separator + 1)
               (redacted @ redact_part config (substr target position (separator - position)) @ ''&''))
      else redacted)"
  by pat_completeness auto
termination
  by (relation "measure (\<lambda>(config, target, position, redacted). length target - position)")
     (auto dest!: str_find_ge)

declare redact_loop.simps [simp del]

definition redact_request_target :: "string \<Rightarrow> logging_config \<Rightarrow> string" where
  "redact_request_target target config =
     (if \<not> log_redact_sensitive_query_params config then target
      else case find_char (CHR ''?'') target of
             None \<Rightarrow> target
           | Some query_start \<Rightarrow>
               redact_loop config target (query_start + 1) (substr target 0 (query_start + 1)))"

definition redact_path_query :: "string \<Rightarrow> string \<Rightarrow> logging_config \<Rightarrow> string" where
  "redact_path_query path query config =
     redact_request_target (path @ (if query = [] then [] else ''?'' @ query)) config"

subsection \<open>The loop splits at the ampersands\<close>

lemma redact_part_Nil [simp]: "redact_part config [] = []"
  by (simp add: redact_part_def find_char_eq)

lemma redact_loop_split:
  assumes "position \<le> length target"
  shows "redact_loop config target position redacted =
     redacted @ join_with (CHR ''&'') (map (redact_part config) (split_on (CHR ''&'') (drop position target)))"
  using assms
proof (induction config target position redacted rule: redact_loop.induct)
  case (1 config target position redacted)
  let ?rest = "drop position target"
  show ?case
  proof (cases "position < length target")
    case False
    with "1.prems" show ?thesis by (simp add: redact_loop.simps)
  next
    case True
    show ?thesis
    proof (cases "find_char (CHR ''&'') ?rest")
      case None
      then have "split_on (CHR ''&'') ?rest = [?rest]" by (simp add: find_char_None split_on_id)
      moreover have "substr target position (length target - position) = ?rest" by (simp add: substr_def)
      ultimately show ?thesis
        using True None by (simp add: redact_loop.simps [of config target position] str_find_char)
    next
      case (Some i)
      obtain part tail where rest: "?rest = part @ CHR ''&'' # tail" "CHR ''&'' \<notin> set part" "length part = i"
        by (rule find_char_obtain [OF Some])
      have find: "str_find ''&'' target position = Some (i + position)"
        using True Some by (simp add: str_find_char)
      have "drop (i + position + 1) target = drop (i + 1) ?rest" by (simp add: add.commute add.left_commute)
      then have tail: "drop (i + position + 1) target = tail" using rest by simp
      have part: "substr target position (i + position - position) = part"
        using rest by (simp add: substr_def)
      have "i + position + 1 \<le> length target"
        using rest(3) arg_cong [OF rest(1), of length] True by (simp add: less_diff_conv2 [symmetric])
      then have "redact_loop config target (i + position + 1)
            (redacted @ redact_part config part @ ''&'') =
          (redacted @ redact_part config part @ ''&'') @
            join_with (CHR ''&'') (map (redact_part config) (split_on (CHR ''&'') tail))"
        using "1.IH" [OF True find] unfolding tail part by simp
      then show ?thesis
        using True find part
        by (simp add: redact_loop.simps [of config target position] rest(1) split_on_append_sep [OF rest(2)] join_with_Cons)
    qed
  qed
qed

text \<open>Two query parts that are equal, or give a sensitive parameter of the same name two values.\<close>

definition same_but_secret :: "logging_config \<Rightarrow> string \<Rightarrow> string \<Rightarrow> bool" where
  "same_but_secret config p q \<longleftrightarrow> p = q \<or>
     (\<exists>name v w. p = name @ ''='' @ v \<and> q = name @ ''='' @ w \<and> CHR ''='' \<notin> set name \<and>
        contains_name (log_sensitive_query_params config) (decode_query_name name))"

lemma redact_part_sensitive:
  assumes "CHR ''='' \<notin> set name"
  shows "redact_part config (name @ CHR ''='' # v) =
     (if contains_name (log_sensitive_query_params config) (decode_query_name name)
      then name @ CHR ''='' # redacted_text else name @ CHR ''='' # v)"
  using find_char_append [OF assms, of v] by (simp add: redact_part_def substr_def)

lemma redact_part_secret: "same_but_secret config p q \<Longrightarrow> redact_part config p = redact_part config q"
  by (auto simp: same_but_secret_def redact_part_sensitive)

lemma redact_part_idem [simp]: "redact_part config (redact_part config p) = redact_part config p"
proof (cases "find_char (CHR ''='') p")
  case (Some i)
  then obtain k v where "p = k @ CHR ''='' # v" "CHR ''='' \<notin> set k" by (rule find_char_obtain)
  then show ?thesis by (simp add: redact_part_sensitive)
qed (simp add: redact_part_def)

lemma redact_target_eq:
  assumes "log_redact_sensitive_query_params config" "CHR ''?'' \<notin> set path"
  shows "redact_request_target (path @ ''?'' @ query) config =
     path @ ''?'' @ join_with (CHR ''&'') (map (redact_part config) (split_on (CHR ''&'') query))"
  using assms find_char_append [OF assms(2), of query]
  by (simp add: redact_request_target_def redact_loop_split substr_def)

lemma redact_part_no_sep: "CHR ''&'' \<notin> set p \<Longrightarrow> CHR ''&'' \<notin> set (redact_part config p)"
  by (auto simp: redact_part_def substr_def dest: in_set_takeD split: option.split)

subsection \<open>Properties\<close>

text \<open>C24: no secret reaches the log. Two request targets that differ only in the values of sensitive
  query parameters are logged as the same text; a parameter counts as sensitive when its name,
  after percent-decoding and lower-casing, is in the configured list. Redacting twice changes
  nothing more.\<close>

theorem redact_hides_secrets:
  assumes "log_redact_sensitive_query_params config" "CHR ''?'' \<notin> set path"
    and "list_all2 (same_but_secret config) ps qs"
    and "\<forall>p \<in> set ps \<union> set qs. CHR ''&'' \<notin> set p"
  shows "redact_request_target (path @ ''?'' @ join_with (CHR ''&'') ps) config =
         redact_request_target (path @ ''?'' @ join_with (CHR ''&'') qs) config \<and>
         redact_request_target (redact_request_target (path @ ''?'' @ join_with (CHR ''&'') ps) config) config =
         redact_request_target (path @ ''?'' @ join_with (CHR ''&'') ps) config"
proof (cases "ps = []")
  case True
  with assms(3) have "qs = []" by simp
  with True assms show ?thesis by (simp add: redact_target_eq [OF assms(1,2), of "[]", simplified])
next
  case False
  have ne: "qs \<noteq> []" using False assms(3) by auto
  have eq: "map (redact_part config) ps = map (redact_part config) qs"
    using assms(3) by (induction rule: list_all2_induct) (auto simp: redact_part_secret)
  have "split_on (CHR ''&'') (join_with (CHR ''&'') (map (redact_part config) ps)) = map (redact_part config) ps"
    using False assms(4) redact_part_no_sep by (intro split_join) auto
  then show ?thesis
    using assms(4) False ne by (simp only: redact_target_eq [OF assms(1,2)] split_join eq) (simp add: split_join eq comp_def)
qed

theorem redact_hides_secrets_witness:
  "redact_request_target (''/p'' @ ''?'' @ join_with (CHR ''&'') [''x=1'', ''tok%65n=s1'']) logging_config_default =
     redact_request_target (''/p'' @ ''?'' @ join_with (CHR ''&'') [''x=1'', ''tok%65n=s2'']) logging_config_default \<and>
   redact_request_target (redact_request_target (''/p'' @ ''?'' @ join_with (CHR ''&'') [''x=1'', ''tok%65n=s1''])
       logging_config_default) logging_config_default =
     redact_request_target (''/p'' @ ''?'' @ join_with (CHR ''&'') [''x=1'', ''tok%65n=s1'']) logging_config_default"
proof (rule redact_hides_secrets)
  have "same_but_secret logging_config_default ''tok%65n=s1'' ''tok%65n=s2''"
    unfolding same_but_secret_def
    by (rule disjI2, rule exI [of _ "''tok%65n''"])
       (simp add: logging_config_default_def contains_name_def decode_query_name_def lowercase_def
         to_lower_char_def is_upper_def hex_value_def char_of_iff)
  then show "list_all2 (same_but_secret logging_config_default) [''x=1'', ''tok%65n=s1''] [''x=1'', ''tok%65n=s2'']"
    by (simp add: same_but_secret_def)
qed (simp_all add: logging_config_default_def)

end
