(* ===== verification/Http_Message.thy ===== *)
theory Http_Message
  imports Http_Parser
begin

text \<open>
  Responses and header processing shared by the upstream client and the request handler:
  \<^verbatim>\<open>HttpResponse\<close> (\<^verbatim>\<open>http_parser.h\<close>), \<^verbatim>\<open>BackendResponse\<close> (\<^verbatim>\<open>http_client.h\<close>), the hop-by-hop header rules and the header
  lookup of \<^verbatim>\<open>http_client.cpp\<close>, MIME types (\<^verbatim>\<open>content_type.cpp\<close>) and the compression rule
  (\<^verbatim>\<open>gzip_utils.cpp\<close>). The in-place scanning loops are shown equal to splitting a header block into lines and
  a list of tokens at its commas.
\<close>

subsection \<open>Responses\<close>

record http_response =
  rsp_status_code :: int
  rsp_status_message :: string
  rsp_headers :: headers
  rsp_body :: string
  rsp_chunked :: bool

definition http_response_default :: http_response where
  "http_response_default = \<lparr>rsp_status_code = 200, rsp_status_message = ''OK'', rsp_headers = [],
     rsp_body = [], rsp_chunked = False\<rparr>"

definition response_to_string :: "http_response \<Rightarrow> string" where
  "response_to_string r =
     ''HTTP/1.1 '' @ dec_int (rsp_status_code r) @ '' '' @ rsp_status_message r @ crlf @
     concat (map (\<lambda>(k, v). k @ '': '' @ v @ crlf) (rsp_headers r)) @ crlf @ rsp_body r"

datatype backend_error =
    BE_None | ConnectFailed | ConnectTimeout | WriteFailed | WriteTimeout | ReadFailed | ReadTimeout
  | InvalidResponse

record backend_response =
  br_status_code :: int
  br_headers :: headers
  br_body :: string
  br_error :: backend_error

definition make_backend_error :: "int \<Rightarrow> backend_error \<Rightarrow> string \<Rightarrow> backend_response" where
  "make_backend_error status_code error body =
     \<lparr>br_status_code = status_code, br_headers = [], br_body = body, br_error = error\<rparr>"

definition is_transient_backend_error :: "backend_error \<Rightarrow> bool" where
  "is_transient_backend_error error =
     (case error of
        ConnectFailed \<Rightarrow> True | ConnectTimeout \<Rightarrow> True | WriteFailed \<Rightarrow> True | WriteTimeout \<Rightarrow> True
      | ReadFailed \<Rightarrow> True | ReadTimeout \<Rightarrow> True | _ \<Rightarrow> False)"

definition idempotent_method :: "string \<Rightarrow> bool" where
  "idempotent_method method \<longleftrightarrow> method = ''GET'' \<or> method = ''HEAD'' \<or> method = ''OPTIONS''"

definition should_retry_backend_request :: "string \<Rightarrow> backend_error \<Rightarrow> int \<Rightarrow> bool" where
  "should_retry_backend_request method error attempt_count =
     (if attempt_count \<ge> 2 then False
      else idempotent_method method \<and> is_transient_backend_error error)"

subsection \<open>Hop-by-hop headers\<close>

definition is_hop_by_hop_header :: "string \<Rightarrow> bool" where
  "is_hop_by_hop_header lower_name \<longleftrightarrow> lower_name \<in> set
     [''connection'', ''keep-alive'', ''proxy-authenticate'', ''proxy-authorization'',
      ''proxy-connection'', ''te'', ''trailer'', ''transfer-encoding'', ''upgrade'', ''host'',
      ''content-length'']"

text \<open>The loop of \<^verbatim>\<open>connection_tokens\<close> over the comma positions; the set of tokens is a list without
  repetition. The two inner loops move \<^verbatim>\<open>begin\<close> and \<^verbatim>\<open>end\<close> over blanks.\<close>

function token_loop :: "string \<Rightarrow> nat \<Rightarrow> string list \<Rightarrow> string list" where
  "token_loop value pos tokens =
     (if pos \<le> length value then
        (let comma = (case str_find '','' value pos of None \<Rightarrow> length value | Some i \<Rightarrow> i);
             token = trim_blanks (substr value pos (comma - pos))
         in token_loop value (comma + 1)
              (if token \<noteq> [] then List.insert (lower token) tokens else tokens))
      else tokens)"
  by pat_completeness auto
termination
  by (relation "measure (\<lambda>(value, pos, tokens). length value + 1 - pos)")
     (auto dest: str_find_ge split: option.splits)

declare token_loop.simps [simp del]

definition connection_tokens :: "headers \<Rightarrow> string list" where
  "connection_tokens hs =
     (case map_of hs ''connection'' of None \<Rightarrow> [] | Some value \<Rightarrow> token_loop value 0 [])"

subsection \<open>Header lookup in a raw block\<close>

text \<open>\<^verbatim>\<open>find("\r\n") + 2\<close>: without a line end, \<^verbatim>\<open>npos + 2\<close> wraps to 1.\<close>

definition first_line_start :: "string \<Rightarrow> nat" where
  "first_line_start headers_part =
     (case str_find crlf headers_part 0 of None \<Rightarrow> 1 | Some i \<Rightarrow> i + 2)"

definition header_hit :: "string \<Rightarrow> string \<Rightarrow> nat \<Rightarrow> nat \<Rightarrow> string option" where
  "header_hit headers_part name line_start field_end =
     (case str_find '':'' headers_part line_start of
        None \<Rightarrow> None
      | Some colon \<Rightarrow>
          if colon < field_end \<and> colon - line_start = length name \<and>
             lower (substr headers_part line_start (length name)) = name
          then Some (lower (trim_blanks (substr headers_part (colon + 1) (field_end - colon - 1))))
          else None)"

function header_value_loop :: "string \<Rightarrow> string \<Rightarrow> nat \<Rightarrow> string" where
  "header_value_loop headers_part name line_start =
     (if line_start < length headers_part then
        (let line_end = str_find crlf headers_part line_start;
             field_end = (case line_end of None \<Rightarrow> length headers_part | Some i \<Rightarrow> i)
         in case header_hit headers_part name line_start field_end of
              Some value \<Rightarrow> value
            | None \<Rightarrow> (case line_end of None \<Rightarrow> [] | Some e \<Rightarrow> header_value_loop headers_part name (e + 2)))
      else [])"
  by pat_completeness auto
termination
  by (relation "measure (\<lambda>(headers_part, name, line_start). length headers_part - line_start)")
     (auto dest!: str_find_ge [OF sym])

declare header_value_loop.simps [simp del]

definition find_header_value :: "string \<Rightarrow> string \<Rightarrow> string" where
  "find_header_value headers_part name =
     header_value_loop headers_part name (first_line_start headers_part)"

subsection \<open>MIME types and compression\<close>

definition mime_map :: "(string \<times> string) list" where
  "mime_map =
     [(''.html'', ''text/html''), (''.htm'', ''text/html''), (''.css'', ''text/css''),
      (''.js'', ''application/javascript''), (''.json'', ''application/json''), (''.png'', ''image/png''),
      (''.jpg'', ''image/jpeg''), (''.jpeg'', ''image/jpeg''), (''.gif'', ''image/gif''),
      (''.svg'', ''image/svg+xml''), (''.ico'', ''image/x-icon''), (''.txt'', ''text/plain''),
      (''.xml'', ''application/xml''), (''.pdf'', ''application/pdf''), (''.zip'', ''application/zip''),
      (''.mp3'', ''audio/mpeg''), (''.mp4'', ''video/mp4'')]"

definition rfind_char :: "char \<Rightarrow> string \<Rightarrow> nat option" where
  "rfind_char c s = (if c \<in> set s then Some (length s - 1 - length (takeWhile ((\<noteq>) c) (rev s))) else None)"

definition get_content_type :: "string \<Rightarrow> string" where
  "get_content_type path =
     (case rfind_char (CHR ''.'') path of
        None \<Rightarrow> ''application/octet-stream''
      | Some ext_pos \<Rightarrow>
          (case map_of mime_map (drop ext_pos path) of
             Some t \<Rightarrow> t
           | None \<Rightarrow> ''application/octet-stream''))"

definition has_content_encoding :: "http_response \<Rightarrow> bool" where
  "has_content_encoding resp =
     list_ex (\<lambda>(k, v). lower k = ''content-encoding'' \<and> v \<noteq> []) (rsp_headers resp)"

definition should_compress :: "http_request \<Rightarrow> http_response \<Rightarrow> bool" where
  "should_compress req resp =
     (if has_content_encoding resp then False
      else case map_of (req_headers req) ''accept-encoding'' of
             None \<Rightarrow> False
           | Some accept \<Rightarrow>
               (if str_find ''gzip'' accept 0 = None then False
                else case map_of (rsp_headers resp) ''Content-Type'' of
                       None \<Rightarrow> False
                     | Some ty \<Rightarrow>
                         (if str_find ''text/'' ty 0 = Some 0 \<or> str_find ''application/json'' ty 0 = Some 0 \<or>
                             str_find ''application/javascript'' ty 0 = Some 0 \<or>
                             str_find ''application/xml'' ty 0 = Some 0 \<or> str_find ''image/svg+xml'' ty 0 = Some 0
                          then rsp_body resp \<noteq> [] else False)))"

subsection \<open>Splitting at line ends\<close>

fun split_crlf :: "string \<Rightarrow> string list" where
  "split_crlf [] = [[]]"
| "split_crlf (c # s) =
     (if c = CR \<and> s \<noteq> [] \<and> hd s = LF then [] # split_crlf (tl s)
      else (c # hd (split_crlf s)) # tl (split_crlf s))"

lemma split_crlf_not_Nil [simp]: "split_crlf s \<noteq> []"
  by (induction s rule: split_crlf.induct) auto

lemma str_find_crlf_Cons:
  "str_find crlf (c # s) 0 =
     (if c = CR \<and> s \<noteq> [] \<and> hd s = LF then Some 0 else map_option Suc (str_find crlf s 0))"
  by (cases s) (auto simp: str_find_def option.map_comp comp_def)

lemma str_find_crlf_Nil [simp]: "str_find crlf [] 0 = None"
  by (simp add: str_find_def)

lemma str_find_shift:
  "pos \<le> length s \<Longrightarrow> str_find n s pos = map_option (\<lambda>i. i + pos) (str_find n (drop pos s) 0)"
  by (cases "index_of (starts_with n) (drop pos s)") (simp_all add: str_find_def)

lemma split_crlf_None: "str_find crlf s 0 = None \<Longrightarrow> split_crlf s = [s]"
  by (induction s rule: split_crlf.induct) (auto simp: str_find_crlf_Cons split: if_splits)

lemma split_crlf_Some: "str_find crlf s 0 = Some i \<Longrightarrow> split_crlf s = take i s # split_crlf (drop (i + 2) s)"
proof (induction s arbitrary: i rule: split_crlf.induct)
  case (2 c s)
  show ?case
  proof (cases "c = CR \<and> s \<noteq> [] \<and> hd s = LF")
    case True
    with "2.prems" show ?thesis by (auto simp: str_find_crlf_Cons drop_Suc)
  next
    case False
    with "2.prems" obtain j where j: "str_find crlf s 0 = Some j" "i = Suc j"
      by (auto simp: str_find_crlf_Cons)
    from "2.IH"(2) [OF False j(1)] False show ?thesis by (auto simp: j(2))
  qed
qed simp

lemma str_find_crlf_len: "str_find crlf s 0 = Some i \<Longrightarrow> i + 2 \<le> length s"
  using str_find_bound [of crlf s 0 i] by simp

subsection \<open>The header lookup works line by line\<close>

definition header_line_value :: "string \<Rightarrow> string \<Rightarrow> string option" where
  "header_line_value name line =
     (case find_char (CHR '':'') line of
        None \<Rightarrow> None
      | Some i \<Rightarrow> if i = length name \<and> lower (take i line) = name
                 then Some (lower (trim_blanks (drop (i + 1) line))) else None)"

fun header_lookup :: "string \<Rightarrow> string list \<Rightarrow> string" where
  "header_lookup name [] = []"
| "header_lookup name (line # ls) =
     (case header_line_value name line of Some v \<Rightarrow> v | None \<Rightarrow> header_lookup name ls)"

lemma header_line_value_Nil [simp]: "header_line_value name [] = None"
  by (simp add: header_line_value_def find_char_eq)

lemma find_char_take:
  "find_char c (take n s) = (case find_char c s of None \<Rightarrow> None | Some i \<Rightarrow> if i < n then Some i else None)"
proof (cases "find_char c s")
  case None
  then have "find_char c (take n s) = None" by (auto simp: find_char_None dest: in_set_takeD)
  with None show ?thesis by simp
next
  case (Some i)
  then obtain k v where s: "s = k @ c # v" "c \<notin> set k" "length k = i" by (rule find_char_obtain)
  show ?thesis
  proof (cases "i < n")
    case True
    then have "take n s = k @ c # take (n - i - 1) v" using s by (cases "n - i") auto
    with s Some True show ?thesis by (simp add: find_char_append)
  next
    case False
    then have "c \<notin> set (take n s)" using s by (auto dest: in_set_takeD)
    then have "find_char c (take n s) = None" by (simp add: find_char_None)
    with Some False show ?thesis by simp
  qed
qed

lemma header_hit_line:
  assumes "pos \<le> length s" "n \<le> length s - pos"
  shows "header_hit s name pos (n + pos) = header_line_value name (take n (drop pos s))"
proof (cases "find_char (CHR '':'') (drop pos s)")
  case None
  with assms show ?thesis by (simp add: header_hit_def header_line_value_def str_find_char find_char_take)
next
  case (Some i)
  have find: "str_find '':'' s pos = Some (i + pos)" using Some assms by (simp add: str_find_char)
  have "drop (Suc (i + pos)) s = drop (Suc i) (drop pos s)" by simp
  then have v: "substr s (i + pos + 1) (n + pos - (i + pos) - 1) = drop (i + 1) (take n (drop pos s))"
    unfolding substr_def drop_take by simp
  show ?thesis
  proof (cases "i < n \<and> i = length name")
    case True
    then have "take i (take n (drop pos s)) = substr s pos (length name)"
      by (simp add: substr_def min_absorb1)
    then show ?thesis
      using True Some v by (simp add: header_hit_def header_line_value_def find find_char_take)
  next
    case False
    then show ?thesis using Some by (auto simp: header_hit_def header_line_value_def find find_char_take)
  qed
qed

lemma header_value_loop_lines:
  "pos \<le> length s \<Longrightarrow> header_value_loop s name pos = header_lookup name (split_crlf (drop pos s))"
proof (induction s name pos rule: header_value_loop.induct)
  case (1 s name pos)
  let ?rest = "drop pos s"
  show ?case
  proof (cases "pos < length s")
    case False
    with "1.prems" show ?thesis
      by (simp add: header_value_loop.simps)
  next
    case True
    show ?thesis
    proof (cases "str_find crlf ?rest 0")
      case None
      then have "str_find crlf s pos = None" using True by (simp add: str_find_shift [of pos s])
      moreover have "header_hit s name pos (length s) = header_line_value name ?rest"
        using header_hit_line [of pos s "length s - pos" name] True by simp
      ultimately show ?thesis
        using True by (simp add: header_value_loop.simps [of s name pos] split_crlf_None [OF None] split: option.split)
    next
      case (Some i)
      then have line_end: "str_find crlf s pos = Some (i + pos)" using True by (simp add: str_find_shift [of pos s])
      have len: "i + 2 \<le> length ?rest" by (rule str_find_crlf_len [OF Some])
      then have hit: "header_hit s name pos (i + pos) = header_line_value name (take i ?rest)"
        using True by (intro header_hit_line) simp_all
      have split: "split_crlf ?rest = take i ?rest # split_crlf (drop (i + pos + 2) s)"
        using split_crlf_Some [OF Some] by (simp add: add.commute add.left_commute)
      show ?thesis
      proof (cases "header_line_value name (take i ?rest)")
        case None
        have "header_value_loop s name (i + pos + 2) = header_lookup name (split_crlf (drop (i + pos + 2) s))"
          using len by (intro "1.IH" [OF True refl refl _ line_end]) (simp_all add: line_end hit None)
        then show ?thesis
          using True by (simp add: header_value_loop.simps [of s name pos] line_end hit None split)
      next
        case (Some v)
        with True show ?thesis by (simp add: header_value_loop.simps [of s name pos] line_end hit split)
      qed
    qed
  qed
qed

text \<open>The lines the lookup reads: all but the status line; in a block without a line end, everything
  behind the first character.\<close>

definition field_lines :: "string \<Rightarrow> string list" where
  "field_lines s = (case split_crlf s of [l] \<Rightarrow> split_crlf (drop 1 l) | l # ls \<Rightarrow> ls)"

lemma find_header_value_lines: "find_header_value s name = header_lookup name (field_lines s)"
proof (cases "str_find crlf s 0")
  case None
  show ?thesis
  proof (cases s)
    case Nil
    then show ?thesis
      by (simp add: find_header_value_def first_line_start_def header_value_loop.simps field_lines_def)
  next
    case (Cons a list)
    then have "header_value_loop s name 1 = header_lookup name (split_crlf (drop 1 s))"
      by (intro header_value_loop_lines) simp
    moreover have "field_lines s = split_crlf (drop 1 s)"
      using split_crlf_None [OF None] by (simp add: field_lines_def)
    ultimately show ?thesis using None by (simp add: find_header_value_def first_line_start_def)
  qed
next
  case (Some i)
  then show ?thesis
    using str_find_crlf_len [OF Some]
    by (cases "split_crlf (drop (i + 2) s)")
       (simp_all add: find_header_value_def first_line_start_def header_value_loop_lines field_lines_def
         split_crlf_Some)
qed

subsection \<open>Connection tokens\<close>

definition tokens_of :: "string \<Rightarrow> string set" where
  "tokens_of value = {lower (trim_blanks t) |t. t \<in> set (split_on (CHR '','') value) \<and> trim_blanks t \<noteq> []}"

lemma tokens_of_Nil [simp]: "tokens_of [] = {}"
  by (simp add: tokens_of_def trim_blanks_def)

lemma token_loop_set:
  "pos \<le> length value \<Longrightarrow> set (token_loop value pos tokens) = set tokens \<union> tokens_of (drop pos value)"
proof (induction "value" pos tokens rule: token_loop.induct)
  case (1 "value" pos tokens)
  let ?rest = "drop pos value"
  show ?case
  proof (cases "find_char (CHR '','') ?rest")
    case None
    then have "split_on (CHR '','') ?rest = [?rest]" by (simp add: find_char_None split_on_id)
    moreover have "str_find '','' value pos = None" using None "1.prems" by (simp add: str_find_char)
    moreover have "substr value pos (length value - pos) = ?rest" by (simp add: substr_def)
    moreover have "token_loop value (length value + 1) ts = ts" for ts by (simp add: token_loop.simps)
    ultimately show ?thesis
      using "1.prems" by (auto simp: token_loop.simps [of "value" pos] tokens_of_def Let_def split: if_splits)
  next
    case (Some i)
    then obtain part tail where rest: "?rest = part @ CHR '','' # tail" "CHR '','' \<notin> set part" "length part = i"
      by (rule find_char_obtain)
    have find: "str_find '','' value pos = Some (i + pos)" using Some "1.prems" by (simp add: str_find_char)
    have part: "substr value pos (i + pos - pos) = part" using rest by (simp add: substr_def)
    have "drop (i + pos + 1) value = drop (i + 1) ?rest" by simp
    then have tail: "drop (i + pos + 1) value = tail" using rest by simp
    have len: "i + pos + 1 \<le> length value" using str_find_bound [OF find] by simp
    have "set (token_loop value (i + pos + 1)
        (if trim_blanks part \<noteq> [] then List.insert (lower (trim_blanks part)) tokens else tokens)) =
      set (if trim_blanks part \<noteq> [] then List.insert (lower (trim_blanks part)) tokens else tokens) \<union> tokens_of tail"
      using "1.IH" [OF "1.prems", of "i + pos" "trim_blanks part"] len part by (simp add: find tail [simplified])
    moreover have "tokens_of ?rest =
        (if trim_blanks part \<noteq> [] then {lower (trim_blanks part)} else {}) \<union> tokens_of tail"
      unfolding rest(1) tokens_of_def split_on_append_sep [OF rest(2)] by auto
    ultimately show ?thesis
      using "1.prems" find part by (auto simp: token_loop.simps [of "value" pos] Let_def)
  qed
qed

lemma connection_tokens_set:
  "set (connection_tokens hs) = (case map_of hs ''connection'' of None \<Rightarrow> {} | Some v \<Rightarrow> tokens_of v)"
  by (simp add: connection_tokens_def token_loop_set split: option.split)

end
