(* ===== verification/Chunk_Scan.thy ===== *)
theory Chunk_Scan
  imports Http_Message Http_Wire
begin

text \<open>
  The scanner for chunked upstream responses (\<^verbatim>\<open>scan_chunked_body\<close> in \<^verbatim>\<open>http_client.cpp\<close>). Positions
  and sizes are 64-bit: \<^verbatim>\<open>pos + size\<close> and \<^verbatim>\<open>pos + size + 2\<close> are computed modulo \<open>2 ^ 64\<close>, as in
  the code. The scan is a partial function, because its loop moves backwards when the sum wraps:
  \<^term>\<open>None\<close> means that it does not return.
\<close>

subsection \<open>The scanner\<close>

datatype chunk_scan = CS_Incomplete | CS_Complete | CS_Error

text \<open>What a call does: it returns with the end of the body and the decoded payload, or
  \<^verbatim>\<open>std::string::compare\<close> throws \<^verbatim>\<open>out_of_range\<close>.\<close>

datatype scan_result = Scan chunk_scan "size_t option" string | Scan_throw string

definition wrap64 :: "nat \<Rightarrow> nat" where
  "wrap64 n = n mod 2 ^ 64"

definition SIZE_MAX :: nat where
  "SIZE_MAX = 2 ^ 64 - 1"

fun hex_size_loop :: "size_t \<Rightarrow> string \<Rightarrow> size_t option" where
  "hex_size_loop sz [] = Some sz"
| "hex_size_loop sz (c # cs) =
     (case hex_digit c of
        None \<Rightarrow> None
      | Some d \<Rightarrow> if sz > SIZE_MAX div 16 then None else hex_size_loop (sz * 16 + d) cs)"

definition chunk_line_size :: "string \<Rightarrow> size_t option" where
  "chunk_line_size line =
     (let h = (case find_char (CHR '';'') line of None \<Rightarrow> line | Some semi \<Rightarrow> take semi line)
      in if h = [] then None else hex_size_loop 0 h)"

function scan_trailer :: "string \<Rightarrow> nat \<Rightarrow> size_t option" where
  "scan_trailer buf t =
     (case str_find crlf buf t of
        None \<Rightarrow> None
      | Some e \<Rightarrow> if e = t then Some (e + 2) else scan_trailer buf (e + 2))"
  by pat_completeness auto
termination
proof (relation "measure (\<lambda>(buf, t). length buf - t)")
  fix buf t e assume "str_find crlf buf t = Some e" "e \<noteq> t"
  then show "((buf, e + 2), (buf, t)) \<in> measure (\<lambda>(buf, t). length buf - t)"
    using str_find_ge [of crlf buf t e] str_find_bound [of crlf buf t e] by simp
qed simp

declare scan_trailer.simps [simp del]

partial_function (option) scan_loop :: "string \<Rightarrow> nat \<Rightarrow> string \<Rightarrow> scan_result option" where
  "scan_loop buf pos decoded =
     (case str_find crlf buf pos of
        None \<Rightarrow> Some (Scan CS_Incomplete None decoded)
      | Some line_end \<Rightarrow>
          (case chunk_line_size (substr buf pos (line_end - pos)) of
             None \<Rightarrow> Some (Scan CS_Error None decoded)
           | Some sz \<Rightarrow>
               (let pos1 = line_end + 2
                in if sz = 0 then
                     (case scan_trailer buf pos1 of
                        None \<Rightarrow> Some (Scan CS_Incomplete None decoded)
                      | Some body_end \<Rightarrow> Some (Scan CS_Complete (Some body_end) decoded))
                   else if length buf < wrap64 (pos1 + sz + 2) then Some (Scan CS_Incomplete None decoded)
                   else if wrap64 (pos1 + sz) > length buf then Some (Scan_throw decoded)
                   else if substr buf (wrap64 (pos1 + sz)) 2 \<noteq> crlf then Some (Scan CS_Error None decoded)
                   else scan_loop buf (wrap64 (pos1 + sz + 2)) (decoded @ substr buf pos1 sz))))"

definition scan_chunked_body :: "string \<Rightarrow> nat \<Rightarrow> scan_result option" where
  "scan_chunked_body buf body_start = scan_loop buf body_start []"

subsection \<open>Reading lines\<close>

lemma str_find_crlf_line:
  assumes "CR \<notin> set l \<or> LF \<notin> set l"
  shows "str_find crlf (l @ CR # LF # rest) 0 = Some (length l)"
  using assms
proof (induction l)
  case (Cons c l)
  then have "str_find crlf (l @ CR # LF # rest) 0 = Some (length l)" by auto
  moreover have "\<not> (c = CR \<and> hd (l @ CR # LF # rest) = LF)"
    using Cons.prems by (cases l) auto
  ultimately show ?case by (auto simp: str_find_crlf_Cons)
qed (simp add: str_find_crlf_Cons)

lemma str_find_crlf_at:
  assumes "buf = pre @ l @ CR # LF # rest" "CR \<notin> set l \<or> LF \<notin> set l"
  shows "str_find crlf buf (length pre) = Some (length pre + length l)"
proof -
  have "str_find crlf buf (length pre) = map_option (\<lambda>i. i + length pre) (str_find crlf (drop (length pre) buf) 0)"
    by (rule str_find_shift) (simp add: assms(1))
  then show ?thesis
    using str_find_crlf_line [OF assms(2), of rest] by (simp add: assms(1))
qed

lemma hex_size_loop_append:
  "hex_size_loop sz (s @ [c]) =
     (case hex_size_loop sz s of
        None \<Rightarrow> None
      | Some v \<Rightarrow> (case hex_digit c of None \<Rightarrow> None | Some d \<Rightarrow> if v > SIZE_MAX div 16 then None else Some (v * 16 + d)))"
  by (induction s arbitrary: sz) (auto split: option.split)

lemma hex_size_loop_hex: "n \<le> SIZE_MAX \<Longrightarrow> hex_size_loop 0 (hex n) = Some n"
proof (induction n rule: less_induct)
  case (less n)
  show ?case
  proof (cases "n < 16")
    case True
    then show ?thesis by (subst hex.simps) (simp add: hex_digit_hex_char)
  next
    case False
    then have "hex_size_loop 0 (hex (n div 16)) = Some (n div 16)" "n div 16 \<le> SIZE_MAX div 16"
      using less by (auto intro: div_le_mono order_trans [OF div_le_dividend])
    moreover have "n div 16 * 16 + n mod 16 = n" by simp
    ultimately show ?thesis
      using False by (subst hex.simps) (simp add: hex_size_loop_append hex_digit_hex_char)
  qed
qed

lemma chunk_line_size_hex: "n \<le> SIZE_MAX \<Longrightarrow> chunk_line_size (hex n) = Some n"
proof -
  have "find_char (CHR '';'') (hex n) = None"
    using set_hex [of "CHR '';''" n] by (auto simp: find_char_None)
  then show "n \<le> SIZE_MAX \<Longrightarrow> chunk_line_size (hex n) = Some n"
    by (simp add: chunk_line_size_def hex_size_loop_hex)
qed

lemma wrap64_id: "n < 2 ^ 64 \<Longrightarrow> wrap64 n = n"
  by (simp add: wrap64_def)

lemma scan_loop_chunk:
  assumes "buf = pre @ wire_chunk d @ tail" "d \<noteq> []" "length buf < 2 ^ 64"
  shows "scan_loop buf (length pre) decoded = scan_loop buf (length (pre @ wire_chunk d)) (decoded @ d)"
proof -
  let ?h = "hex (length d)" and ?pos1 = "length pre + length (hex (length d)) + 2"
  have buf: "buf = pre @ ?h @ CR # LF # d @ CR # LF # tail"
    using assms(1) by (simp add: wire_chunk_def)
  have line: "str_find crlf buf (length pre) = Some (length pre + length ?h)"
    using set_hex [of CR "length d"] by (intro str_find_crlf_at [OF buf]) auto
  have sub: "substr buf (length pre) (length pre + length ?h - length pre) = ?h"
    by (simp add: buf substr_def)
  have "length d \<le> SIZE_MAX" using assms(3) by (simp add: buf SIZE_MAX_def)
  then have size: "chunk_line_size ?h = Some (length d)" by (rule chunk_line_size_hex)
  have len: "?pos1 + length d + 2 \<le> length buf" by (simp add: buf)
  then have wrap: "wrap64 (?pos1 + length d + 2) = ?pos1 + length d + 2" "wrap64 (?pos1 + length d) = ?pos1 + length d"
    using assms(3) by (intro wrap64_id; linarith)+
  have drop1: "drop ?pos1 buf = d @ CR # LF # tail"
  proof -
    have "?pos1 = length (pre @ ?h @ crlf)" by simp
    moreover have "buf = (pre @ ?h @ crlf) @ d @ CR # LF # tail" by (simp add: buf)
    ultimately show ?thesis by (metis append_eq_conv_conj)
  qed
  then have data: "substr buf ?pos1 (length d) = d" by (simp add: substr_def)
  have "drop (?pos1 + length d) buf = drop (length d) (drop ?pos1 buf)" by (simp add: add.commute add.left_commute)
  then have "substr buf (?pos1 + length d) 2 = crlf" unfolding drop1 substr_def by simp
  then show ?thesis
    using assms(2) len data
    by (subst scan_loop.simps) (simp only: line sub size wrap option.case Let_def, simp add: wire_chunk_def add.commute add.left_commute)
qed

lemma scan_loop_chunks:
  assumes "buf = pre @ wire_chunked ds @ rest" "list_all (\<lambda>d. d \<noteq> []) ds" "length buf < 2 ^ 64"
  shows "scan_loop buf (length pre) decoded =
           Some (Scan CS_Complete (Some (length pre + length (wire_chunked ds))) (decoded @ concat ds))"
  using assms
proof (induction ds arbitrary: pre decoded)
  case Nil
  have buf: "buf = pre @ ''0'' @ CR # LF # CR # LF # rest" using Nil by (simp add: wire_chunked_def)
  have line: "str_find crlf buf (length pre) = Some (length pre + 1)"
    using str_find_crlf_at [OF buf] by simp
  have "buf = (pre @ ''0'' @ crlf) @ [] @ CR # LF # rest" using buf by simp
  from str_find_crlf_at [OF this] have "str_find crlf buf (length pre + 3) = Some (length pre + 3)"
    by (simp add: numeral_3_eq_3)
  then have trailer: "scan_trailer buf (length pre + 3) = Some (length pre + 5)"
    by (subst scan_trailer.simps) simp
  have "chunk_line_size ''0'' = Some 0"
    by (simp add: chunk_line_size_def find_char_eq hex_digit.simps is_digit_def SIZE_MAX_def)
  moreover have "substr buf (length pre) 1 = ''0''" by (simp add: buf substr_def)
  ultimately show ?case
    using line trailer by (subst scan_loop.simps) (simp add: wire_chunked_def numeral_eq_Suc)
next
  case (Cons d ds)
  have "buf = pre @ wire_chunk d @ wire_chunked ds @ rest" using Cons.prems(1) by (simp add: wire_chunked_def)
  then have "scan_loop buf (length pre) decoded = scan_loop buf (length (pre @ wire_chunk d)) (decoded @ d)"
    using Cons.prems by (intro scan_loop_chunk) simp_all
  also have "\<dots> = Some (Scan CS_Complete (Some (length (pre @ wire_chunk d) + length (wire_chunked ds)))
      ((decoded @ d) @ concat ds))"
    using Cons.prems by (intro Cons.IH) (simp_all add: wire_chunked_def)
  finally show ?case by (simp add: wire_chunked_def add.assoc)
qed

subsection \<open>Termination\<close>

text \<open>No line of the buffer announces a size near \<open>2 ^ 64\<close>.\<close>

definition sane_sizes :: "string \<Rightarrow> bool" where
  "sane_sizes buf \<longleftrightarrow> length buf < 2 ^ 62 \<and> (\<forall>i n sz. chunk_line_size (substr buf i n) = Some sz \<longrightarrow> sz < 2 ^ 63)"

lemma scan_loop_returns:
  assumes "sane_sizes buf" "pos \<le> length buf"
  shows "\<exists>r. scan_loop buf pos decoded = Some r \<and>
     (\<forall>k e d. r = Scan k e d \<longrightarrow> length d \<le> length decoded + (length buf - pos))"
  using assms(2)
proof (induction "length buf - pos" arbitrary: pos decoded rule: less_induct)
  case less
  show ?case
  proof (cases "str_find crlf buf pos")
    case None
    then show ?thesis by (subst scan_loop.simps) auto
  next
    case (Some e)
    note e = Some str_find_ge [OF Some] str_find_bound [OF Some, simplified]
    show ?thesis
    proof (cases "chunk_line_size (substr buf pos (e - pos))")
      case None
      then show ?thesis by (subst scan_loop.simps) (auto simp: e)
    next
      case (Some sz)
      let ?p = "e + 2 + sz + 2"
      have "sz < 2 ^ 63" "length buf < 2 ^ 62" using assms(1) Some by (auto simp: sane_sizes_def)
      then have "e + 2 + sz + 2 < 2 ^ 62 + 2 + 2 ^ 63 + 2" using e(3) by linarith
      also have "\<dots> \<le> (2 :: nat) ^ 64" by simp
      finally have wrap: "wrap64 ?p = ?p" "wrap64 (e + 2 + sz) = e + 2 + sz"
        by (simp_all add: wrap64_id)
      show ?thesis
      proof (cases "sz \<noteq> 0 \<and> ?p \<le> length buf \<and> substr buf (e + 2 + sz) 2 = crlf")
        case True
        have "length (substr buf (e + 2) sz) \<le> sz" by (simp add: substr_def)
        moreover have "length buf - ?p < length buf - pos" using True e by auto
        then obtain r where r: "scan_loop buf ?p (decoded @ substr buf (e + 2) sz) = Some r"
          "\<forall>k b d. r = Scan k b d \<longrightarrow>
             length d \<le> length (decoded @ substr buf (e + 2) sz) + (length buf - ?p)"
          using less.hyps [of ?p "decoded @ substr buf (e + 2) sz"] True by blast
        moreover have "scan_loop buf pos decoded = scan_loop buf ?p (decoded @ substr buf (e + 2) sz)"
          using True wrap by (subst scan_loop.simps) (simp add: e(1) Some)
        ultimately show ?thesis using True e by (intro exI [of _ r]) fastforce
      next
        case False
        then show ?thesis
          using wrap by (subst scan_loop.simps) (auto simp: e(1) Some split: option.split)
      qed
    qed
  qed
qed

text \<open>The chunk-size line whose size is \<open>2 ^ 64 - 20\<close>: the sum wraps back to the start of the line.\<close>

definition looping_line :: string where
  "looping_line = ''ffffffffffffffec''"

lemma looping_size: "chunk_line_size looping_line = Some (2 ^ 64 - 20)"
  by (simp add: chunk_line_size_def looping_line_def find_char_eq hex_digit.simps is_digit_def SIZE_MAX_def)

lemma scan_loop_diverges:
  assumes "buf = pre @ crlf @ looping_line @ crlf @ rest" "length pre + 2 < 2 ^ 64"
  shows "scan_loop buf (length pre + 2) decoded = None"
proof -
  let ?s = "length pre + 2"
  have buf: "buf = (pre @ crlf) @ looping_line @ CR # LF # rest" using assms(1) by simp
  have line: "str_find crlf buf ?s = Some (?s + 16)"
    using str_find_crlf_at [OF buf] by (simp add: looping_line_def)
  have sub: "substr buf ?s (?s + 16 - ?s) = looping_line"
    by (simp add: buf substr_def looping_line_def numeral_eq_Suc)
  have "?s + 16 + 2 + (2 ^ 64 - 20) + 2 = 2 ^ 64 + ?s" "?s + 16 + 2 + (2 ^ 64 - 20) = 2 ^ 64 + length pre"
    by simp_all
  then have wrap: "wrap64 (?s + 16 + 2 + (2 ^ 64 - 20) + 2) = ?s" "wrap64 (?s + 16 + 2 + (2 ^ 64 - 20)) = length pre"
    using assms(2) by (simp_all only: wrap64_def mod_add_self1 mod_less)
  have behind: "substr buf (length pre) 2 = crlf" by (simp add: buf substr_def)
  have len: "\<not> length buf < ?s" "\<not> length pre > length buf" by (simp_all add: buf)
  have "\<not> (b = buf \<and> p = ?s)" if "scan_loop b p d = Some y" for b p d y
  proof (rule scan_loop.raw_induct [where P = "\<lambda>b p d y. \<not> (b = buf \<and> p = ?s)", OF _ that], rule notI, elim conjE)
    fix f b p d y
    assume IH: "\<And>b p d y. f b p d = Some y \<Longrightarrow> \<not> (b = buf \<and> p = ?s)"
      and body: "(case str_find crlf b p of None \<Rightarrow> Some (Scan CS_Incomplete None d)
        | Some line_end \<Rightarrow> (case chunk_line_size (substr b p (line_end - p)) of
             None \<Rightarrow> Some (Scan CS_Error None d)
           | Some sz \<Rightarrow> (let pos1 = line_end + 2
                in if sz = 0 then
                     (case scan_trailer b pos1 of
                        None \<Rightarrow> Some (Scan CS_Incomplete None d)
                      | Some body_end \<Rightarrow> Some (Scan CS_Complete (Some body_end) d))
                   else if length b < wrap64 (pos1 + sz + 2) then Some (Scan CS_Incomplete None d)
                   else if wrap64 (pos1 + sz) > length b then Some (Scan_throw d)
                   else if substr b (wrap64 (pos1 + sz)) 2 \<noteq> crlf then Some (Scan CS_Error None d)
                   else f b (wrap64 (pos1 + sz + 2)) (d @ substr b pos1 sz)))) = Some y"
      and "b = buf" "p = ?s"
    have "f buf ?s (d @ substr buf (?s + 16 + 2) (2 ^ 64 - 20)) = Some y"
      using body unfolding \<open>b = buf\<close> \<open>p = ?s\<close> line sub option.case looping_size Let_def wrap
      by (simp only: behind len if_False) (simp split: if_splits)
    then show False using IH by blast
  qed
  then show ?thesis by (metis option.exhaust)
qed

subsection \<open>Properties\<close>

text \<open>C25: a chunked response is decoded to the concatenation of its chunks, whatever the chunk
  boundaries and whatever stands before and behind it in the buffer, and the reported end is just
  behind the terminating empty line.\<close>

theorem scan_chunked_roundtrip:
  assumes "list_all (\<lambda>d. d \<noteq> []) ds" "length (pre @ wire_chunked ds @ rest) < 2 ^ 64"
  shows "scan_chunked_body (pre @ wire_chunked ds @ rest) (length pre) =
           Some (Scan CS_Complete (Some (length pre + length (wire_chunked ds))) (concat ds))"
  unfolding scan_chunked_body_def
  using scan_loop_chunks [OF refl assms, of "[]"] by simp

theorem scan_chunked_roundtrip_witness:
  "scan_chunked_body (''H'' @ wire_chunked [''ab'', ''c''] @ ''next'') (length ''H'') =
     Some (Scan CS_Complete (Some (length ''H'' + length (wire_chunked [''ab'', ''c'']))) (concat [''ab'', ''c'']))"
  by (rule scan_chunked_roundtrip) (simp_all add: wire_chunked_def wire_chunk_def hex.simps)



text \<open>C27: a chunk-size line of \<open>2 ^ 64 - 20\<close> makes the scan run forever: the position wraps back to
  the start of that line. Eighteen bytes from a backend, right behind the header block, are enough.\<close>

theorem scan_chunked_diverges:
  assumes "length pre + 2 < 2 ^ 64"
  shows "scan_chunked_body (pre @ crlf @ ''ffffffffffffffec'' @ crlf @ rest) (length pre + 2) = None"
  unfolding scan_chunked_body_def
  by (rule scan_loop_diverges [OF _ assms]) (simp add: looping_line_def)

theorem scan_chunked_diverges_witness:
  "scan_chunked_body (''HTTP/1.1 200 OK'' @ crlf @ ''ffffffffffffffec'' @ crlf @ []) (length ''HTTP/1.1 200 OK'' + 2) = None"
  by (rule scan_chunked_diverges) simp

end
