(* ===== verification/Upstream_Exchange.thy ===== *)
theory Upstream_Exchange
  imports Chunk_Scan Connection_Pool
begin

text \<open>
  One round trip to an upstream server, driven by the event loop (\<^verbatim>\<open>UpstreamExchange\<close> in
  \<^verbatim>\<open>http_client.h\<close> and \<^verbatim>\<open>http_client.cpp\<close>). The state machine is the source's: phases, flags and
  buffers. What the operating system, the TLS library and the clock answer during one iteration of
  the loop in \<^verbatim>\<open>run\<close> is a record of answers; a call of \<^verbatim>\<open>run\<close> consumes one record per iteration. The
  process-wide connection pool and the bytes written to sockets are part of the state, so the
  effects of an exchange on them are visible. The clock counts nanoseconds and is read once per
  iteration.
\<close>

subsection \<open>State\<close>

record tls_options =
  uto_enable :: bool
  uto_ca_file :: string
  uto_server_name :: string
  uto_skip_verify :: bool

record exchange_params =
  xp_host :: string
  xp_port :: int
  xp_method :: string
  xp_path :: string
  xp_headers :: headers
  xp_body :: string
  xp_timeout_ms :: int
  xp_max_response_bytes :: size_t
  xp_tls :: tls_options

datatype want = Want_Read | Want_Write | Want_Done

datatype phase = Ph_Connect | Ph_Connecting | Ph_TlsHandshake | Ph_Send | Ph_Read | Ph_Done

datatype frame_result = Fr_Incomplete | Fr_Complete | Fr_Error

record exchange =
  x_params :: exchange_params
  x_idempotent :: bool
  x_phase :: phase
  x_pool_scheme :: string
  x_sock :: "nat option"
  x_used_pooled :: bool
  x_retried :: bool
  x_force_fresh :: bool
  x_request_bytes :: string
  x_send_off :: size_t
  x_response_bytes :: string
  x_body_end :: "size_t option"
  x_response_keepalive :: bool
  x_response_is_chunked :: bool
  x_peer_closed :: bool
  x_decoded_body :: string
  x_succeeded :: bool
  x_result :: backend_response
  x_deadline :: int

text \<open>The pool and the bytes written so far, per socket.\<close>

record network =
  nw_pool :: connection_pool
  nw_wire :: "(nat \<times> string) list"

subsection \<open>Answers of the environment\<close>

datatype fresh_answer = Socket_fails | Connect_throws | Connected nat | In_progress nat

datatype handshake_status = HS_COMPLETE | HS_FAILED | HS_WANT_READ | HS_WANT_WRITE

datatype send_answer = Sent nat | Send_eintr | Send_again | Send_fails | Send_throws

datatype recv_answer = Received string | Recv_eof | Recv_eintr | Recv_again | Recv_fails | Recv_throws

record answers =
  an_now :: int
  an_fresh :: fresh_answer
  an_valid_address :: bool
  an_alive :: bool
  an_socket_error :: int
  an_tls_ready :: bool
  an_handshake :: handshake_status
  an_send :: send_answer
  an_recv :: recv_answer
  an_other_direction :: bool

subsection \<open>Construction and connecting\<close>

definition pool_scheme :: "tls_options \<Rightarrow> string" where
  "pool_scheme tls =
     (if \<not> uto_enable tls then []
      else if uto_skip_verify tls then ''tls/insecure|''
      else ''tls/'' @ uto_ca_file tls @ ''|'' @ uto_server_name tls @ ''|'')"

definition refresh_deadline :: "int \<Rightarrow> exchange \<Rightarrow> exchange" where
  "refresh_deadline now x = x\<lparr>x_deadline := now + xp_timeout_ms (x_params x) * 1000000\<rparr>"

definition expired :: "int \<Rightarrow> exchange \<Rightarrow> bool" where
  "expired now x \<longleftrightarrow> now \<ge> x_deadline x"

definition exchange_create :: "exchange_params \<Rightarrow> bool \<Rightarrow> int \<Rightarrow> exchange" where
  "exchange_create params idempotent now =
     (let x = \<lparr>x_params = params, x_idempotent = idempotent, x_phase = Ph_Connect,
               x_pool_scheme = pool_scheme (xp_tls params), x_sock = None, x_used_pooled = False,
               x_retried = False, x_force_fresh = False, x_request_bytes = [], x_send_off = 0,
               x_response_bytes = [], x_body_end = None, x_response_keepalive = False,
               x_response_is_chunked = False, x_peer_closed = False, x_decoded_body = [],
               x_succeeded = False,
               x_result = make_backend_error 502 ConnectFailed ''Bad Gateway'',
               x_deadline = now + xp_timeout_ms params * 1000000\<rparr>
      in if xp_timeout_ms params \<le> 0
         then x\<lparr>x_phase := Ph_Done, x_result := make_backend_error 504 ConnectTimeout ''Gateway Timeout''\<rparr>
         else x)"

definition open_fresh :: "answers \<Rightarrow> exchange \<Rightarrow> bool \<times> exchange" where
  "open_fresh a x =
     (case an_fresh a of
        Socket_fails \<Rightarrow> (False, x\<lparr>x_sock := None\<rparr>)
      | Connect_throws \<Rightarrow> (False, x\<lparr>x_sock := None\<rparr>)
      | In_progress s \<Rightarrow>
          (if \<not> an_valid_address a then (False, x\<lparr>x_sock := None\<rparr>)
           else (True, refresh_deadline (an_now a) (x\<lparr>x_sock := Some s, x_phase := Ph_Connecting\<rparr>)))
      | Connected s \<Rightarrow>
          (if \<not> an_valid_address a then (False, x\<lparr>x_sock := None\<rparr>)
           else if \<not> uto_enable (xp_tls (x_params x))
             then (True, refresh_deadline (an_now a) (x\<lparr>x_sock := Some s, x_phase := Ph_Send\<rparr>))
           else if \<not> an_tls_ready a then (False, x\<lparr>x_sock := None\<rparr>)
           else (True, refresh_deadline (an_now a) (x\<lparr>x_sock := Some s, x_phase := Ph_TlsHandshake\<rparr>))))"

definition open_connection :: "answers \<Rightarrow> exchange \<times> network \<Rightarrow> bool \<times> exchange \<times> network" where
  "open_connection a xn =
     (case xn of (x0, nw) \<Rightarrow>
        (let x = x0\<lparr>x_used_pooled := False\<rparr>;
             fresh = (\<lambda>nw. case open_fresh a x of (ok, x') \<Rightarrow> (ok, x', nw))
         in if x_force_fresh x then fresh nw
            else
              (case checkout (xp_host (x_params x)) (xp_port (x_params x)) (x_pool_scheme x) (an_now a) (nw_pool nw) of
                 (None, pool) \<Rightarrow> fresh (nw\<lparr>nw_pool := pool\<rparr>)
               | (Some c, pool) \<Rightarrow>
                   (if an_alive a
                    then (True, refresh_deadline (an_now a)
                           (x\<lparr>x_sock := Some (pc_socket c), x_used_pooled := True,
                              x_response_bytes := pc_leftover c, x_phase := Ph_Send\<rparr>),
                          nw\<lparr>nw_pool := pool\<rparr>)
                    else fresh (nw\<lparr>nw_pool := pool\<rparr>)))))"

subsection \<open>The request\<close>

definition forwarded :: "headers \<Rightarrow> headers" where
  "forwarded hs = filter (\<lambda>(k, v). \<not> (is_hop_by_hop_header (lower k) \<or> lower k \<in> set (connection_tokens hs))) hs"

definition needs_content_length :: "exchange_params \<Rightarrow> bool" where
  "needs_content_length p \<longleftrightarrow> xp_body p \<noteq> [] \<or> has_key ''content-length'' (xp_headers p) \<or>
     has_key ''transfer-encoding'' (xp_headers p)"

definition build_request :: "exchange_params \<Rightarrow> string" where
  "build_request p =
     xp_method p @ '' '' @ xp_path p @ '' HTTP/1.1'' @ crlf @
     ''Host: '' @ xp_host p @ '':'' @ dec_int (xp_port p) @ crlf @
     concat (map (\<lambda>(k, v). k @ '': '' @ v @ crlf) (forwarded (xp_headers p))) @
     (if needs_content_length p then ''Content-Length: '' @ dec (length (xp_body p)) @ crlf else []) @
     crlf @ xp_body p"

subsection \<open>Framing the response\<close>

definition is_space :: "char \<Rightarrow> bool" where
  "is_space c \<longleftrightarrow> c = CHR '' '' \<or> 9 \<le> code c \<and> code c \<le> 13"

text \<open>\<^verbatim>\<open>std::stoi\<close> and \<^verbatim>\<open>std::stoull\<close>; \<^term>\<open>None\<close> is a thrown exception.\<close>

definition stoi :: "string \<Rightarrow> int option" where
  "stoi s =
     (let t = dropWhile is_space s;
          neg = (t \<noteq> [] \<and> hd t = CHR ''-'');
          u = (if t \<noteq> [] \<and> (hd t = CHR ''-'' \<or> hd t = CHR ''+'') then tl t else t);
          ds = takeWhile is_digit u;
          v = (if neg then - int (dec_value ds) else int (dec_value ds))
      in if ds = [] \<or> v < - (2 ^ 31) \<or> v \<ge> 2 ^ 31 then None else Some v)"

definition stoull_digits :: "string \<Rightarrow> nat option" where
  "stoull_digits s = (if dec_value s < 2 ^ 64 then Some (dec_value s) else None)"

datatype frame_outcome = Framed frame_result | Frame_throws | Frame_diverges

definition kExchangeMaxHeaderSize :: nat where
  "kExchangeMaxHeaderSize = 256 * 1024"

definition kExchangeReadChunk :: nat where
  "kExchangeReadChunk = 65536"

definition status_line_of :: "string \<Rightarrow> string" where
  "status_line_of headers_part =
     (case str_find crlf headers_part 0 of None \<Rightarrow> headers_part | Some i \<Rightarrow> take i headers_part)"

definition keepalive_of :: "string \<Rightarrow> bool" where
  "keepalive_of headers_part =
     (let conn = find_header_value headers_part ''connection''
      in if str_find ''HTTP/1.1'' (status_line_of headers_part) 0 = Some 0 then conn \<noteq> ''close''
         else conn = ''keep-alive'')"

definition frame_chunked :: "nat \<Rightarrow> exchange \<Rightarrow> frame_outcome \<times> exchange" where
  "frame_chunked header_end x =
     (case scan_chunked_body (x_response_bytes x) (header_end + 4) of
        None \<Rightarrow> (Frame_diverges, x\<lparr>x_response_is_chunked := True, x_decoded_body := []\<rparr>)
      | Some (Scan_throw d) \<Rightarrow> (Frame_throws, x\<lparr>x_response_is_chunked := True, x_decoded_body := d\<rparr>)
      | Some (Scan k e d) \<Rightarrow>
          (let x2 = x\<lparr>x_response_is_chunked := True, x_decoded_body := d\<rparr>
           in case k of
                CS_Complete \<Rightarrow> (Framed Fr_Complete, x2\<lparr>x_body_end := e\<rparr>)
              | CS_Error \<Rightarrow> (Framed Fr_Error, x2)
              | CS_Incomplete \<Rightarrow> (Framed Fr_Incomplete, x2)))"

definition frame_length :: "nat \<Rightarrow> string \<Rightarrow> exchange \<Rightarrow> frame_outcome \<times> exchange" where
  "frame_length header_end cl x =
     (if cl \<noteq> [] \<and> list_all is_digit cl then
        (case stoull_digits cl of
           None \<Rightarrow> (Framed Fr_Error, x)
         | Some content_length \<Rightarrow>
             (if content_length > xp_max_response_bytes (x_params x) then (Framed Fr_Error, x)
              else if length (x_response_bytes x) \<ge> header_end + 4 + content_length
                then (Framed Fr_Complete, x\<lparr>x_body_end := Some (header_end + 4 + content_length)\<rparr>)
              else (Framed Fr_Incomplete, x)))
      else if \<not> x_response_keepalive x then
        (if x_peer_closed x
         then (Framed Fr_Complete, x\<lparr>x_body_end := Some (length (x_response_bytes x))\<rparr>)
         else (Framed Fr_Incomplete, x))
      else (Framed Fr_Error, x))"

definition try_frame :: "exchange \<Rightarrow> frame_outcome \<times> exchange" where
  "try_frame x =
     (case str_find (crlf @ crlf) (x_response_bytes x) 0 of
        None \<Rightarrow>
          (Framed (if length (x_response_bytes x) > kExchangeMaxHeaderSize then Fr_Error else Fr_Incomplete), x)
      | Some header_end \<Rightarrow>
          (let headers_part = take header_end (x_response_bytes x);
               x1 = x\<lparr>x_response_keepalive := keepalive_of headers_part\<rparr>;
               te = find_header_value headers_part ''transfer-encoding''
           in if str_find ''chunked'' te 0 \<noteq> None then frame_chunked header_end x1
              else if te \<noteq> [] then (Framed Fr_Error, x1)
              else frame_length header_end (find_header_value headers_part ''content-length'') x1))"

text \<open>The loop over the header lines of the response, and what it does with a line.\<close>

definition line_put :: "string \<Rightarrow> headers \<Rightarrow> headers" where
  "line_put line hs =
     (case find_char (CHR '':'') line of
        None \<Rightarrow> hs
      | Some colon \<Rightarrow> put (take colon line) (trim_blanks (drop (colon + 1) line)) hs)"

function response_headers_loop :: "string \<Rightarrow> nat \<Rightarrow> headers \<Rightarrow> headers" where
  "response_headers_loop headers_part line_start hs =
     (if line_start < length headers_part then
        (let line_end = str_find crlf headers_part line_start;
             line = (case line_end of None \<Rightarrow> drop line_start headers_part
                     | Some e \<Rightarrow> substr headers_part line_start (e - line_start))
         in case line_end of
              None \<Rightarrow> line_put line hs
            | Some e \<Rightarrow> response_headers_loop headers_part (e + 2) (line_put line hs))
      else hs)"
  by pat_completeness auto
termination
  by (relation "measure (\<lambda>(headers_part, line_start, hs). length headers_part - line_start)")
     (auto dest!: str_find_ge [OF sym])

declare response_headers_loop.simps [simp del]

definition parse_status :: "string \<Rightarrow> int option" where
  "parse_status bytes =
     (case str_find '' '' bytes 0 of
        None \<Rightarrow> None
      | Some pos \<Rightarrow>
          (case str_find '' '' bytes (pos + 1) of
             None \<Rightarrow> None
           | Some pos2 \<Rightarrow> stoi (substr bytes (pos + 1) (pos2 - pos - 1))))"

text \<open>Called only on a complete frame, so the end of the header block is always found.\<close>

definition finish_ok :: "exchange \<Rightarrow> exchange" where
  "finish_ok x =
     (case parse_status (x_response_bytes x) of
        None \<Rightarrow> x\<lparr>x_phase := Ph_Done, x_result := make_backend_error 502 InvalidResponse ''Bad Gateway''\<rparr>
      | Some status \<Rightarrow>
          (let header_end = (case str_find (crlf @ crlf) (x_response_bytes x) 0 of None \<Rightarrow> 0 | Some h \<Rightarrow> h);
               headers_part = take header_end (x_response_bytes x);
               body = (if x_response_is_chunked x then x_decoded_body x
                       else case x_body_end x of
                              None \<Rightarrow> drop (header_end + 4) (x_response_bytes x)
                            | Some e \<Rightarrow> substr (x_response_bytes x) (header_end + 4) (e - (header_end + 4)))
           in x\<lparr>x_result := \<lparr>br_status_code = status,
                   br_headers = response_headers_loop headers_part (first_line_start headers_part) (br_headers (x_result x)),
                   br_body = body, br_error = BE_None\<rparr>,
                x_succeeded := True, x_phase := Ph_Done\<rparr>))"

subsection \<open>Failure, the driving loop and reuse\<close>

definition exchange_fail ::
  "backend_error \<Rightarrow> int \<Rightarrow> string \<Rightarrow> int \<Rightarrow> exchange \<times> network \<Rightarrow> bool \<times> exchange \<times> network" where
  "exchange_fail error http_status body now xn =
     (case xn of (x, nw) \<Rightarrow>
        (let nw' = (if x_used_pooled x
                    then nw\<lparr>nw_pool := invalidate (xp_host (x_params x)) (xp_port (x_params x)) (x_pool_scheme x) (nw_pool nw)\<rparr>
                    else nw)
         in if x_used_pooled x \<and> x_idempotent x \<and> \<not> x_retried x then
              (True, refresh_deadline now
                 (x\<lparr>x_retried := True, x_force_fresh := True, x_used_pooled := False, x_sock := None,
                    x_response_bytes := [], x_decoded_body := [], x_request_bytes := [], x_send_off := 0,
                    x_body_end := None, x_response_keepalive := False, x_response_is_chunked := False,
                    x_peer_closed := False, x_phase := Ph_Connect\<rparr>), nw')
            else
              (False, x\<lparr>x_result := make_backend_error http_status error body, x_succeeded := False,
                        x_phase := Ph_Done\<rparr>, nw')))"

text \<open>One iteration of the loop in \<^verbatim>\<open>run\<close>: it goes round again with an event mask, returns a
  direction, throws, or does not return.\<close>

datatype iteration = Again nat | Return_want want | Throws | Diverges

definition fail_or_again ::
  "backend_error \<Rightarrow> int \<Rightarrow> string \<Rightarrow> nat \<Rightarrow> int \<Rightarrow> exchange \<times> network \<Rightarrow> iteration \<times> exchange \<times> network" where
  "fail_or_again error http_status body ev now xn =
     (case exchange_fail error http_status body now xn of
        (retry, xn') \<Rightarrow> (if retry then Again ev else Return_want Want_Done, xn'))"

definition on_expired :: "nat \<Rightarrow> int \<Rightarrow> exchange \<times> network \<Rightarrow> iteration \<times> exchange \<times> network" where
  "on_expired ev now xn =
     (case x_phase (fst xn) of
        Ph_Send \<Rightarrow> fail_or_again WriteTimeout 504 ''Gateway Timeout'' ev now xn
      | Ph_Read \<Rightarrow> fail_or_again ReadTimeout 504 ''Gateway Timeout'' ev now xn
      | Ph_Done \<Rightarrow> (Return_want Want_Done, xn)
      | _ \<Rightarrow> fail_or_again ConnectTimeout 504 ''Gateway Timeout'' ev now xn)"

definition run_connect :: "answers \<Rightarrow> exchange \<times> network \<Rightarrow> iteration \<times> exchange \<times> network" where
  "run_connect a xn =
     (case open_connection a xn of
        (ok, xn') \<Rightarrow> if ok then (Again 0, xn') else fail_or_again ConnectFailed 502 ''Bad Gateway'' 0 (an_now a) xn')"

definition run_connecting :: "nat \<Rightarrow> answers \<Rightarrow> exchange \<times> network \<Rightarrow> iteration \<times> exchange \<times> network" where
  "run_connecting ev a xn =
     (case xn of (x, nw) \<Rightarrow>
        if ev = 0 then (Return_want Want_Write, xn)
        else if an_socket_error a \<noteq> 0 then fail_or_again ConnectFailed 502 ''Bad Gateway'' 0 (an_now a) xn
        else if \<not> uto_enable (xp_tls (x_params x))
          then (Again 0, refresh_deadline (an_now a) (x\<lparr>x_phase := Ph_Send\<rparr>), nw)
        else if \<not> an_tls_ready a then fail_or_again ConnectFailed 502 ''Bad Gateway'' 0 (an_now a) xn
        else (Again 0, refresh_deadline (an_now a) (x\<lparr>x_phase := Ph_TlsHandshake\<rparr>), nw))"

definition run_handshake :: "answers \<Rightarrow> exchange \<times> network \<Rightarrow> iteration \<times> exchange \<times> network" where
  "run_handshake a xn =
     (case xn of (x, nw) \<Rightarrow>
        (case an_handshake a of
           HS_COMPLETE \<Rightarrow> (Again 0, refresh_deadline (an_now a) (x\<lparr>x_phase := Ph_Send\<rparr>), nw)
         | HS_FAILED \<Rightarrow> fail_or_again ConnectFailed 502 ''Bad Gateway'' 0 (an_now a) xn
         | HS_WANT_READ \<Rightarrow> (Return_want Want_Read, refresh_deadline (an_now a) x, nw)
         | HS_WANT_WRITE \<Rightarrow> (Return_want Want_Write, refresh_deadline (an_now a) x, nw)))"

text \<open>A write takes at most the bytes that are left.\<close>

definition run_send :: "answers \<Rightarrow> exchange \<times> network \<Rightarrow> iteration \<times> exchange \<times> network" where
  "run_send a xn =
     (case xn of (x0, nw) \<Rightarrow>
        (let x = (if x_request_bytes x0 = [] then x0\<lparr>x_request_bytes := build_request (x_params x0)\<rparr> else x0)
         in if x_send_off x < length (x_request_bytes x) then
              (case an_send a of
                 Sent n \<Rightarrow>
                   (let bytes = take n (drop (x_send_off x) (x_request_bytes x))
                    in (Again 0, refresh_deadline (an_now a) (x\<lparr>x_send_off := x_send_off x + length bytes\<rparr>),
                        nw\<lparr>nw_wire := nw_wire nw @ [(the (x_sock x), bytes)]\<rparr>))
               | Send_eintr \<Rightarrow> (Again 0, x, nw)
               | Send_again \<Rightarrow>
                   (Return_want (if an_other_direction a then Want_Read else Want_Write),
                    refresh_deadline (an_now a) x, nw)
               | Send_fails \<Rightarrow> fail_or_again WriteFailed 502 ''Bad Gateway'' 0 (an_now a) (x, nw)
               | Send_throws \<Rightarrow> (Throws, x, nw))
            else (Again 0, refresh_deadline (an_now a) (x\<lparr>x_phase := Ph_Read\<rparr>), nw)))"

definition run_receive :: "answers \<Rightarrow> exchange \<times> network \<Rightarrow> iteration \<times> exchange \<times> network" where
  "run_receive a xn =
     (case xn of (x, nw) \<Rightarrow>
        (case an_recv a of
           Received bytes \<Rightarrow>
             (Again 0, refresh_deadline (an_now a) (x\<lparr>x_response_bytes := x_response_bytes x @ bytes\<rparr>), nw)
         | Recv_eof \<Rightarrow>
             (let x1 = x\<lparr>x_peer_closed := True\<rparr>
              in if str_find (crlf @ crlf) (x_response_bytes x1) 0 \<noteq> None \<and> \<not> x_response_keepalive x1 then
                   (case try_frame x1 of
                      (Framed Fr_Complete, x2) \<Rightarrow> (Return_want Want_Done, finish_ok x2, nw)
                    | (Framed _, x2) \<Rightarrow> fail_or_again ReadFailed 502 ''Bad Gateway'' 0 (an_now a) (x2, nw)
                    | (Frame_throws, x2) \<Rightarrow> (Throws, x2, nw)
                    | (Frame_diverges, x2) \<Rightarrow> (Diverges, x2, nw))
                 else fail_or_again ReadFailed 502 ''Bad Gateway'' 0 (an_now a) (x1, nw))
         | Recv_eintr \<Rightarrow> (Again 0, x, nw)
         | Recv_again \<Rightarrow>
             (Return_want (if an_other_direction a then Want_Write else Want_Read),
              refresh_deadline (an_now a) x, nw)
         | Recv_fails \<Rightarrow> fail_or_again ReadFailed 502 ''Bad Gateway'' 0 (an_now a) xn
         | Recv_throws \<Rightarrow> (Throws, xn)))"

definition run_read :: "answers \<Rightarrow> exchange \<times> network \<Rightarrow> iteration \<times> exchange \<times> network" where
  "run_read a xn =
     (case try_frame (fst xn) of
        (Framed Fr_Complete, x) \<Rightarrow> (Return_want Want_Done, finish_ok x, snd xn)
      | (Framed Fr_Error, x) \<Rightarrow> fail_or_again InvalidResponse 502 ''Bad Gateway'' 0 (an_now a) (x, snd xn)
      | (Framed Fr_Incomplete, x) \<Rightarrow>
          (if length (x_response_bytes x) > xp_max_response_bytes (x_params x)
           then fail_or_again ReadFailed 502 ''Bad Gateway'' 0 (an_now a) (x, snd xn)
           else run_receive a (x, snd xn))
      | (Frame_throws, x) \<Rightarrow> (Throws, x, snd xn)
      | (Frame_diverges, x) \<Rightarrow> (Diverges, x, snd xn))"

definition run_iteration :: "nat \<Rightarrow> answers \<Rightarrow> exchange \<times> network \<Rightarrow> iteration \<times> exchange \<times> network" where
  "run_iteration ev a xn =
     (if x_phase (fst xn) = Ph_Done then (Return_want Want_Done, xn)
      else if expired (an_now a) (fst xn) then on_expired ev (an_now a) xn
      else case x_phase (fst xn) of
             Ph_Connect \<Rightarrow> run_connect a xn
           | Ph_Connecting \<Rightarrow> run_connecting ev a xn
           | Ph_TlsHandshake \<Rightarrow> run_handshake a xn
           | Ph_Send \<Rightarrow> run_send a xn
           | Ph_Read \<Rightarrow> run_read a xn
           | Ph_Done \<Rightarrow> (Return_want Want_Done, xn))"

text \<open>The loop; it is still going round when the answers run out.\<close>

fun exchange_run ::
  "nat \<Rightarrow> answers list \<Rightarrow> exchange \<times> network \<Rightarrow> iteration \<times> answers list \<times> exchange \<times> network" where
  "exchange_run ev [] xn = (Again ev, [], xn)"
| "exchange_run ev (a # as) xn =
     (case run_iteration ev a xn of
        (Again ev', xn') \<Rightarrow> exchange_run ev' as xn'
      | (r, xn') \<Rightarrow> (r, as, xn'))"

text \<open>\<^verbatim>\<open>advance\<close>: an exception is turned into a failure, at time \<^term>\<open>now\<close>; a second one escapes.\<close>

definition exchange_advance ::
  "nat \<Rightarrow> answers list \<Rightarrow> int \<Rightarrow> exchange \<times> network \<Rightarrow> iteration \<times> answers list \<times> exchange \<times> network" where
  "exchange_advance ev as now xn =
     (case exchange_run ev as xn of
        (Throws, as', xn') \<Rightarrow>
          (let error = (if x_phase (fst xn') = Ph_Send then WriteFailed
                        else if x_phase (fst xn') = Ph_Read then ReadFailed else ConnectFailed)
           in case exchange_fail error 502 ''Bad Gateway'' now xn' of
                (True, xn'') \<Rightarrow> exchange_run 0 as' xn''
              | (False, xn'') \<Rightarrow> (Return_want Want_Done, as', xn''))
      | r \<Rightarrow> r)"

definition reuse_to_pool :: "int \<Rightarrow> exchange \<times> network \<Rightarrow> exchange \<times> network" where
  "reuse_to_pool now xn =
     (case xn of (x, nw) \<Rightarrow>
        (case x_sock x of
           None \<Rightarrow> xn
         | Some s \<Rightarrow>
             if \<not> x_succeeded x \<or> \<not> x_response_keepalive x \<or> x_peer_closed x then xn
             else
               (let leftover = (case x_body_end x of
                                  None \<Rightarrow> []
                                | Some e \<Rightarrow> if e \<ge> length (x_response_bytes x) then [] else drop e (x_response_bytes x))
                in (x\<lparr>x_sock := None\<rparr>,
                    nw\<lparr>nw_pool := checkin (xp_host (x_params x)) (xp_port (x_params x)) (x_pool_scheme x)
                         \<lparr>pc_socket = s, pc_leftover = leftover, pc_last_used = now\<rparr> now (nw_pool nw)\<rparr>))))"

subsection \<open>What framing leaves alone\<close>

lemma frame_chunked_frame [simp]:
  "x_params (snd (frame_chunked h x)) = x_params x"
  "x_idempotent (snd (frame_chunked h x)) = x_idempotent x"
  "x_request_bytes (snd (frame_chunked h x)) = x_request_bytes x"
  "x_send_off (snd (frame_chunked h x)) = x_send_off x"
  "x_retried (snd (frame_chunked h x)) = x_retried x"
  "x_phase (snd (frame_chunked h x)) = x_phase x"
  "x_succeeded (snd (frame_chunked h x)) = x_succeeded x"
  "x_result (snd (frame_chunked h x)) = x_result x"
  "x_sock (snd (frame_chunked h x)) = x_sock x"
  "x_response_bytes (snd (frame_chunked h x)) = x_response_bytes x"
  by (simp_all add: frame_chunked_def Let_def split: option.split scan_result.split chunk_scan.split)

lemma frame_length_frame [simp]:
  "x_params (snd (frame_length h cl x)) = x_params x"
  "x_idempotent (snd (frame_length h cl x)) = x_idempotent x"
  "x_request_bytes (snd (frame_length h cl x)) = x_request_bytes x"
  "x_send_off (snd (frame_length h cl x)) = x_send_off x"
  "x_retried (snd (frame_length h cl x)) = x_retried x"
  "x_phase (snd (frame_length h cl x)) = x_phase x"
  "x_succeeded (snd (frame_length h cl x)) = x_succeeded x"
  "x_result (snd (frame_length h cl x)) = x_result x"
  "x_sock (snd (frame_length h cl x)) = x_sock x"
  "x_response_bytes (snd (frame_length h cl x)) = x_response_bytes x"
  by (simp_all add: frame_length_def split: option.split)

lemma try_frame_frame [simp]:
  "x_params (snd (try_frame x)) = x_params x"
  "x_idempotent (snd (try_frame x)) = x_idempotent x"
  "x_request_bytes (snd (try_frame x)) = x_request_bytes x"
  "x_send_off (snd (try_frame x)) = x_send_off x"
  "x_retried (snd (try_frame x)) = x_retried x"
  "x_phase (snd (try_frame x)) = x_phase x"
  "x_succeeded (snd (try_frame x)) = x_succeeded x"
  "x_result (snd (try_frame x)) = x_result x"
  "x_sock (snd (try_frame x)) = x_sock x"
  "x_response_bytes (snd (try_frame x)) = x_response_bytes x"
  by (simp_all add: try_frame_def Let_def split: option.split)

lemma open_phase:
  assumes "x_phase x = Ph_Connect"
  shows "x_phase (fst (snd (open_connection a (x, nw)))) \<noteq> Ph_Done"
proof -
  have "x_phase (snd (open_fresh a (x\<lparr>x_used_pooled := False\<rparr>))) \<noteq> Ph_Done"
    using assms by (simp add: open_fresh_def refresh_deadline_def split: fresh_answer.split)
  then show ?thesis
    by (simp add: open_connection_def refresh_deadline_def Let_def case_prod_unfold split: option.split)
qed

lemma fail_or_again_not_throws: "fst (fail_or_again error status body ev now xn) \<noteq> Throws"
  by (simp add: fail_or_again_def split: prod.split)

lemma receive_throws:
  assumes "run_receive a (x, nw) = (Throws, xn')" "x_phase x = Ph_Read"
  shows "x_phase (fst xn') = Ph_Read"
proof -
  obtain out x2 where f: "try_frame (x\<lparr>x_peer_closed := True\<rparr>) = (out, x2)" by (metis surj_pair)
  then have "x_phase x2 = Ph_Read" using try_frame_frame(6) [of "x\<lparr>x_peer_closed := True\<rparr>"] assms(2) by simp
  with assms f show ?thesis
    by (auto simp: run_receive_def Let_def fail_or_again_def split: recv_answer.splits if_splits prod.splits
        frame_outcome.splits frame_result.splits)
qed

lemma read_throws:
  assumes "run_read a xn = (Throws, xn')" "x_phase (fst xn) = Ph_Read"
  shows "x_phase (fst xn') = Ph_Read"
proof -
  obtain out x where f: "try_frame (fst xn) = (out, x)" by (metis surj_pair)
  then have "x_phase x = Ph_Read" using try_frame_frame(6) [of "fst xn"] assms(2) by simp
  then show ?thesis
    using assms(1) f receive_throws [of a x "snd xn" xn']
    by (auto simp: run_read_def fail_or_again_def split: frame_outcome.splits frame_result.splits if_splits prod.splits)
qed

lemma send_throws:
  "\<lbrakk>run_send a xn = (Throws, xn'); x_phase (fst xn) = Ph_Send\<rbrakk> \<Longrightarrow> x_phase (fst xn') = Ph_Send"
  by (auto simp: run_send_def Let_def fail_or_again_def split: prod.splits send_answer.splits if_splits)

lemma run_iteration_throws:
  assumes "run_iteration ev a xn = (Throws, xn')"
  shows "x_phase (fst xn') \<noteq> Ph_Done"
proof -
  have "fst (on_expired ev (an_now a) xn) \<noteq> Throws" "fst (run_connect a xn) \<noteq> Throws"
      "fst (run_connecting ev a xn) \<noteq> Throws" "fst (run_handshake a xn) \<noteq> Throws"
    by (auto simp: on_expired_def run_connect_def run_connecting_def run_handshake_def fail_or_again_not_throws
        split: phase.split prod.split handshake_status.split)
  with assms show ?thesis
    using read_throws [of a xn xn'] send_throws [of a xn xn']
    by (auto simp: run_iteration_def split: if_splits phase.splits)
qed

lemma exchange_run_throws:
  "exchange_run ev as xn = (Throws, as', xn') \<Longrightarrow> x_phase (fst xn') \<noteq> Ph_Done"
proof (induction as arbitrary: ev xn)
  case (Cons a as)
  obtain r xn1 where r: "run_iteration ev a xn = (r, xn1)" by (metis surj_pair)
  with Cons show ?case by (cases r) (auto dest: run_iteration_throws)
qed simp

subsection \<open>Sequences of calls\<close>

text \<open>The event loop calls \<^verbatim>\<open>advance\<close> for every event of the socket.\<close>

fun exchange_drive :: "(nat \<times> answers list \<times> int) list \<Rightarrow> exchange \<times> network \<Rightarrow> exchange \<times> network" where
  "exchange_drive [] xn = xn"
| "exchange_drive ((ev, as, now) # calls) xn =
     exchange_drive calls (snd (snd (exchange_advance ev as now xn)))"

text \<open>The HTTP status reported with an error: 504 for the timeouts, 502 otherwise.\<close>

definition error_status :: "backend_error \<Rightarrow> int \<Rightarrow> bool" where
  "error_status error status \<longleftrightarrow> error \<noteq> BE_None \<and>
     status = (if error \<in> {ConnectTimeout, WriteTimeout, ReadTimeout} then 504 else 502)"

lemma error_status_simps [simp]:
  "error_status ConnectTimeout 504" "error_status WriteTimeout 504" "error_status ReadTimeout 504"
  "error_status ConnectFailed 502" "error_status WriteFailed 502" "error_status ReadFailed 502"
  "error_status InvalidResponse 502"
  by (simp_all add: error_status_def)

text \<open>An invariant of exchange and network that failing and every iteration keep holds for every
  sequence of calls.\<close>

locale exchange_invariant =
  fixes I :: "exchange \<times> network \<Rightarrow> bool"
  assumes I_fail: "\<lbrakk>I xn; x_phase (fst xn) \<noteq> Ph_Done; error_status error status\<rbrakk> \<Longrightarrow>
        I (snd (exchange_fail error status body now xn))"
    and I_open: "I xn \<Longrightarrow> x_phase (fst xn) = Ph_Connect \<Longrightarrow> I (snd (open_connection a xn))"
    and I_phase: "\<lbrakk>I (x, nw); ph \<noteq> Ph_Done; x_phase x \<noteq> Ph_Done\<rbrakk> \<Longrightarrow> I (refresh_deadline now (x\<lparr>x_phase := ph\<rparr>), nw)"
    and I_refresh: "I (x, nw) \<Longrightarrow> I (refresh_deadline now x, nw)"
    and I_build: "\<lbrakk>I (x, nw); x_request_bytes x = []\<rbrakk> \<Longrightarrow> I (x\<lparr>x_request_bytes := build_request (x_params x)\<rparr>, nw)"
    and I_sent: "\<lbrakk>I (x, nw); x_request_bytes x \<noteq> []; bytes = take n (drop (x_send_off x) (x_request_bytes x))\<rbrakk> \<Longrightarrow>
        I (refresh_deadline now (x\<lparr>x_send_off := x_send_off x + length bytes\<rparr>),
           nw\<lparr>nw_wire := nw_wire nw @ [(the (x_sock x), bytes)]\<rparr>)"
    and I_frame: "I (x, nw) \<Longrightarrow> I (snd (try_frame x), nw)"
    and I_finish: "\<lbrakk>I (x, nw); x_phase x = Ph_Read; try_frame x0 = (Framed Fr_Complete, x)\<rbrakk> \<Longrightarrow> I (finish_ok x, nw)"
    and I_received: "I (x, nw) \<Longrightarrow> I (x\<lparr>x_response_bytes := x_response_bytes x @ bytes\<rparr>, nw)"
    and I_eof: "I (x, nw) \<Longrightarrow> I (x\<lparr>x_peer_closed := True\<rparr>, nw)"
begin

lemma I_again: "\<lbrakk>I xn; x_phase (fst xn) \<noteq> Ph_Done; error_status error status\<rbrakk> \<Longrightarrow>
    I (snd (fail_or_again error status body ev now xn))"
  using I_fail [of xn error status body now]
  by (cases "exchange_fail error status body now xn") (simp add: fail_or_again_def)

lemma I_send:
  assumes "I xn" "x_phase (fst xn) = Ph_Send"
  shows "I (snd (run_send a xn))"
proof -
  obtain x nw where xn: "xn = (x, nw)" by fastforce
  let ?x = "if x_request_bytes x = [] then x\<lparr>x_request_bytes := build_request (x_params x)\<rparr> else x"
  have I: "I (?x, nw)" using assms(1) xn I_build by simp
  have "x_request_bytes ?x \<noteq> []" by (simp add: build_request_def)
  moreover have ph: "x_phase ?x \<noteq> Ph_Done" using assms(2) xn by simp
  ultimately show ?thesis
    using I I_sent [OF I] I_phase [OF I, of Ph_Read] I_refresh [OF I] I_again [OF I, unfolded fst_conv, OF ph]
    unfolding run_send_def xn prod.case Let_def by (auto split: send_answer.splits)
qed

lemma I_receive:
  assumes "I (x, nw)" "x_phase x = Ph_Read"
  shows "I (snd (run_receive a (x, nw)))"
proof (cases "an_recv a")
  case Recv_eof
  let ?x = "x\<lparr>x_peer_closed := True\<rparr>"
  have I: "I (?x, nw)" using assms(1) by (rule I_eof)
  obtain out x2 where f: "try_frame ?x = (out, x2)" by fastforce
  have I2: "I (x2, nw)" using I_frame [OF I] f by simp
  have ph: "x_phase x2 = Ph_Read" using try_frame_frame(6) [of ?x] f assms(2) by simp
  then have fin: "I (finish_ok x2, nw)" if "out = Framed Fr_Complete"
    using that f I_finish [OF I2] by blast
  show ?thesis
    using Recv_eof I I2 fin f I_again [OF I] I_again [OF I2] ph assms(2)
    by (auto simp: run_receive_def Let_def split: frame_outcome.split frame_result.split)
qed (use assms I_received I_refresh I_again [OF assms(1)] in \<open>simp_all add: run_receive_def\<close>)

lemma I_read:
  assumes "I xn" "x_phase (fst xn) = Ph_Read"
  shows "I (snd (run_read a xn))"
proof -
  obtain x nw where xn: "xn = (x, nw)" by fastforce
  obtain out x2 where f: "try_frame x = (out, x2)" by fastforce
  have I2: "I (x2, nw)" using I_frame [of x nw] assms xn f by simp
  have ph: "x_phase x2 = Ph_Read" using try_frame_frame(6) [of x] f assms(2) xn by simp
  then have fin: "I (finish_ok x2, nw)" if "out = Framed Fr_Complete"
    using that f I_finish [OF I2] by blast
  show ?thesis
    using f I2 fin I_again [OF I2] I_receive [OF I2 ph, of a] xn ph
    by (auto simp: run_read_def split: frame_outcome.split frame_result.split)
qed

lemma I_iteration:
  assumes "I xn"
  shows "I (snd (run_iteration ev a xn))"
proof -
  obtain x nw where xn: "xn = (x, nw)" by fastforce
  have I: "I (x, nw)" using assms xn by simp
  show ?thesis
  proof (cases "x_phase x = Ph_Done \<or> expired (an_now a) x")
    case True
    then show ?thesis
      using I I_again [OF I] by (auto simp: xn run_iteration_def on_expired_def split: phase.split)
  next
    case False
    then have nd: "x_phase x \<noteq> Ph_Done" by simp
    have "I (snd (run_connect a xn))" if "x_phase x = Ph_Connect"
      using I_open [OF assms, of a] that I_again [of "snd (open_connection a xn)"] open_phase [of x a nw] xn
      by (cases "open_connection a xn") (auto simp: run_connect_def)
    moreover have "I (snd (run_connecting ev a xn))" "I (snd (run_handshake a xn))"
      using I I_again [OF I] I_phase [OF I _ nd] I_refresh [OF I] nd
      by (auto simp: xn run_connecting_def run_handshake_def split: handshake_status.split)
    ultimately show ?thesis
      using False I_send [OF assms, of a] I_read [OF assms, of a] xn
      by (auto simp: run_iteration_def split: phase.split)
  qed
qed

lemma I_run: "I xn \<Longrightarrow> I (snd (snd (exchange_run ev as xn)))"
proof (induction as arbitrary: ev xn)
  case (Cons a as)
  then show ?case
    using I_iteration [OF Cons.prems, of ev a]
    by (cases "run_iteration ev a xn"; cases "fst (run_iteration ev a xn)") simp_all
qed simp

lemma I_advance:
  assumes "I xn"
  shows "I (snd (snd (exchange_advance ev as now xn)))"
proof -
  obtain r as' xn' where run: "exchange_run ev as xn = (r, as', xn')" by (metis surj_pair)
  have I: "I xn'" using I_run [OF assms, of ev as] run by simp
  let ?e = "if x_phase (fst xn') = Ph_Send then WriteFailed
            else if x_phase (fst xn') = Ph_Read then ReadFailed else ConnectFailed"
  have "I (snd (exchange_fail ?e 502 ''Bad Gateway'' now xn'))" if "r = Throws"
    using exchange_run_throws [of ev as xn as' xn'] run that by (intro I_fail [OF I]) simp_all
  then show ?thesis
    using run I I_run [of "snd (exchange_fail ?e 502 ''Bad Gateway'' now xn')" 0 as']
    by (auto simp: exchange_advance_def Let_def split: iteration.split prod.split bool.split)
qed

lemma I_drive: "I xn \<Longrightarrow> I (exchange_drive calls xn)"
proof (induction calls arbitrary: xn)
  case (Cons c calls)
  then show ?case by (cases c) (simp add: I_advance)
qed simp

end

subsection \<open>What a request leaves on the wire\<close>

definition wire_bytes :: "network \<Rightarrow> string" where
  "wire_bytes nw = concat (map snd (nw_wire nw))"

text \<open>The bytes written since the start: those of an abandoned first attempt, if there was one,
  and those of the current attempt.\<close>

definition written :: "string \<Rightarrow> bool \<Rightarrow> nat \<Rightarrow> string \<Rightarrow> string \<Rightarrow> bool" where
  "written req replayed off w0 bytes \<longleftrightarrow>
     (\<exists>i. bytes = w0 @ take i req @ take off req \<and> (replayed \<or> i = 0))"

definition replay_inv :: "exchange_params \<Rightarrow> bool \<Rightarrow> string \<Rightarrow> exchange \<times> network \<Rightarrow> bool" where
  "replay_inv p idem w0 xn \<longleftrightarrow> (case xn of (x, nw) \<Rightarrow>
     x_params x = p \<and> x_idempotent x = idem \<and>
     (x_request_bytes x = [] \<and> x_send_off x = 0 \<or> x_request_bytes x = build_request p) \<and>
     written (build_request p) (x_retried x \<and> idem) (x_send_off x) w0 (wire_bytes nw))"

lemma finish_ok_frame [simp]:
  "x_params (finish_ok x) = x_params x" "x_idempotent (finish_ok x) = x_idempotent x"
  "x_request_bytes (finish_ok x) = x_request_bytes x" "x_send_off (finish_ok x) = x_send_off x"
  "x_retried (finish_ok x) = x_retried x" "x_phase (finish_ok x) = Ph_Done"
  by (simp_all add: finish_ok_def Let_def split: option.split)

lemma open_fresh_frame [simp]:
  "x_params (snd (open_fresh a x)) = x_params x" "x_idempotent (snd (open_fresh a x)) = x_idempotent x"
  "x_request_bytes (snd (open_fresh a x)) = x_request_bytes x" "x_send_off (snd (open_fresh a x)) = x_send_off x"
  "x_retried (snd (open_fresh a x)) = x_retried x" "x_succeeded (snd (open_fresh a x)) = x_succeeded x"
  by (simp_all add: open_fresh_def refresh_deadline_def split: fresh_answer.split)

lemma open_connection_frame [simp]:
  "x_params (fst (snd (open_connection a (x, nw)))) = x_params x"
  "x_idempotent (fst (snd (open_connection a (x, nw)))) = x_idempotent x"
  "x_request_bytes (fst (snd (open_connection a (x, nw)))) = x_request_bytes x"
  "x_send_off (fst (snd (open_connection a (x, nw)))) = x_send_off x"
  "x_retried (fst (snd (open_connection a (x, nw)))) = x_retried x"
  "x_succeeded (fst (snd (open_connection a (x, nw)))) = x_succeeded x"
  "nw_wire (snd (snd (open_connection a (x, nw)))) = nw_wire nw"
  using open_fresh_frame [of a "x\<lparr>x_used_pooled := False\<rparr>"]
  by (simp_all add: open_connection_def refresh_deadline_def Let_def case_prod_unfold split: option.split)

lemma replay_inv_cong:
  assumes "replay_inv p idem w0 (x, nw)" "x_params x' = x_params x" "x_idempotent x' = x_idempotent x"
    "x_request_bytes x' = x_request_bytes x" "x_send_off x' = x_send_off x" "x_retried x' = x_retried x"
    "nw_wire nw' = nw_wire nw"
  shows "replay_inv p idem w0 (x', nw')"
  using assms by (simp add: replay_inv_def wire_bytes_def)

lemma written_replay: "\<lbrakk>written req r off w0 bytes; \<not> r\<rbrakk> \<Longrightarrow> written req True 0 w0 bytes"
  by (auto simp: written_def)

lemma written_more:
  assumes "written req r off w0 bytes" "sent = take n (drop off req)"
  shows "written req r (off + length sent) w0 (bytes @ sent)"
proof -
  have "take off req @ sent = take (off + length sent) req"
    using assms(2) by (cases "n \<le> length (drop off req)") (simp_all add: take_add min_def)
  with assms(1) show ?thesis by (auto simp: written_def)
qed

lemma replay_inv_fail:
  assumes "replay_inv p idem w0 xn"
  shows "replay_inv p idem w0 (snd (exchange_fail error status body now xn))"
proof -
  obtain x nw where xn: "xn = (x, nw)" by fastforce
  show ?thesis
  proof (cases "x_used_pooled x \<and> x_idempotent x \<and> \<not> x_retried x")
    case True
    then have "written (build_request p) True 0 w0 (wire_bytes nw)"
      using assms by (intro written_replay) (auto simp: xn replay_inv_def)
    with True assms show ?thesis
      by (simp add: xn exchange_fail_def replay_inv_def refresh_deadline_def wire_bytes_def)
  next
    case False
    then show ?thesis
      using assms by (auto simp: xn exchange_fail_def Let_def replay_inv_def wire_bytes_def)
  qed
qed

lemma replay_inv_sent:
  assumes "replay_inv p idem w0 (x, nw)" "x_request_bytes x \<noteq> []"
    and "bytes = take n (drop (x_send_off x) (x_request_bytes x))"
  shows "replay_inv p idem w0 (refresh_deadline now (x\<lparr>x_send_off := x_send_off x + length bytes\<rparr>),
           nw\<lparr>nw_wire := nw_wire nw @ [(the (x_sock x), bytes)]\<rparr>)"
  using assms written_more [of "build_request p" _ "x_send_off x" w0 "wire_bytes nw" bytes n]
  by (simp add: replay_inv_def wire_bytes_def refresh_deadline_def)

interpretation xreplay: exchange_invariant "replay_inv p idem w0" for p idem w0
proof unfold_locales
  fix xn error status body now
  assume "replay_inv p idem w0 xn"
  then show "replay_inv p idem w0 (snd (exchange_fail error status body now xn))" by (rule replay_inv_fail)
next
  fix xn a assume "replay_inv p idem w0 xn"
  then show "replay_inv p idem w0 (snd (open_connection a xn))"
    using replay_inv_cong [of p idem w0 "fst xn" "snd xn" "fst (snd (open_connection a xn))"
        "snd (snd (open_connection a xn))"] open_connection_frame [of a "fst xn" "snd xn"] by simp
next
  fix x nw n now and bytes :: string
  assume "replay_inv p idem w0 (x, nw)" "x_request_bytes x \<noteq> []"
    "bytes = take n (drop (x_send_off x) (x_request_bytes x))"
  then show "replay_inv p idem w0 (refresh_deadline now (x\<lparr>x_send_off := x_send_off x + length bytes\<rparr>),
      nw\<lparr>nw_wire := nw_wire nw @ [(the (x_sock x), bytes)]\<rparr>)" by (rule replay_inv_sent)
next
  fix x nw assume "replay_inv p idem w0 (x, nw)" "x_request_bytes x = []"
  then show "replay_inv p idem w0 (x\<lparr>x_request_bytes := build_request (x_params x)\<rparr>, nw)"
    by (auto simp: replay_inv_def build_request_def)
qed (erule replay_inv_cong; simp add: refresh_deadline_def)+

subsection \<open>Outcomes\<close>

definition outcome_inv :: "exchange \<times> network \<Rightarrow> bool" where
  "outcome_inv xn \<longleftrightarrow> (case xn of (x, nw) \<Rightarrow>
     if x_phase x = Ph_Done \<and> \<not> x_succeeded x
       then error_status (br_error (x_result x)) (br_status_code (x_result x))
     else if x_phase x = Ph_Done then br_error (x_result x) = BE_None
     else \<not> x_succeeded x)"

lemma outcome_inv_cong:
  "\<lbrakk>outcome_inv (x, nw); x_phase x' = x_phase x; x_succeeded x' = x_succeeded x; x_result x' = x_result x\<rbrakk> \<Longrightarrow>
     outcome_inv (x', nw')"
  by (auto simp: outcome_inv_def split: if_splits)

interpretation xoutcome: exchange_invariant outcome_inv
proof unfold_locales
  fix xn error status body now
  assume "outcome_inv xn" "x_phase (fst xn) \<noteq> Ph_Done" "error_status error status"
  then show "outcome_inv (snd (exchange_fail error status body now xn))"
    by (cases xn) (auto simp: exchange_fail_def Let_def outcome_inv_def make_backend_error_def
        refresh_deadline_def split: if_splits)
next
  fix xn a assume "outcome_inv xn" "x_phase (fst xn) = Ph_Connect"
  then show "outcome_inv (snd (open_connection a xn))"
    using open_phase [of "fst xn" a "snd xn"] open_connection_frame(6) [of a "fst xn" "snd xn"]
    by (cases "open_connection a xn") (auto simp: outcome_inv_def case_prod_unfold)
next
  fix x nw x0 assume "outcome_inv (x, nw)" "x_phase x = Ph_Read" "try_frame x0 = (Framed Fr_Complete, x)"
  then show "outcome_inv (finish_ok x, nw)"
    by (auto simp: outcome_inv_def finish_ok_def Let_def make_backend_error_def split: option.split)
next
  fix x nw ph now assume "outcome_inv (x, nw)" "ph \<noteq> Ph_Done" "x_phase x \<noteq> Ph_Done"
  then show "outcome_inv (refresh_deadline now (x\<lparr>x_phase := ph\<rparr>), nw)"
    by (simp add: outcome_inv_def refresh_deadline_def)
qed (erule outcome_inv_cong; simp add: refresh_deadline_def)+

subsection \<open>Properties\<close>

text \<open>C28: a request is never duplicated unless repeating it is safe. Over any sequence of events and
  of answers of the operating system, the bytes written to upstream sockets are a prefix of one
  request; a second copy of the request, from its beginning, is written only for an idempotent
  method, and never a third.\<close>

theorem exchange_no_replay:
  assumes "exchange_drive calls (exchange_create p idem t, nw) = (x', nw')"
  shows "\<exists>i j. wire_bytes nw' = wire_bytes nw @ take i (build_request p) @ take j (build_request p) \<and>
           (idem \<or> i = 0)"
proof -
  have "replay_inv p idem (wire_bytes nw) (exchange_create p idem t, nw)"
    by (simp add: replay_inv_def exchange_create_def Let_def written_def)
  then have "replay_inv p idem (wire_bytes nw) (x', nw')"
    using xreplay.I_drive [of p idem "wire_bytes nw" _ calls] assms by metis
  then show ?thesis by (auto simp: replay_inv_def written_def)
qed

definition sample_params :: exchange_params where
  "sample_params = \<lparr>xp_host = ''10.0.0.1'', xp_port = 80, xp_method = ''POST'', xp_path = ''/p'', xp_headers = [],
     xp_body = ''x'', xp_timeout_ms = 1000, xp_max_response_bytes = 100,
     xp_tls = \<lparr>uto_enable = False, uto_ca_file = [], uto_server_name = [], uto_skip_verify = False\<rparr>\<rparr>"

definition sample_answers :: answers where
  "sample_answers = \<lparr>an_now = 0, an_fresh = Connected 3, an_valid_address = True, an_alive = True,
     an_socket_error = 0, an_tls_ready = True, an_handshake = HS_COMPLETE, an_send = Sent 4,
     an_recv = Recv_again, an_other_direction = False\<rparr>"

definition sample_network :: network where
  "sample_network = \<lparr>nw_pool = pool_create, nw_wire = []\<rparr>"

lemmas exchange_eval = exchange_create_def sample_params_def sample_answers_def sample_network_def pool_create_def
  exchange_advance_def run_iteration_def run_connect_def run_send_def open_connection_def open_fresh_def
  checkout_def expired_def refresh_deadline_def wire_bytes_def build_request_def Let_def

theorem exchange_no_replay_witness:
  "wire_bytes (snd (exchange_drive [(0, [sample_answers, sample_answers], 0)]
       (exchange_create sample_params False 0, sample_network))) = ''POST'' \<and>
   (\<exists>i j. wire_bytes (snd (exchange_drive [(0, [sample_answers, sample_answers], 0)]
       (exchange_create sample_params False 0, sample_network))) =
     wire_bytes sample_network @ take i (build_request sample_params) @ take j (build_request sample_params) \<and>
     (False \<or> i = 0))"
proof
  show "wire_bytes (snd (exchange_drive [(0, [sample_answers, sample_answers], 0)]
       (exchange_create sample_params False 0, sample_network))) = ''POST''"
    by (simp add: exchange_eval)
  show "\<exists>i j. wire_bytes (snd (exchange_drive [(0, [sample_answers, sample_answers], 0)]
       (exchange_create sample_params False 0, sample_network))) =
     wire_bytes sample_network @ take i (build_request sample_params) @ take j (build_request sample_params) \<and>
     (False \<or> i = 0)"
    by (rule exchange_no_replay [OF prod.collapse [symmetric]])
qed

text \<open>C29: every exchange that ends has a definite outcome: it succeeded with no error, or it failed
  with an error and the status that belongs to it, 504 for the three timeouts and 502 otherwise;
  an exchange that has not ended never counts as succeeded.\<close>

theorem exchange_outcome:
  assumes "exchange_drive calls (exchange_create p idem t, nw) = (x', nw')"
  shows "if x_phase x' \<noteq> Ph_Done then \<not> x_succeeded x'
         else if x_succeeded x' then br_error (x_result x') = BE_None
         else br_error (x_result x') \<noteq> BE_None \<and>
              br_status_code (x_result x') =
                (if br_error (x_result x') \<in> {ConnectTimeout, WriteTimeout, ReadTimeout} then 504 else 502)"
proof -
  have "outcome_inv (exchange_create p idem t, nw)"
    by (simp add: outcome_inv_def exchange_create_def Let_def make_backend_error_def)
  then have "outcome_inv (x', nw')" using xoutcome.I_drive [of _ calls] assms by metis
  then show ?thesis by (simp add: outcome_inv_def error_status_def split: if_splits)
qed

theorem exchange_outcome_witness:
  "x_phase (fst (exchange_drive [(0, [sample_answers\<lparr>an_fresh := Socket_fails\<rparr>], 0)]
      (exchange_create sample_params False 0, sample_network))) = Ph_Done \<and>
   br_status_code (x_result (fst (exchange_drive [(0, [sample_answers\<lparr>an_fresh := Socket_fails\<rparr>], 0)]
      (exchange_create sample_params False 0, sample_network)))) = 502"
  using exchange_outcome [OF prod.collapse [symmetric], of "[(0, [sample_answers\<lparr>an_fresh := Socket_fails\<rparr>], 0)]"
      sample_params False 0 sample_network]
  by (simp add: exchange_eval fail_or_again_def exchange_fail_def make_backend_error_def)

end
