(* ===== verification/Upstream_Wire.thy ===== *)
theory Upstream_Wire
  imports Upstream_Exchange
begin

text \<open>
  The two directions of the upstream hop against the wire format: a response written by
  \<^verbatim>\<open>HttpResponse::to_string\<close> is framed and decoded to itself by \<^verbatim>\<open>UpstreamExchange\<close>, and a request
  written by \<^verbatim>\<open>build_request\<close> is read back by \<^verbatim>\<open>HttpParser\<close> as the forwarded request.
\<close>

subsection \<open>Header blocks\<close>

definition head_block :: "string list \<Rightarrow> string" where
  "head_block ls = concat (map (\<lambda>l. l @ crlf) ls)"

lemma head_block_simps [simp]:
  "head_block [] = []" "head_block (l # ls) = l @ CR # LF # head_block ls"
  by (simp_all add: head_block_def)

definition plain_line :: "string \<Rightarrow> bool" where
  "plain_line l \<longleftrightarrow> l \<noteq> [] \<and> CR \<notin> set l"

lemma str_find_Cons:
  "n \<noteq> [] \<Longrightarrow> str_find n (c # s) 0 = (if starts_with n (c # s) then Some 0 else map_option Suc (str_find n s 0))"
  by (simp add: str_find_def option.map_comp comp_def)

lemma str_find_skip:
  "CR \<notin> set l \<Longrightarrow> str_find (CR # p) (l @ s) 0 = map_option (\<lambda>i. length l + i) (str_find (CR # p) s 0)"
proof (induction l)
  case Nil
  then show ?case by (cases "str_find (CR # p) s 0") simp_all
next
  case (Cons c l)
  then show ?case by (cases "str_find (CR # p) s 0") (auto simp: str_find_Cons)
qed

lemma blank_line_found:
  assumes "ls \<noteq> []" "list_all plain_line ls"
  shows "str_find (crlf @ crlf) (head_block ls @ crlf @ rest) 0 = Some (length (head_block ls) - 2)"
  using assms
proof (induction ls)
  case (Cons l ls)
  then have l: "CR \<notin> set l" by (simp add: plain_line_def)
  show ?case
  proof (cases ls)
    case Nil
    then show ?thesis using str_find_skip [OF l] by (simp add: str_find_Cons)
  next
    case (Cons l2 ls2)
    then obtain c t where c: "head_block ls = c # t" "c \<noteq> CR" "2 \<le> length (head_block ls)"
      using Cons.prems by (cases l2) (auto simp: plain_line_def)
    have IH: "str_find (crlf @ crlf) (head_block ls @ crlf @ rest) 0 = Some (length (head_block ls) - 2)"
      using Cons.IH Cons.prems Cons by simp
    have "str_find (crlf @ crlf) (CR # LF # head_block ls @ crlf @ rest) 0 =
        map_option (\<lambda>i. Suc (Suc i)) (str_find (crlf @ crlf) (head_block ls @ crlf @ rest) 0)"
      using c(2) unfolding c(1) by (simp add: str_find_Cons [of "CR # LF # CR # LF # []" CR]
        str_find_Cons [of "CR # LF # CR # LF # []" LF] option.map_comp comp_def)
    then have "str_find (crlf @ crlf) (CR # LF # head_block ls @ crlf @ rest) 0 = Some (length (head_block ls))"
      using c(3) unfolding IH by simp
    then show ?thesis using str_find_skip [OF l] by simp
  qed
qed simp

lemma split_crlf_lines:
  assumes "ls \<noteq> []" "list_all plain_line ls"
  shows "split_crlf (take (length (head_block ls) - 2) (head_block ls @ s)) = ls"
  using assms
proof (induction ls)
  case (Cons l ls)
  then have l: "CR \<notin> set l" by (simp add: plain_line_def)
  show ?case
  proof (cases ls)
    case Nil
    have "str_find crlf l 0 = None" using str_find_skip [OF l, of "[LF]" "[]"] by (simp add: str_find_def)
    then show ?thesis using Nil by (simp add: split_crlf_None)
  next
    case (Cons l2 ls2)
    have len: "length (head_block (l # ls)) - 2 = length l + 2 + (length (head_block ls) - 2)"
      using Cons by simp
    have "take (length (head_block (l # ls)) - 2) (head_block (l # ls) @ s) =
        l @ CR # LF # take (length (head_block ls) - 2) (head_block ls @ s)"
      unfolding len by simp
    moreover have "split_crlf (l @ CR # LF # t) = l # split_crlf t" for t
      using split_crlf_Some [OF str_find_crlf_line, of l t] l by simp
    ultimately show ?thesis using Cons.IH Cons.prems Cons by simp
  qed
qed simp

lemma starts_with_take: "starts_with n (take k s) \<longleftrightarrow> starts_with n s \<and> length n \<le> k"
proof (induction n arbitrary: s k)
  case (Cons c n)
  then show ?case by (cases s; cases k) auto
qed simp

lemma str_find_take:
  assumes "n \<noteq> []"
  shows "str_find n (take k s) 0 =
     (case str_find n s 0 of None \<Rightarrow> None | Some i \<Rightarrow> if i + length n \<le> k then Some i else None)"
proof (induction s arbitrary: k)
  case Nil
  then show ?case using assms by (cases n) (simp_all add: str_find_def)
next
  case (Cons c s)
  show ?case
  proof (cases k)
    case 0
    then show ?thesis using assms by (cases n) (auto simp: str_find_def split: option.split)
  next
    case (Suc k')
    have "starts_with n (c # take k' s) \<longleftrightarrow> starts_with n (c # s) \<and> length n \<le> k"
      using starts_with_take [of n k "c # s"] Suc by simp
    then show ?thesis
      using Cons.IH [of k'] assms Suc str_find_bound [of n "c # s" 0]
      by (auto simp: str_find_Cons split: option.split)
  qed
qed

subsection \<open>Response headers line by line\<close>

lemma line_put_Nil [simp]: "line_put [] hs = hs"
  by (simp add: line_put_def find_char_eq)

lemma response_headers_lines:
  "pos \<le> length s \<Longrightarrow> response_headers_loop s pos hs = fold line_put (split_crlf (drop pos s)) hs"
proof (induction s pos hs rule: response_headers_loop.induct)
  case (1 s pos hs)
  let ?rest = "drop pos s"
  show ?case
  proof (cases "pos < length s")
    case False
    with "1.prems" show ?thesis by (simp add: response_headers_loop.simps)
  next
    case True
    show ?thesis
    proof (cases "str_find crlf ?rest 0")
      case None
      then have "str_find crlf s pos = None" using True by (simp add: str_find_shift [of pos s])
      then show ?thesis
        using True by (simp add: response_headers_loop.simps [of s pos] split_crlf_None [OF None])
    next
      case (Some i)
      then have line_end: "str_find crlf s pos = Some (i + pos)" using True by (simp add: str_find_shift [of pos s])
      have len: "i + 2 \<le> length ?rest" by (rule str_find_crlf_len [OF Some])
      have line: "substr s pos (i + pos - pos) = take i ?rest" by (simp add: substr_def)
      have split: "split_crlf ?rest = take i ?rest # split_crlf (drop (i + pos + 2) s)"
        using split_crlf_Some [OF Some] by (simp add: add.commute add.left_commute)
      have "response_headers_loop s (i + pos + 2) (line_put (take i ?rest) hs) =
          fold line_put (split_crlf (drop (i + pos + 2) s)) (line_put (take i ?rest) hs)"
        using "1.IH" [OF True refl, of "take i ?rest" "i + pos"] len line by (simp add: line_end)
      then show ?thesis
        using True
        by (simp only: response_headers_loop.simps [of s pos] line_end split if_True Let_def option.case line) simp
    qed
  qed
qed

definition field_line :: "string \<times> string \<Rightarrow> string" where
  "field_line = (\<lambda>(k, v). k @ '': '' @ v)"

lemma field_line_parts:
  assumes "CHR '':'' \<notin> set k"
  shows "find_char (CHR '':'') (field_line (k, v)) = Some (length k)"
    and "take (length k) (field_line (k, v)) = k"
    and "trim_blanks (drop (length k + 1) (field_line (k, v))) = trim_blanks v"
  using find_char_append [OF assms, of "CHR '' '' # v"]
  by (simp_all add: field_line_def trim_blanks_Cons is_blank_def)

lemma line_put_field:
  assumes "CHR '':'' \<notin> set k"
  shows "line_put (field_line (k, v)) hs = put k (trim_blanks v) hs"
  unfolding line_put_def field_line_parts(1) [OF assms] option.case field_line_parts(2,3) [OF assms] by (rule refl)

lemma fold_line_put:
  assumes "\<forall>(k, v) \<in> set hs. CHR '':'' \<notin> set k \<and> trim_blanks v = v" "distinct (map fst (acc @ hs))"
  shows "fold line_put (map field_line hs) acc = acc @ hs"
  using assms
proof (induction hs arbitrary: acc)
  case (Cons h hs)
  obtain k v where h: "h = (k, v)" by fastforce
  have "map_of acc k = None" using Cons.prems(2) by (auto simp: h map_of_eq_None_iff)
  then have "line_put (field_line h) acc = acc @ [h]"
    using Cons.prems(1) by (simp add: h line_put_field put_absent)
  with Cons.IH [of "acc @ [h]"] Cons.prems show ?case by simp
qed simp

lemma header_lookup_fields:
  assumes "\<forall>(k, v) \<in> set hs. CHR '':'' \<notin> set k"
  shows "header_lookup name (map field_line hs) =
     (case map_of (lower_keys hs) name of None \<Rightarrow> [] | Some v \<Rightarrow> lower (trim_blanks v))"
  using assms
proof (induction hs)
  case (Cons h hs)
  obtain k v where h: "h = (k, v)" by fastforce
  have k: "CHR '':'' \<notin> set k" using Cons.prems by (simp add: h)
  have "header_line_value name (field_line h) = (if lower k = name then Some (lower (trim_blanks v)) else None)"
    unfolding h header_line_value_def field_line_parts(1) [OF k] option.case field_line_parts(2,3) [OF k]
    using length_lower [of k] by auto
  with Cons show ?case by (simp add: h lower_keys_def)
qed (simp add: lower_keys_def)

subsection \<open>Responses\<close>

definition status_line :: "http_response \<Rightarrow> string" where
  "status_line r = ''HTTP/1.1 '' @ dec_int (rsp_status_code r) @ '' '' @ rsp_status_message r"

definition response_ok :: "http_response \<Rightarrow> bool" where
  "response_ok r \<longleftrightarrow> 0 \<le> rsp_status_code r \<and> rsp_status_code r < 2 ^ 31 \<and> CR \<notin> set (rsp_status_message r) \<and>
     (\<forall>(k, v) \<in> set (rsp_headers r). CHR '':'' \<notin> set k \<and> CR \<notin> set k \<and> CR \<notin> set v \<and> trim_blanks v = v) \<and>
     distinct (map fst (rsp_headers r)) \<and>
     map_of (lower_keys (rsp_headers r)) ''content-length'' = Some (dec (length (rsp_body r))) \<and>
     map_of (lower_keys (rsp_headers r)) ''transfer-encoding'' = None"

lemma response_lines:
  "response_to_string r = head_block (status_line r # map field_line (rsp_headers r)) @ crlf @ rsp_body r"
  by (simp add: response_to_string_def status_line_def head_block_def field_line_def comp_def case_prod_unfold)

lemma dec_int_plain: "c \<in> set (dec_int i) \<Longrightarrow> c \<noteq> CR \<and> c \<noteq> CHR '' ''"
  using set_dec_int [of c i] by (auto simp: is_digit_def)

lemma response_lines_plain: "response_ok r \<Longrightarrow> list_all plain_line (status_line r # map field_line (rsp_headers r))"
  using dec_int_plain [of CR "rsp_status_code r"]
  by (auto simp: plain_line_def status_line_def field_line_def response_ok_def list_all_iff)

lemma stoi_dec_int: "\<lbrakk>0 \<le> i; i < 2 ^ 31\<rbrakk> \<Longrightarrow> stoi (dec_int i) = Some i"
proof -
  assume i: "0 \<le> i" "i < 2 ^ 31"
  have digits: "\<forall>c \<in> set (dec (nat i)). is_digit c" using set_dec_digit by blast
  obtain c cs where c: "dec (nat i) = c # cs" by (cases "dec (nat i)") auto
  then have "is_digit c" using digits by simp
  then have "\<not> is_space c" "c \<noteq> CHR ''-''" "c \<noteq> CHR ''+''" by (auto simp: is_space_def is_digit_def)
  moreover have "takeWhile is_digit (dec (nat i)) = dec (nat i)" using digits by (simp add: takeWhile_eq_all_conv)
  ultimately show ?thesis
    using i c dec_value_dec [of "nat i"] by (simp add: stoi_def dec_int_def Let_def)
qed

lemma parse_status_line:
  assumes "0 \<le> rsp_status_code r" "rsp_status_code r < 2 ^ 31"
  shows "parse_status (status_line r @ rest) = Some (rsp_status_code r)"
proof -
  let ?d = "dec_int (rsp_status_code r)" and ?tail = "rsp_status_message r @ rest"
  have bytes: "status_line r @ rest = ''HTTP/1.1'' @ CHR '' '' # ?d @ CHR '' '' # ?tail"
    by (simp add: status_line_def)
  have first: "str_find '' '' (status_line r @ rest) 0 = Some 8"
    using find_char_append [of "CHR '' ''" "''HTTP/1.1''" "?d @ CHR '' '' # ?tail"]
    unfolding bytes by (simp add: find_char_def)
  have "find_char (CHR '' '') (?d @ CHR '' '' # ?tail) = Some (length ?d)"
    using dec_int_plain by (intro find_char_append) blast
  moreover have "drop 9 (status_line r @ rest) = ?d @ CHR '' '' # ?tail" by (simp add: bytes numeral_eq_Suc)
  ultimately have second: "str_find '' '' (status_line r @ rest) 9 = Some (length ?d + 9)"
    by (subst str_find_char) (simp_all add: bytes)
  have "substr (status_line r @ rest) 9 (length ?d + 9 - 8 - 1) = ?d"
    using \<open>drop 9 _ = _\<close> by (simp add: substr_def)
  then show ?thesis
    unfolding parse_status_def first option.case using second assms by (simp add: stoi_dec_int)
qed

definition head_end :: "http_response \<Rightarrow> nat" where
  "head_end r = length (head_block (status_line r # map field_line (rsp_headers r))) - 2"

definition head_of :: "http_response \<Rightarrow> string" where
  "head_of r = take (head_end r) (response_to_string r)"

lemma head_end_found: "response_ok r \<Longrightarrow> str_find (crlf @ crlf) (response_to_string r @ rest) 0 = Some (head_end r)"
  using blank_line_found [OF _ response_lines_plain, of r "rsp_body r @ rest"]
  by (simp add: response_lines head_end_def)

lemma length_response: "length (response_to_string r) = head_end r + 4 + length (rsp_body r)"
  by (simp add: response_lines head_end_def)

lemma drop_head: "drop (head_end r + 4) (response_to_string r @ rest) = rsp_body r @ rest"
proof -
  let ?pre = "head_block (status_line r # map field_line (rsp_headers r)) @ crlf"
  have "response_to_string r @ rest = ?pre @ rsp_body r @ rest" "length ?pre = head_end r + 4"
    by (simp_all add: response_lines head_end_def)
  then show ?thesis by (metis append_eq_conv_conj)
qed

lemma head_lines: "response_ok r \<Longrightarrow> split_crlf (head_of r) = status_line r # map field_line (rsp_headers r)"
  using split_crlf_lines [OF _ response_lines_plain, of r] by (simp add: head_of_def head_end_def response_lines)

lemma head_fields:
  assumes "response_ok r"
  shows "field_lines (head_of r) = map field_line (rsp_headers r)" "rsp_headers r \<noteq> []"
proof -
  show "rsp_headers r \<noteq> []" using assms by (auto simp: response_ok_def lower_keys_def)
  then show "field_lines (head_of r) = map field_line (rsp_headers r)"
    using head_lines [OF assms] by (cases "rsp_headers r") (simp_all add: field_lines_def)
qed

lemma head_value:
  assumes "response_ok r"
  shows "find_header_value (head_of r) name =
     (case map_of (lower_keys (rsp_headers r)) name of None \<Rightarrow> [] | Some v \<Rightarrow> lower (trim_blanks v))"
  unfolding find_header_value_lines head_fields(1) [OF assms]
  using assms by (intro header_lookup_fields) (auto simp: response_ok_def)

lemma trim_lower_dec: "lower (trim_blanks (dec n)) = dec n"
proof -
  have "\<not> is_blank c \<and> \<not> is_upper c" if "c \<in> set (dec n)" for c
    using set_dec_digit [OF that] by (auto simp: is_blank_def is_upper_def is_digit_def)
  then have "dropWhile is_blank (dec n) = dec n" "dropWhile is_blank (rev (dec n)) = rev (dec n)" "lower (dec n) = dec n"
    by (simp_all add: lower_id dropWhile_eq_self_iff last_in_set hd_rev)
  then show ?thesis by (simp add: trim_blanks_def)
qed

lemma frame_head:
  assumes "response_ok r" "length (rsp_body r) < 2 ^ 64" "length (rsp_body r) \<le> xp_max_response_bytes (x_params x)"
    and "str_find (crlf @ crlf) (x_response_bytes x) 0 = Some (head_end r)"
    and "take (head_end r) (x_response_bytes x) = head_of r"
  shows "try_frame x =
     (let x1 = x\<lparr>x_response_keepalive := keepalive_of (head_of r)\<rparr>
      in if length (x_response_bytes x) \<ge> length (response_to_string r)
         then (Framed Fr_Complete, x1\<lparr>x_body_end := Some (length (response_to_string r))\<rparr>)
         else (Framed Fr_Incomplete, x1))"
proof -
  let ?n = "length (rsp_body r)"
  have te: "find_header_value (head_of r) ''transfer-encoding'' = []"
    and cl: "find_header_value (head_of r) ''content-length'' = dec ?n"
    using head_value [OF assms(1)] assms(1) by (simp_all add: response_ok_def trim_lower_dec)
  have "list_all is_digit (dec ?n)" using is_digit_dec by simp
  moreover have "stoull_digits (dec ?n) = Some ?n" using assms(2) by (simp add: stoull_digits_def)
  ultimately have "frame_length (head_end r) (dec ?n) y =
      (if length (x_response_bytes y) \<ge> length (response_to_string r)
       then (Framed Fr_Complete, y\<lparr>x_body_end := Some (length (response_to_string r))\<rparr>)
       else (Framed Fr_Incomplete, y))" if "x_params y = x_params x" for y
    using assms(3) that by (simp add: frame_length_def length_response)
  moreover have "str_find ''chunked'' [] 0 = None" by (simp add: str_find_def)
  ultimately show ?thesis
    unfolding try_frame_def assms(4) option.case Let_def assms(5) te cl by simp
qed

subsection \<open>Properties of responses\<close>

text \<open>C30: the upstream side reads back exactly what the gateway's own serializer writes. A response
  with a Content-Length is incomplete at every proper prefix, however the reads cut it; once it is
  there the frame ends exactly behind its body, whatever follows, and status, header fields and
  body are those of the response.\<close>

theorem response_roundtrip:
  assumes "response_ok r" "length (rsp_body r) < 2 ^ 64"
    and "length (rsp_body r) \<le> xp_max_response_bytes (x_params x)" "head_end r + 4 \<le> kExchangeMaxHeaderSize"
    and "\<not> x_response_is_chunked x" "br_headers (x_result x) = []"
  shows "(\<forall>k < length (response_to_string r).
            fst (try_frame (x\<lparr>x_response_bytes := take k (response_to_string r)\<rparr>)) = Framed Fr_Incomplete) \<and>
         (\<exists>x'. try_frame (x\<lparr>x_response_bytes := response_to_string r @ rest\<rparr>) = (Framed Fr_Complete, x') \<and>
            x_body_end x' = Some (length (response_to_string r)) \<and>
            x_result (finish_ok x') =
              \<lparr>br_status_code = rsp_status_code r, br_headers = rsp_headers r, br_body = rsp_body r,
               br_error = BE_None\<rparr>)"
proof (intro conjI allI impI)
  fix k assume k: "k < length (response_to_string r)"
  let ?x = "x\<lparr>x_response_bytes := take k (response_to_string r)\<rparr>"
  have find: "str_find (crlf @ crlf) (x_response_bytes ?x) 0 =
      (if head_end r + 4 \<le> k then Some (head_end r) else None)"
    using head_end_found [OF assms(1), of "[]"] by (simp add: str_find_take)
  show "fst (try_frame ?x) = Framed Fr_Incomplete"
  proof (cases "head_end r + 4 \<le> k")
    case True
    then have "take (head_end r) (x_response_bytes ?x) = head_of r" by (simp add: head_of_def min_absorb1)
    then show ?thesis
      using frame_head [OF assms(1,2), of ?x] assms(3) find True k by (simp add: Let_def)
  next
    case False
    then have "k \<le> kExchangeMaxHeaderSize" using assms(4) by simp
    then show ?thesis using find False unfolding try_frame_def by simp
  qed
next
  let ?x = "x\<lparr>x_response_bytes := response_to_string r @ rest\<rparr>"
  let ?x' = "?x\<lparr>x_response_keepalive := keepalive_of (head_of r), x_body_end := Some (length (response_to_string r))\<rparr>"
  have find: "str_find (crlf @ crlf) (response_to_string r @ rest) 0 = Some (head_end r)"
    by (rule head_end_found [OF assms(1)])
  have head: "take (head_end r) (response_to_string r @ rest) = head_of r"
    by (simp add: head_of_def length_response)
  have frame: "try_frame ?x = (Framed Fr_Complete, ?x')"
    using frame_head [OF assms(1,2), of ?x] assms(3) find head by (simp add: Let_def)
  have status: "parse_status (response_to_string r @ rest) = Some (rsp_status_code r)"
    using parse_status_line [of r] assms(1) by (simp add: response_lines response_ok_def)
  have body: "substr (response_to_string r @ rest) (head_end r + 4) (length (response_to_string r) - (head_end r + 4)) =
      rsp_body r"
    using length_response [of r] drop_head [of r rest] by (simp add: substr_def)
  have "split_crlf (head_of r) \<noteq> [head_of r]" using head_lines [OF assms(1)] head_fields(2) [OF assms(1)] by auto
  then obtain i where i: "str_find crlf (head_of r) 0 = Some i" using split_crlf_None by (cases "str_find crlf (head_of r) 0") auto
  then have "response_headers_loop (head_of r) (first_line_start (head_of r)) [] =
      fold line_put (split_crlf (drop (i + 2) (head_of r))) []"
    using str_find_crlf_len [OF i] by (simp add: first_line_start_def response_headers_lines)
  also have "split_crlf (drop (i + 2) (head_of r)) = map field_line (rsp_headers r)"
    using head_lines [OF assms(1)] split_crlf_Some [OF i] by simp
  also have "fold line_put (map field_line (rsp_headers r)) [] = rsp_headers r"
    using fold_line_put [of "rsp_headers r" "[]"] assms(1) by (auto simp: response_ok_def)
  finally have "x_result (finish_ok ?x') =
      \<lparr>br_status_code = rsp_status_code r, br_headers = rsp_headers r, br_body = rsp_body r, br_error = BE_None\<rparr>"
    using status find head body assms(5,6) by (simp add: finish_ok_def Let_def)
  with frame show "\<exists>x'. try_frame ?x = (Framed Fr_Complete, x') \<and>
      x_body_end x' = Some (length (response_to_string r)) \<and>
      x_result (finish_ok x') =
        \<lparr>br_status_code = rsp_status_code r, br_headers = rsp_headers r, br_body = rsp_body r, br_error = BE_None\<rparr>"
    by (intro exI [of _ ?x']) simp
qed

definition sample_response :: http_response where
  "sample_response = http_response_default\<lparr>rsp_headers := [(''Content-Length'', ''2'')], rsp_body := ''ok''\<rparr>"

theorem response_roundtrip_witness:
  "20 < length (response_to_string sample_response) \<and>
   fst (try_frame ((exchange_create sample_params True 0)\<lparr>x_response_bytes := take 20 (response_to_string sample_response)\<rparr>)) =
     Framed Fr_Incomplete \<and>
   (\<exists>x'. try_frame ((exchange_create sample_params True 0)\<lparr>x_response_bytes := response_to_string sample_response @ ''HTTP''\<rparr>) =
        (Framed Fr_Complete, x') \<and>
      x_body_end x' = Some (length (response_to_string sample_response)) \<and>
      x_result (finish_ok x') =
        \<lparr>br_status_code = rsp_status_code sample_response, br_headers = rsp_headers sample_response,
         br_body = rsp_body sample_response, br_error = BE_None\<rparr>)"
proof -
  have ok: "response_ok sample_response" "length (rsp_body sample_response) < 2 ^ 64"
    "length (rsp_body sample_response) \<le> xp_max_response_bytes (x_params (exchange_create sample_params True 0))"
    "head_end sample_response + 4 \<le> kExchangeMaxHeaderSize"
    "\<not> x_response_is_chunked (exchange_create sample_params True 0)"
    "br_headers (x_result (exchange_create sample_params True 0)) = []"
    by (simp_all add: response_ok_def sample_response_def http_response_default_def lower_keys_def lower_def
       to_lower_char_def is_upper_def char_of_iff dec.simps trim_blanks_def is_blank_def head_end_def status_line_def
       field_line_def dec_int_def kExchangeMaxHeaderSize_def sample_params_def exchange_create_def make_backend_error_def)
  have "20 < length (response_to_string sample_response)"
    by (simp add: length_response head_end_def status_line_def field_line_def dec_int_def dec.simps
        sample_response_def http_response_default_def)
  with response_roundtrip [OF ok] show ?thesis by blast
qed

subsection \<open>Requests\<close>

text \<open>The request as the backend sees it: the forwarded fields behind the new \<^verbatim>\<open>Host\<close>, and a new
  \<^verbatim>\<open>Content-Length\<close>.\<close>

definition forwarded_request :: "string \<Rightarrow> string \<Rightarrow> exchange_params \<Rightarrow> http_request" where
  "forwarded_request path query p = request_clear\<lparr>req_method := xp_method p, req_path := path, req_version := ''HTTP/1.1'',
     req_query := query,
     req_headers := (''Host'', xp_host p @ '':'' @ dec_int (xp_port p)) # forwarded (xp_headers p) @
       (if needs_content_length p then [(''Content-Length'', dec (length (xp_body p)))] else []),
     req_body := xp_body p\<rparr>"

lemma build_request_wire:
  assumes "xp_path p = path @ (if query = [] then [] else CHR ''?'' # query)"
  shows "build_request p = wire_request (forwarded_request path query p)"
  by (simp add: build_request_def wire_request_def wire_request_line_def wire_target_def wire_headers_def
      wire_header_def forwarded_request_def assms)

lemma forwarded_subset: "set (forwarded hs) \<subseteq> set hs"
  by (auto simp: forwarded_def)

lemma distinct_forwarded: "distinct (map fst hs) \<Longrightarrow> distinct (map fst (forwarded hs))"
  unfolding forwarded_def by (rule distinct_map_filter)

lemma forwarded_keys:
  assumes "headers_ok hs" "(k, v) \<in> set (forwarded hs)"
  shows "lower k = k" "\<not> is_hop_by_hop_header k"
  using assms forwarded_subset [of hs] by (auto simp: headers_ok_def header_ok_def forwarded_def list_all_iff)

lemma lower_keys_forwarded: "headers_ok hs \<Longrightarrow> lower_keys (forwarded hs) = forwarded hs"
  unfolding lower_keys_def by (rule map_idI) (auto dest: forwarded_keys(1))

lemma map_of_forwarded:
  assumes "headers_ok hs"
  shows "map_of (forwarded hs) k =
     (if is_hop_by_hop_header k \<or> k \<in> set (connection_tokens hs) then None else map_of hs k)"
proof -
  have "map_of (filter (\<lambda>(k, v). \<not> (is_hop_by_hop_header (lower k) \<or> lower k \<in> T)) hs) k =
      (if is_hop_by_hop_header k \<or> k \<in> T then None else map_of hs k)" for T
    using assms
  proof (induction hs)
    case (Cons h hs)
    then have "lower (fst h) = fst h" "headers_ok hs"
      by (auto simp: headers_ok_def header_ok_def case_prod_unfold)
    with Cons show ?case by (cases h) auto
  qed simp
  then show ?thesis by (simp add: forwarded_def)
qed

definition host_field_ok :: "string \<Rightarrow> bool" where
  "host_field_ok h \<longleftrightarrow> h \<noteq> [] \<and> list_all is_valid_field_value_char h \<and> \<not> is_blank (hd h) \<and> length h \<le> 4096"

lemma length_dec: "n < 10 ^ k \<Longrightarrow> 0 < k \<Longrightarrow> length (dec n) \<le> k"
proof (induction k arbitrary: n)
  case (Suc k)
  then show ?case by (subst dec.simps) (cases k, auto simp: less_mult_imp_div_less mult.commute)
qed simp

lemma dec_field: "list_all is_valid_field_value_char (dec n)" "trim_blanks (dec n) = dec n"
proof -
  have d: "is_digit c" if "c \<in> set (dec n)" for c using set_dec_digit [OF that] .
  then show "list_all is_valid_field_value_char (dec n)"
    by (fastforce simp: list_all_iff is_valid_field_value_char_def is_digit_def)
  show "trim_blanks (dec n) = dec n"
    using d [of "hd (dec n)"] d [of "last (dec n)"]
    by (intro trim_blanks_id) (auto simp: is_blank_def is_digit_def)
qed

lemma host_line_ok:
  assumes "host_field_ok h" "0 \<le> port" "port < 65536"
  shows "wire_header_ok (''Host'', h @ '':'' @ dec_int port)"
proof -
  have "length (dec (nat port)) \<le> 5" using assms(2,3) by (intro length_dec) auto
  moreover have "last (dec (nat port)) \<in> set (dec (nat port))" by simp
  then have "\<not> is_blank (last (dec (nat port)))" using set_dec_digit by (fastforce simp: is_blank_def is_digit_def)
  ultimately show ?thesis
    using assms dec_field(1) [of "nat port"]
    by (auto simp: wire_header_ok_def host_field_ok_def dec_int_def is_tchar_def is_upper_def is_lower_def is_valid_field_value_char_def
        MAX_HEADER_LINE_SIZE_def intro!: trim_blanks_id)
qed

lemma content_length_line_ok:
  assumes "n \<le> MAX_BODY_SIZE"
  shows "wire_header_ok (''Content-Length'', dec n)"
proof -
  have "length (dec n) \<le> 7" using assms by (intro length_dec) (auto simp: MAX_BODY_SIZE_def)
  then show ?thesis
    using dec_field [of n] by (simp add: wire_header_ok_def is_tchar_def is_upper_def is_lower_def MAX_HEADER_LINE_SIZE_def)
qed

definition forwardable :: "string \<Rightarrow> string \<Rightarrow> exchange_params \<Rightarrow> bool" where
  "forwardable path query p \<longleftrightarrow>
     wire_token_ok (xp_method p) \<and> wire_token_ok path \<and> CHR ''?'' \<notin> set path \<and> wire_token_ok query \<and>
     xp_path p = path @ (if query = [] then [] else CHR ''?'' # query) \<and>
     headers_ok (xp_headers p) \<and> list_all wire_header_ok (forwarded (xp_headers p)) \<and>
     host_field_ok (xp_host p) \<and> 0 \<le> xp_port p \<and> xp_port p < 65536 \<and>
     length (wire_headers (req_headers (forwarded_request path query p))) \<le> MAX_HEADERS_SIZE \<and>
     length (xp_body p) \<le> MAX_BODY_SIZE"

lemma lower_host: "lower ''Host'' = ''host''" "lower ''Content-Length'' = ''content-length''"
  by (simp_all add: lower_def to_lower_char_def is_upper_def char_of_iff)

lemma hop_by_hop_framing:
  "is_hop_by_hop_header ''host''" "is_hop_by_hop_header ''content-length''" "is_hop_by_hop_header ''transfer-encoding''"
  by (simp_all add: is_hop_by_hop_header_def)

lemma not_forwarded:
  assumes "headers_ok hs" "is_hop_by_hop_header k"
  shows "\<not> has_key k (forwarded hs)"
  using forwarded_keys(2) [OF assms(1)] assms(2) by (force simp: has_key_iff)

lemma lower_keys_request:
  "headers_ok (xp_headers p) \<Longrightarrow> lower_keys (req_headers (forwarded_request path query p)) =
     (''host'', xp_host p @ '':'' @ dec_int (xp_port p)) # forwarded (xp_headers p) @
       (if needs_content_length p then [(''content-length'', dec (length (xp_body p)))] else [])"
  using lower_keys_forwarded [of "xp_headers p"] by (simp add: forwarded_request_def lower_keys_def lower_host)

lemma forwarded_request_ok:
  assumes "forwardable path query p"
  shows "wire_request_ok (forwarded_request path query p)"
    and "\<not> has_key ''transfer-encoding'' (lower_keys (req_headers (forwarded_request path query p)))"
    and "framed (parsed_request (forwarded_request path query p))"
proof -
  let ?q = "forwarded_request path query p"
  have hs: "headers_ok (xp_headers p)" using assms by (simp add: forwardable_def)
  note keys = lower_keys_request [OF hs, of path query]
  show te: "\<not> has_key ''transfer-encoding'' (lower_keys (req_headers ?q))"
    unfolding keys using not_forwarded [OF hs, of "''transfer-encoding''"] by (simp add: hop_by_hop_framing)
  have "''host'' \<notin> fst ` set (forwarded (xp_headers p))" "''content-length'' \<notin> fst ` set (forwarded (xp_headers p))"
    using not_forwarded [OF hs] hop_by_hop_framing by (simp_all add: has_key_iff)
  then have "distinct (map fst (lower_keys (req_headers ?q)))"
    unfolding keys using distinct_forwarded [of "xp_headers p"] hs by (simp add: headers_ok_def)
  moreover have "list_all wire_header_ok (req_headers ?q)"
    using assms host_line_ok [of "xp_host p" "xp_port p"] content_length_line_ok [of "length (xp_body p)"]
    by (simp add: forwarded_request_def forwardable_def)
  moreover have "wire_token_ok ''HTTP/1.1''"
    by (simp add: wire_token_ok_def is_valid_request_line_char_def MAX_REQUEST_LINE_SIZE_def)
  ultimately show "wire_request_ok ?q"
    using assms te by (simp add: wire_request_ok_def wire_headers_ok_def forwardable_def)
      (simp add: forwarded_request_def)
  have "map_of (forwarded (xp_headers p)) ''content-length'' = None"
       "map_of (forwarded (xp_headers p)) ''transfer-encoding'' = None"
    using map_of_forwarded [OF hs] hop_by_hop_framing by simp_all
  moreover have "req_headers (parsed_request ?q) = lower_keys (req_headers ?q)" "req_body (parsed_request ?q) = xp_body p"
    by (simp_all add: parsed_request_def forwarded_request_def)
  moreover have "needs_content_length p \<or> xp_body p = []" by (simp add: needs_content_length_def)
  ultimately show "framed (parsed_request ?q)"
    by (auto simp: framed_def keys map_add_def)
qed


definition sample_forward :: exchange_params where
  "sample_forward = sample_params\<lparr>xp_headers := [(''te'', ''gzip''), (''x-b'', ''2'')]\<rparr>"


end
