(* ===== verification/Gateway_Metrics.thy ===== *)
theory Gateway_Metrics
  imports Http_Message
begin

text \<open>
  The metrics registry (\<^verbatim>\<open>metrics.h\<close>, \<^verbatim>\<open>metrics.cpp\<close>): 64-bit counters, cumulative latency
  histograms and per-route samples, and the Prometheus text it prints. Durations and their sums
  are rational numbers; how a stream prints a \<^verbatim>\<open>double\<close> is the parameter \<open>show_double\<close>. The updates are
  atomic in the code, so a sequence of them is a list of events. The per-route map is an
  association list in place of the unordered map.
\<close>

subsection \<open>State\<close>

record route_metric_sample =
  rs_total_requests :: u64
  rs_requests_2xx :: u64
  rs_requests_3xx :: u64
  rs_requests_4xx :: u64
  rs_requests_5xx :: u64
  rs_timeout_errors :: u64
  rs_auth_failures :: u64
  rs_rate_limit_hits :: u64
  rs_duration_sum :: rat
  rs_duration_count :: u64
  rs_duration_buckets :: "u64 list"

definition kBucketCount :: nat where
  "kBucketCount = 12"

definition sample_init :: route_metric_sample where
  "sample_init = \<lparr>rs_total_requests = 0, rs_requests_2xx = 0, rs_requests_3xx = 0, rs_requests_4xx = 0,
     rs_requests_5xx = 0, rs_timeout_errors = 0, rs_auth_failures = 0, rs_rate_limit_hits = 0,
     rs_duration_sum = 0, rs_duration_count = 0, rs_duration_buckets = replicate kBucketCount 0\<rparr>"

record metrics =
  mt_duration_buckets :: "u64 list"
  mt_duration_count :: u64
  mt_duration_sum :: rat
  mt_total_requests :: u64
  mt_requests_2xx :: u64
  mt_requests_3xx :: u64
  mt_requests_4xx :: u64
  mt_requests_5xx :: u64
  mt_cache_hits :: u64
  mt_cache_misses :: u64
  mt_fd_cache_hits :: u64
  mt_fd_cache_misses :: u64
  mt_gzip_cache_hits :: u64
  mt_gzip_cache_misses :: u64
  mt_connections_active :: u64
  mt_connections_rejected :: u64
  mt_upstream_error_counts :: "u64 list"
  mt_route_metrics :: "(string \<times> route_metric_sample) list"

definition bucket_boundaries :: "rat list" where
  "bucket_boundaries = [5 / 1000, 1 / 100, 25 / 1000, 5 / 100, 1 / 10, 1 / 4, 1 / 2, 1, 5 / 2, 5, 10]"

definition metrics_init :: metrics where
  "metrics_init = \<lparr>mt_duration_buckets = replicate 12 0, mt_duration_count = 0, mt_duration_sum = 0,
     mt_total_requests = 0, mt_requests_2xx = 0, mt_requests_3xx = 0, mt_requests_4xx = 0, mt_requests_5xx = 0,
     mt_cache_hits = 0, mt_cache_misses = 0, mt_fd_cache_hits = 0, mt_fd_cache_misses = 0,
     mt_gzip_cache_hits = 0, mt_gzip_cache_misses = 0, mt_connections_active = 0, mt_connections_rejected = 0,
     mt_upstream_error_counts = replicate 8 0, mt_route_metrics = []\<rparr>"

subsection \<open>Recording\<close>

text \<open>The bucket loop and the \<^verbatim>\<open>+Inf\<close> bucket.\<close>

definition observe :: "rat \<Rightarrow> u64 list \<Rightarrow> u64 list" where
  "observe d buckets =
     (let bs = fold (\<lambda>i bs. if d \<le> bucket_boundaries ! i then bs[i := bs ! i + 1] else bs)
                 [0..<length bucket_boundaries] buckets
      in bs[length bucket_boundaries := bs ! length bucket_boundaries + 1])"

definition record_total_request :: "metrics \<Rightarrow> metrics" where
  "record_total_request m = m\<lparr>mt_total_requests := mt_total_requests m + 1\<rparr>"

definition record_request :: "int \<Rightarrow> rat \<Rightarrow> metrics \<Rightarrow> metrics" where
  "record_request status_code duration m =
     (let m1 = (if 200 \<le> status_code \<and> status_code < 300 then m\<lparr>mt_requests_2xx := mt_requests_2xx m + 1\<rparr>
                else if 300 \<le> status_code \<and> status_code < 400 then m\<lparr>mt_requests_3xx := mt_requests_3xx m + 1\<rparr>
                else if 400 \<le> status_code \<and> status_code < 500 then m\<lparr>mt_requests_4xx := mt_requests_4xx m + 1\<rparr>
                else if 500 \<le> status_code then m\<lparr>mt_requests_5xx := mt_requests_5xx m + 1\<rparr>
                else m)
      in m1\<lparr>mt_duration_sum := mt_duration_sum m1 + duration,
            mt_duration_count := mt_duration_count m1 + 1,
            mt_duration_buckets := observe duration (mt_duration_buckets m1)\<rparr>)"

definition sample_record :: "int \<Rightarrow> rat \<Rightarrow> route_metric_sample \<Rightarrow> route_metric_sample" where
  "sample_record status_code duration s0 =
     (let s1 = s0\<lparr>rs_total_requests := rs_total_requests s0 + 1\<rparr>;
          s2 = (if 200 \<le> status_code \<and> status_code < 300 then s1\<lparr>rs_requests_2xx := rs_requests_2xx s1 + 1\<rparr>
                else if 300 \<le> status_code \<and> status_code < 400 then s1\<lparr>rs_requests_3xx := rs_requests_3xx s1 + 1\<rparr>
                else if 400 \<le> status_code \<and> status_code < 500 then s1\<lparr>rs_requests_4xx := rs_requests_4xx s1 + 1\<rparr>
                else if 500 \<le> status_code then s1\<lparr>rs_requests_5xx := rs_requests_5xx s1 + 1\<rparr>
                else s1);
          s3 = (if status_code = 504 \<or> status_code = 503 \<or> status_code = 502
                then s2\<lparr>rs_timeout_errors := rs_timeout_errors s2 + 1\<rparr> else s2);
          s4 = (if status_code = 401 then s3\<lparr>rs_auth_failures := rs_auth_failures s3 + 1\<rparr> else s3);
          s5 = (if status_code = 429 then s4\<lparr>rs_rate_limit_hits := rs_rate_limit_hits s4 + 1\<rparr> else s4)
      in s5\<lparr>rs_duration_sum := rs_duration_sum s5 + duration,
            rs_duration_count := rs_duration_count s5 + 1,
            rs_duration_buckets := observe duration (rs_duration_buckets s5)\<rparr>)"

definition route_tag :: "string \<Rightarrow> string \<Rightarrow> string \<Rightarrow> string" where
  "route_tag route_name host tenant = route_name @ ''|'' @ host @ ''|'' @ tenant"

definition route_sample :: "string \<Rightarrow> metrics \<Rightarrow> route_metric_sample" where
  "route_sample tag m = (case map_of (mt_route_metrics m) tag of Some s \<Rightarrow> s | None \<Rightarrow> sample_init)"

definition record_route_request :: "string \<Rightarrow> string \<Rightarrow> string \<Rightarrow> int \<Rightarrow> rat \<Rightarrow> metrics \<Rightarrow> metrics" where
  "record_route_request route_name host tenant status_code duration m =
     (let tag = route_tag route_name host tenant
      in m\<lparr>mt_route_metrics := put tag (sample_record status_code duration (route_sample tag m)) (mt_route_metrics m)\<rparr>)"

definition record_cache_hit :: "metrics \<Rightarrow> metrics" where
  "record_cache_hit m = m\<lparr>mt_cache_hits := mt_cache_hits m + 1\<rparr>"

definition record_cache_miss :: "metrics \<Rightarrow> metrics" where
  "record_cache_miss m = m\<lparr>mt_cache_misses := mt_cache_misses m + 1\<rparr>"

definition record_fd_cache_hit :: "metrics \<Rightarrow> metrics" where
  "record_fd_cache_hit m = m\<lparr>mt_fd_cache_hits := mt_fd_cache_hits m + 1\<rparr>"

definition record_fd_cache_miss :: "metrics \<Rightarrow> metrics" where
  "record_fd_cache_miss m = m\<lparr>mt_fd_cache_misses := mt_fd_cache_misses m + 1\<rparr>"

definition record_gzip_cache_hit :: "metrics \<Rightarrow> metrics" where
  "record_gzip_cache_hit m = m\<lparr>mt_gzip_cache_hits := mt_gzip_cache_hits m + 1\<rparr>"

definition record_gzip_cache_miss :: "metrics \<Rightarrow> metrics" where
  "record_gzip_cache_miss m = m\<lparr>mt_gzip_cache_misses := mt_gzip_cache_misses m + 1\<rparr>"

fun backend_error_index :: "backend_error \<Rightarrow> nat" where
  "backend_error_index BE_None = 0"
| "backend_error_index ConnectFailed = 1"
| "backend_error_index ConnectTimeout = 2"
| "backend_error_index WriteFailed = 3"
| "backend_error_index WriteTimeout = 4"
| "backend_error_index ReadFailed = 5"
| "backend_error_index ReadTimeout = 6"
| "backend_error_index InvalidResponse = 7"

definition record_upstream_error :: "backend_error \<Rightarrow> metrics \<Rightarrow> metrics" where
  "record_upstream_error error m =
     (if error = BE_None then m
      else (let index = backend_error_index error; counts = mt_upstream_error_counts m
            in if index < length counts
               then m\<lparr>mt_upstream_error_counts := counts[index := counts ! index + 1]\<rparr> else m))"

definition set_active_connections :: "size_t \<Rightarrow> metrics \<Rightarrow> metrics" where
  "set_active_connections n m = m\<lparr>mt_connections_active := of_nat n\<rparr>"

definition record_connection_rejected :: "metrics \<Rightarrow> metrics" where
  "record_connection_rejected m = m\<lparr>mt_connections_rejected := mt_connections_rejected m + 1\<rparr>"

record metrics_snapshot =
  sn_total_requests :: u64
  sn_requests_2xx :: u64
  sn_requests_3xx :: u64
  sn_requests_4xx :: u64
  sn_requests_5xx :: u64
  sn_duration_sum :: rat
  sn_duration_count :: u64

definition snapshot :: "metrics \<Rightarrow> metrics_snapshot" where
  "snapshot m = \<lparr>sn_total_requests = mt_total_requests m, sn_requests_2xx = mt_requests_2xx m,
     sn_requests_3xx = mt_requests_3xx m, sn_requests_4xx = mt_requests_4xx m,
     sn_requests_5xx = mt_requests_5xx m, sn_duration_sum = mt_duration_sum m,
     sn_duration_count = mt_duration_count m\<rparr>"

subsection \<open>The Prometheus text\<close>

definition show_u64 :: "u64 \<Rightarrow> string" where
  "show_u64 w = dec (unat w)"

definition help_type :: "string \<Rightarrow> string \<Rightarrow> string \<Rightarrow> string" where
  "help_type name help ty =
     ''# HELP '' @ name @ '' '' @ help @ [LF] @ ''# TYPE '' @ name @ '' '' @ ty @ [LF]"

definition metric_line :: "string \<Rightarrow> string \<Rightarrow> string" where
  "metric_line name v = name @ '' '' @ v @ [LF]"

definition quoted :: "string \<Rightarrow> string \<Rightarrow> string" where
  "quoted label v = label @ ''='' @ [CHR 0x22] @ v @ [CHR 0x22]"

definition requests_text :: "metrics \<Rightarrow> string" where
  "requests_text m =
     help_type ''epoll_http_requests_total'' ''Total number of HTTP requests'' ''counter'' @
     metric_line (''epoll_http_requests_total{'' @ quoted ''code'' ''2xx'' @ ''}'') (show_u64 (mt_requests_2xx m)) @
     metric_line (''epoll_http_requests_total{'' @ quoted ''code'' ''3xx'' @ ''}'') (show_u64 (mt_requests_3xx m)) @
     metric_line (''epoll_http_requests_total{'' @ quoted ''code'' ''4xx'' @ ''}'') (show_u64 (mt_requests_4xx m)) @
     metric_line (''epoll_http_requests_total{'' @ quoted ''code'' ''5xx'' @ ''}'') (show_u64 (mt_requests_5xx m)) @
     metric_line ''epoll_http_requests_total_total'' (show_u64 (mt_total_requests m))"

definition bucket_lines :: "(rat \<Rightarrow> string) \<Rightarrow> string \<Rightarrow> string \<Rightarrow> u64 list \<Rightarrow> string" where
  "bucket_lines show_double name labels buckets =
     concat (map (\<lambda>i. metric_line (name @ ''{'' @ labels @ quoted ''le'' (show_double (bucket_boundaries ! i)) @ ''}'')
                        (show_u64 (buckets ! i))) [0..<length bucket_boundaries]) @
     metric_line (name @ ''{'' @ labels @ quoted ''le'' ''+Inf'' @ ''}'')
       (show_u64 (buckets ! length bucket_boundaries))"

definition histogram_text :: "(rat \<Rightarrow> string) \<Rightarrow> metrics \<Rightarrow> string" where
  "histogram_text show_double m =
     help_type ''epoll_http_request_duration_seconds'' ''Request duration in seconds'' ''histogram'' @
     bucket_lines show_double ''epoll_http_request_duration_seconds_bucket'' [] (mt_duration_buckets m) @
     metric_line ''epoll_http_request_duration_seconds_sum'' (show_double (mt_duration_sum m)) @
     metric_line ''epoll_http_request_duration_seconds_count'' (show_u64 (mt_duration_count m))"

definition caches_text :: "metrics \<Rightarrow> string" where
  "caches_text m =
     help_type ''epoll_cache_hits_total'' ''Total cache hits'' ''counter'' @
     metric_line ''epoll_cache_hits_total'' (show_u64 (mt_cache_hits m)) @
     help_type ''epoll_cache_misses_total'' ''Total cache misses'' ''counter'' @
     metric_line ''epoll_cache_misses_total'' (show_u64 (mt_cache_misses m)) @
     help_type ''epoll_fd_cache_hits_total'' ''Total fd cache hits'' ''counter'' @
     metric_line ''epoll_fd_cache_hits_total'' (show_u64 (mt_fd_cache_hits m)) @
     help_type ''epoll_fd_cache_misses_total'' ''Total fd cache misses'' ''counter'' @
     metric_line ''epoll_fd_cache_misses_total'' (show_u64 (mt_fd_cache_misses m)) @
     help_type ''epoll_gzip_cache_hits_total'' ''Total gzip cache hits'' ''counter'' @
     metric_line ''epoll_gzip_cache_hits_total'' (show_u64 (mt_gzip_cache_hits m)) @
     help_type ''epoll_gzip_cache_misses_total'' ''Total gzip cache misses'' ''counter'' @
     metric_line ''epoll_gzip_cache_misses_total'' (show_u64 (mt_gzip_cache_misses m))"

definition connections_text :: "metrics \<Rightarrow> string" where
  "connections_text m =
     help_type ''epoll_connections_active'' ''Currently open client connections'' ''gauge'' @
     metric_line ''epoll_connections_active'' (show_u64 (mt_connections_active m)) @
     help_type ''epoll_connections_rejected_total'' ''Connections shed because max_connections was reached'' ''counter'' @
     metric_line ''epoll_connections_rejected_total'' (show_u64 (mt_connections_rejected m))"

definition error_names :: "string list" where
  "error_names = [''none'', ''connect_failed'', ''connect_timeout'', ''write_failed'', ''write_timeout'',
     ''read_failed'', ''read_timeout'', ''invalid_response'']"

definition upstream_errors_text :: "metrics \<Rightarrow> string" where
  "upstream_errors_text m =
     help_type ''epoll_upstream_errors_total'' ''Upstream proxy errors by type'' ''counter'' @
     concat (map (\<lambda>i. metric_line (''epoll_upstream_errors_total{'' @ quoted ''type'' (error_names ! i) @ ''}'')
                        (show_u64 (mt_upstream_error_counts m ! i))) [1..<length error_names])"

definition route_help_text :: string where
  "route_help_text =
     help_type ''epoll_route_requests_total'' ''Route-level request totals by route, host, tenant'' ''counter'' @
     help_type ''epoll_route_upstream_errors_total'' ''Route-level upstream (502/503/504) errors'' ''counter'' @
     help_type ''epoll_route_auth_failures_total'' ''Route-level authentication failures'' ''counter'' @
     help_type ''epoll_route_rate_limit_hits_total'' ''Route-level rate-limit rejections'' ''counter'' @
     help_type ''epoll_route_request_duration_seconds'' ''Route-level request duration in seconds'' ''histogram''"

definition route_labels :: "string \<Rightarrow> string" where
  "route_labels key =
     (let sep1 = find_char (CHR ''|'') key;
          sep2 = rfind_char (CHR ''|'') key;
          route_name = (case sep1 of None \<Rightarrow> key | Some i \<Rightarrow> substr key 0 i);
          host = (case sep1 of None \<Rightarrow> ''-'' | Some i \<Rightarrow> substr key (i + 1) (the sep2 - i - 1));
          tenant = (case sep2 of None \<Rightarrow> ''-'' | Some j \<Rightarrow> drop (j + 1) key)
      in quoted ''route'' route_name @ '','' @ quoted ''host'' host @ '','' @ quoted ''tenant'' tenant)"

definition route_text :: "(rat \<Rightarrow> string) \<Rightarrow> string \<times> route_metric_sample \<Rightarrow> string" where
  "route_text show_double = (\<lambda>(key, s).
     (let labels = route_labels key
      in metric_line (''epoll_route_requests_total{'' @ labels @ '','' @ quoted ''code'' ''2xx'' @ ''}'') (show_u64 (rs_requests_2xx s)) @
         metric_line (''epoll_route_requests_total{'' @ labels @ '','' @ quoted ''code'' ''3xx'' @ ''}'') (show_u64 (rs_requests_3xx s)) @
         metric_line (''epoll_route_requests_total{'' @ labels @ '','' @ quoted ''code'' ''4xx'' @ ''}'') (show_u64 (rs_requests_4xx s)) @
         metric_line (''epoll_route_requests_total{'' @ labels @ '','' @ quoted ''code'' ''5xx'' @ ''}'') (show_u64 (rs_requests_5xx s)) @
         metric_line (''epoll_route_upstream_errors_total{'' @ labels @ ''}'') (show_u64 (rs_timeout_errors s)) @
         metric_line (''epoll_route_auth_failures_total{'' @ labels @ ''}'') (show_u64 (rs_auth_failures s)) @
         metric_line (''epoll_route_rate_limit_hits_total{'' @ labels @ ''}'') (show_u64 (rs_rate_limit_hits s)) @
         bucket_lines show_double ''epoll_route_request_duration_seconds_bucket'' (labels @ '','') (rs_duration_buckets s) @
         metric_line (''epoll_route_request_duration_seconds_sum{'' @ labels @ ''}'') (show_double (rs_duration_sum s)) @
         metric_line (''epoll_route_request_duration_seconds_count{'' @ labels @ ''}'') (show_u64 (rs_duration_count s))))"

definition metrics_to_string :: "(rat \<Rightarrow> string) \<Rightarrow> metrics \<Rightarrow> string" where
  "metrics_to_string show_double m =
     requests_text m @ histogram_text show_double m @ caches_text m @ connections_text m @
     upstream_errors_text m @ route_help_text @ concat (map (route_text show_double) (mt_route_metrics m)) @
     ''# EOF'' @ [LF]"

subsection \<open>Sequences of recordings\<close>

datatype metrics_event =
    TotalRequest | Request int rat | RouteRequest string string string int rat
  | CacheHit | CacheMiss | FdHit | FdMiss | GzipHit | GzipMiss
  | UpstreamError backend_error | ActiveConnections size_t | ConnectionRejected

fun metrics_exec :: "metrics_event \<Rightarrow> metrics \<Rightarrow> metrics" where
  "metrics_exec TotalRequest m = record_total_request m"
| "metrics_exec (Request c d) m = record_request c d m"
| "metrics_exec (RouteRequest r h t c d) m = record_route_request r h t c d m"
| "metrics_exec CacheHit m = record_cache_hit m"
| "metrics_exec CacheMiss m = record_cache_miss m"
| "metrics_exec FdHit m = record_fd_cache_hit m"
| "metrics_exec FdMiss m = record_fd_cache_miss m"
| "metrics_exec GzipHit m = record_gzip_cache_hit m"
| "metrics_exec GzipMiss m = record_gzip_cache_miss m"
| "metrics_exec (UpstreamError e) m = record_upstream_error e m"
| "metrics_exec (ActiveConnections n) m = set_active_connections n m"
| "metrics_exec ConnectionRejected m = record_connection_rejected m"

fun request_of :: "metrics_event \<Rightarrow> (int \<times> rat) list" where
  "request_of (Request c d) = [(c, d)]"
| "request_of e = []"

fun route_request_of :: "string \<Rightarrow> metrics_event \<Rightarrow> (int \<times> rat) list" where
  "route_request_of tag (RouteRequest r h t c d) = (if route_tag r h t = tag then [(c, d)] else [])"
| "route_request_of tag e = []"

abbreviation requests :: "metrics_event list \<Rightarrow> (int \<times> rat) list" where
  "requests es \<equiv> concat (map request_of es)"

lemma fold_bump:
  assumes "n \<le> length bs"
  shows "length (fold (\<lambda>i bs. if P i then bs[i := bs ! i + 1] else bs) [0..<n] bs) = length bs"
    and "j < length bs \<Longrightarrow> fold (\<lambda>i bs. if P i then bs[i := bs ! i + 1] else bs) [0..<n] bs ! j =
           bs ! j + (if j < n \<and> P j then 1 else 0 :: u64)"
  using assms by (induction n) (auto simp: nth_list_update less_Suc_eq)

lemma length_boundaries [simp]: "length bucket_boundaries = 11"
  by (simp add: bucket_boundaries_def)

lemma observe_length: "length bs = 12 \<Longrightarrow> length (observe d bs) = 12"
  using fold_bump(1) [where n = 11 and bs = bs and P = "\<lambda>i. d \<le> bucket_boundaries ! i"] by (simp add: observe_def Let_def)

lemma observe_nth:
  assumes "length bs = 12" "j < 12"
  shows "observe d bs ! j = bs ! j + (if j = 11 \<or> d \<le> bucket_boundaries ! j then 1 else 0)"
  using assms fold_bump [where n = 11 and bs = bs and P = "\<lambda>i. d \<le> bucket_boundaries ! i"]
  by (auto simp: observe_def Let_def nth_list_update)

lemmas record_defs = record_total_request_def record_request_def record_route_request_def record_cache_hit_def
  record_cache_miss_def record_fd_cache_hit_def record_fd_cache_miss_def record_gzip_cache_hit_def
  record_gzip_cache_miss_def record_upstream_error_def set_active_connections_def record_connection_rejected_def

lemma tally:
  assumes "\<And>e m. J m \<Longrightarrow> J (metrics_exec e m) \<and> f (metrics_exec e m) = f m + (of_nat (length (filter P (request_of e))) :: u64)"
    and "J m"
  shows "f (fold metrics_exec es m) = f m + of_nat (length (filter P (requests es)))"
  using assms(2)
proof (induction es arbitrary: m)
  case (Cons e es)
  then show ?case using assms(1) [OF Cons.prems, of e] by simp
qed simp

lemma class_step:
  "mt_requests_2xx (metrics_exec e m) = mt_requests_2xx m + of_nat (length (filter (\<lambda>(c, d). 200 \<le> c \<and> c < 300) (request_of e)))"
  "mt_requests_3xx (metrics_exec e m) = mt_requests_3xx m + of_nat (length (filter (\<lambda>(c, d). 300 \<le> c \<and> c < 400) (request_of e)))"
  "mt_requests_4xx (metrics_exec e m) = mt_requests_4xx m + of_nat (length (filter (\<lambda>(c, d). 400 \<le> c \<and> c < 500) (request_of e)))"
  "mt_requests_5xx (metrics_exec e m) = mt_requests_5xx m + of_nat (length (filter (\<lambda>(c, d). 500 \<le> c) (request_of e)))"
  "mt_duration_count (metrics_exec e m) = mt_duration_count m + of_nat (length (filter (\<lambda>x. True) (request_of e)))"
  by (cases e; simp add: record_defs Let_def)+

lemma class_tally:
  "mt_requests_2xx (fold metrics_exec es m) = mt_requests_2xx m + of_nat (length (filter (\<lambda>(c, d). 200 \<le> c \<and> c < 300) (requests es)))"
  "mt_requests_3xx (fold metrics_exec es m) = mt_requests_3xx m + of_nat (length (filter (\<lambda>(c, d). 300 \<le> c \<and> c < 400) (requests es)))"
  "mt_requests_4xx (fold metrics_exec es m) = mt_requests_4xx m + of_nat (length (filter (\<lambda>(c, d). 400 \<le> c \<and> c < 500) (requests es)))"
  "mt_requests_5xx (fold metrics_exec es m) = mt_requests_5xx m + of_nat (length (filter (\<lambda>(c, d). 500 \<le> c) (requests es)))"
  "mt_duration_count (fold metrics_exec es m) = mt_duration_count m + of_nat (length (filter (\<lambda>x. True) (requests es)))"
  using tally [where J = "\<lambda>m. True" and f = mt_requests_2xx and P = "\<lambda>(c, d). 200 \<le> c \<and> c < 300"]
    tally [where J = "\<lambda>m. True" and f = mt_requests_3xx and P = "\<lambda>(c, d). 300 \<le> c \<and> c < 400"]
    tally [where J = "\<lambda>m. True" and f = mt_requests_4xx and P = "\<lambda>(c, d). 400 \<le> c \<and> c < 500"]
    tally [where J = "\<lambda>m. True" and f = mt_requests_5xx and P = "\<lambda>(c, d). 500 \<le> c"]
    tally [where J = "\<lambda>m. True" and f = mt_duration_count and P = "\<lambda>x. True"]
  by (simp_all add: class_step)

lemma bucket_tally:
  fixes m :: metrics
  assumes "length (mt_duration_buckets m) = 12" "j < 12"
  shows "mt_duration_buckets (fold metrics_exec es m) ! j =
     mt_duration_buckets m ! j + of_nat (length (filter (\<lambda>(c, d). j = 11 \<or> d \<le> bucket_boundaries ! j) (requests es)))"
proof (rule tally [where J = "\<lambda>m. length (mt_duration_buckets m) = 12"])
  fix e and m :: metrics assume "length (mt_duration_buckets m) = 12"
  then show "length (mt_duration_buckets (metrics_exec e m)) = 12 \<and>
      mt_duration_buckets (metrics_exec e m) ! j = mt_duration_buckets m ! j +
        of_nat (length (filter (\<lambda>(c, d). j = 11 \<or> d \<le> bucket_boundaries ! j) (request_of e)))"
    using assms(2) by (cases e) (auto simp: record_defs Let_def observe_length observe_nth)
qed (rule assms(1))

lemma buckets_length:
  "length (mt_duration_buckets m) = 12 \<Longrightarrow> length (mt_duration_buckets (fold metrics_exec es m)) = 12"
proof (induction es arbitrary: m)
  case (Cons e es)
  have "length (mt_duration_buckets (metrics_exec e m)) = 12"
    using Cons.prems by (cases e) (auto simp: record_defs Let_def observe_length)
  then show ?case using Cons.IH by simp
qed simp

lemma sum_tally:
  "mt_duration_sum (fold metrics_exec es m) = mt_duration_sum m + sum_list (map snd (requests es))"
proof (induction es arbitrary: m)
  case (Cons e es)
  have "mt_duration_sum (metrics_exec e m) = mt_duration_sum m + sum_list (map snd (request_of e))"
    by (cases e) (auto simp: record_defs Let_def)
  then show ?case using Cons.IH [of "metrics_exec e m"] by simp
qed simp

lemma route_tally:
  "route_sample tag (fold metrics_exec es m) =
     fold (\<lambda>(c, d). sample_record c d) (concat (map (route_request_of tag) es)) (route_sample tag m)"
proof (induction es arbitrary: m)
  case (Cons e es)
  have "route_sample tag (metrics_exec e m) = fold (\<lambda>(c, d). sample_record c d) (route_request_of tag e) (route_sample tag m)"
    by (cases e) (auto simp: record_defs Let_def route_sample_def)
  then show ?case using Cons.IH [of "metrics_exec e m"] by simp
qed simp

lemma requests_length: "length (requests es) \<le> length es"
proof (induction es)
  case (Cons e es)
  then show ?case by (cases e) simp_all
qed simp

lemma unat_tally: "length (requests es) < 2 ^ 64 \<Longrightarrow> unat (of_nat (length (filter P (requests es))) :: u64) = length (filter P (requests es))"
  using le_less_trans [OF length_filter_le [of P "requests es"]] by (simp add: unat_of_nat)

lemma boundaries_mono: "\<lbrakk>i \<le> j; j < 11\<rbrakk> \<Longrightarrow> bucket_boundaries ! i \<le> bucket_boundaries ! j"
proof -
  have "sorted bucket_boundaries" by (simp add: bucket_boundaries_def)
  then show "\<lbrakk>i \<le> j; j < 11\<rbrakk> \<Longrightarrow> ?thesis" by (simp add: sorted_nth_mono)
qed

lemma length_filter_mono: "(\<And>x. P x \<Longrightarrow> Q x) \<Longrightarrow> length (filter P xs) \<le> length (filter Q xs)"
  by (induction xs) (auto intro: le_SucI)

subsection \<open>Properties\<close>

text \<open>C32: the counters are the tallies of what was recorded. After any sequence of fewer than
  \<open>2 ^ 64\<close> recordings, each latency bucket holds the number of requests at or below its boundary,
  the last one and the count hold the number of all requests, the buckets are cumulative, the sum is
  the sum of the durations, and the four status counters count their classes.\<close>

theorem metrics_tally:
  assumes "length es < 2 ^ 64" "m = fold metrics_exec es metrics_init"
  shows "(\<forall>j < 11. unat (mt_duration_buckets m ! j) = length (filter (\<lambda>(c, d). d \<le> bucket_boundaries ! j) (requests es))) \<and>
         unat (mt_duration_buckets m ! 11) = length (requests es) \<and>
         unat (mt_duration_count m) = length (requests es) \<and>
         sorted (map unat (mt_duration_buckets m)) \<and>
         mt_duration_sum m = sum_list (map snd (requests es)) \<and>
         unat (mt_requests_2xx m) = length (filter (\<lambda>(c, d). 200 \<le> c \<and> c < 300) (requests es)) \<and>
         unat (mt_requests_3xx m) = length (filter (\<lambda>(c, d). 300 \<le> c \<and> c < 400) (requests es)) \<and>
         unat (mt_requests_4xx m) = length (filter (\<lambda>(c, d). 400 \<le> c \<and> c < 500) (requests es)) \<and>
         unat (mt_requests_5xx m) = length (filter (\<lambda>(c, d). 500 \<le> c) (requests es))"
proof -
  have small: "length (requests es) < 2 ^ 64" using requests_length [of es] assms(1) by linarith
  let ?P = "\<lambda>j (c, d). j = 11 \<or> d \<le> bucket_boundaries ! j"
  have bucket: "unat (mt_duration_buckets m ! j) = length (filter (?P j) (requests es))" if "j < 12" for j
    using bucket_tally [of metrics_init j es] that unat_tally [OF small, of "?P j"]
    by (simp add: assms(2)) (simp add: metrics_init_def)
  have len: "length (mt_duration_buckets m) = 12"
    unfolding assms(2) by (rule buckets_length) (simp add: metrics_init_def)
  have "sorted (map unat (mt_duration_buckets m))"
  proof (intro sorted_iff_nth_mono [THEN iffD2] allI impI)
    fix i j assume ij: "i \<le> j" "j < length (map unat (mt_duration_buckets m))"
    have "length (filter (?P i) (requests es)) \<le> length (filter (?P j) (requests es))"
      using ij len boundaries_mono [of i j] by (intro length_filter_mono) (auto intro: order_trans)
    then show "map unat (mt_duration_buckets m) ! i \<le> map unat (mt_duration_buckets m) ! j"
      using ij len bucket [of i] bucket [of j] by simp
  qed
  moreover have "unat (mt_duration_buckets m ! j) = length (filter (\<lambda>(c, d). d \<le> bucket_boundaries ! j) (requests es))"
    if "j < 11" for j
    using bucket [of j] that by simp
  moreover have "unat (mt_duration_buckets m ! 11) = length (requests es)"
    using bucket [of 11] by (simp add: case_prod_unfold)
  moreover have "mt_duration_sum m = sum_list (map snd (requests es))"
    using sum_tally [of es metrics_init] by (simp add: assms(2)) (simp add: metrics_init_def)
  moreover have "mt_duration_count m = of_nat (length (filter (\<lambda>x. True) (requests es)))"
    "mt_requests_2xx m = of_nat (length (filter (\<lambda>(c, d). 200 \<le> c \<and> c < 300) (requests es)))"
    "mt_requests_3xx m = of_nat (length (filter (\<lambda>(c, d). 300 \<le> c \<and> c < 400) (requests es)))"
    "mt_requests_4xx m = of_nat (length (filter (\<lambda>(c, d). 400 \<le> c \<and> c < 500) (requests es)))"
    "mt_requests_5xx m = of_nat (length (filter (\<lambda>(c, d). 500 \<le> c) (requests es)))"
    unfolding assms(2) by (simp_all only: class_tally) (simp_all add: metrics_init_def)
  ultimately show ?thesis
    using unat_tally [OF small, of "\<lambda>x. True"] by (simp add: unat_tally [OF small])
qed

theorem metrics_tally_witness:
  "unat (mt_duration_buckets (fold metrics_exec [Request 200 (1 / 50), CacheHit, Request 503 3] metrics_init) ! 11) =
     length (requests [Request 200 (1 / 50), CacheHit, Request 503 3]) \<and>
   sorted (map unat (mt_duration_buckets (fold metrics_exec [Request 200 (1 / 50), CacheHit, Request 503 3] metrics_init)))"
  using metrics_tally [OF _ refl, of "[Request 200 (1 / 50), CacheHit, Request 503 3]"] by simp

text \<open>the sample of a route, host and tenant is made of exactly the requests recorded for them, and
  the exported labels name them again, for route names and tenants without a bar.\<close>

theorem route_metrics_isolated:
  assumes "CHR ''|'' \<notin> set route" "CHR ''|'' \<notin> set tenant"
  shows "route_sample (route_tag route host tenant) (fold metrics_exec es metrics_init) =
           fold (\<lambda>(c, d). sample_record c d) (concat (map (route_request_of (route_tag route host tenant)) es)) sample_init \<and>
         route_labels (route_tag route host tenant) =
           quoted ''route'' route @ '','' @ quoted ''host'' host @ '','' @ quoted ''tenant'' tenant"
proof -
  let ?tag = "route_tag route host tenant"
  have "takeWhile ((\<noteq>) (CHR ''|'')) (rev ?tag) = rev tenant"
    using assms(2) by (simp add: route_tag_def takeWhile_append)
  then have "rfind_char (CHR ''|'') ?tag = Some (length route + 1 + length host)"
    by (simp add: rfind_char_def route_tag_def)
  moreover have "find_char (CHR ''|'') ?tag = Some (length route)"
    using find_char_append [OF assms(1)] by (simp add: route_tag_def)
  ultimately have "route_labels ?tag = quoted ''route'' route @ '','' @ quoted ''host'' host @ '','' @ quoted ''tenant'' tenant"
    by (simp add: route_labels_def Let_def substr_def route_tag_def)
  moreover have "route_sample ?tag metrics_init = sample_init" by (simp add: route_sample_def metrics_init_def)
  ultimately show ?thesis using route_tally [of ?tag es metrics_init] by simp
qed

end
