(* ===== verification/Handler_Support.thy ===== *)
theory Handler_Support
  imports Logging_Utils Http_Message
begin

text \<open>
  The helpers of \<^verbatim>\<open>http_handler.cpp\<close> that touch no connection state: case-insensitive header names,
  the hop-by-hop headers of a response, the client-identity headers added on the upstream hop,
  trace identifiers, the audit line, error responses, response heads and the extraction of the API
  key. The clock (nanoseconds), the trace counter and \<^verbatim>\<open>std::hash\<close> are arguments.
\<close>

subsection \<open>Header names\<close>

definition ascii_to_lower :: "char \<Rightarrow> char" where
  "ascii_to_lower c =
     (if code (CHR ''A'') \<le> code c \<and> code c \<le> code (CHR ''Z'')
      then char_of (code c - code (CHR ''A'') + code (CHR ''a'')) else c)"

text \<open>The loop over both strings; the end of the literal is its terminating NUL.\<close>

fun iequals_ascii_lower :: "string \<Rightarrow> string \<Rightarrow> bool" where
  "iequals_ascii_lower (c # name) (l # lower_literal) =
     (if ascii_to_lower c \<noteq> l then False else iequals_ascii_lower name lower_literal)"
| "iequals_ascii_lower name lower_literal = (name = [] \<and> lower_literal = [])"

definition is_response_hop_by_hop :: "string \<Rightarrow> bool" where
  "is_response_hop_by_hop lower_name \<longleftrightarrow> lower_name \<in> set
     [''content-length'', ''transfer-encoding'', ''connection'', ''keep-alive'',
      ''proxy-authenticate'', ''proxy-authorization'', ''proxy-connection'',
      ''te'', ''trailer'', ''upgrade'']"

text \<open>The headers of a backend response are a \<^verbatim>\<open>std::map\<close>: iteration is in the order of the keys.\<close>

definition in_key_order :: "headers \<Rightarrow> headers" where
  "in_key_order hs = sort_key fst hs"

definition response_connection_tokens :: "headers \<Rightarrow> string list" where
  "response_connection_tokens hs =
     (case List.find (\<lambda>(k, v). iequals_ascii_lower k ''connection'') (in_key_order hs) of
        None \<Rightarrow> []
      | Some (k, value) \<Rightarrow> token_loop value 0 [])"

subsection \<open>Client identity on the upstream hop\<close>

definition inject_forwarded_headers :: "headers \<Rightarrow> string \<Rightarrow> headers" where
  "inject_forwarded_headers hs client_ip =
     (let hs1 = (if client_ip \<noteq> [] then
                   put ''x-real-ip'' client_ip
                     (case map_of hs ''x-forwarded-for'' of
                        Some xff \<Rightarrow> put ''x-forwarded-for'' (xff @ '', '' @ client_ip) hs
                      | None \<Rightarrow> put ''x-forwarded-for'' client_ip hs)
                 else hs);
          hs2 = put ''x-forwarded-proto'' ''https'' hs1
      in case map_of hs2 ''host'' of
           Some host \<Rightarrow> if host \<noteq> [] then put ''x-forwarded-host'' host hs2 else hs2
         | None \<Rightarrow> hs2)"

subsection \<open>Trace identifiers\<close>

text \<open>\<^verbatim>\<open>%0<w>llx\<close> of \<^verbatim>\<open>snprintf\<close>.\<close>

definition hex_pad :: "nat \<Rightarrow> nat \<Rightarrow> string" where
  "hex_pad w n = replicate (w - length (hex n)) (CHR ''0'') @ hex n"

definition isxdigit :: "char \<Rightarrow> bool" where
  "isxdigit c \<longleftrightarrow> hex_digit c \<noteq> None"

text \<open>The result comes with the counter \<^verbatim>\<open>g_trace_counter\<close> after the increment.\<close>

definition generate_trace_id :: "int \<Rightarrow> u64 \<Rightarrow> string \<times> u64" where
  "generate_trace_id now counter =
     (let seq = counter + 1
      in (take 16 (hex_pad 8 (nat (now mod 2 ^ 32)) @ hex_pad 8 (unat seq mod 2 ^ 32)), seq))"

definition normalize_trace_id_for_traceparent :: "int \<Rightarrow> string \<Rightarrow> u64 \<Rightarrow> string \<times> u64" where
  "normalize_trace_id_for_traceparent now trace_id counter =
     (case (if trace_id = [] then generate_trace_id now counter else (trace_id, counter)) of
        (normalized, counter') \<Rightarrow>
          (let digits = take 32 (filter isxdigit normalized)
           in (replicate (32 - length digits) (CHR ''0'') @ digits, counter')))"

definition generate_traceparent :: "(string \<Rightarrow> u64) \<Rightarrow> int \<Rightarrow> string \<Rightarrow> string \<Rightarrow> u64 \<Rightarrow> string \<times> u64" where
  "generate_traceparent hash now trace_id dep_name counter =
     (case (if trace_id = [] then generate_trace_id now counter else (trace_id, counter)) of
        (tid, counter1) \<Rightarrow>
          (case normalize_trace_id_for_traceparent now tid counter1 of
             (normalized, counter2) \<Rightarrow>
               (let parent_id = hash (if dep_name = [] then ''dependency'' else dep_name @ '':'' @ dec_int now)
                in (''00-'' @ normalized @ ''-'' @ hex_pad 16 (unat parent_id) @ ''-01'', counter2))))"

definition is_hex_string :: "string \<Rightarrow> bool" where
  "is_hex_string value \<longleftrightarrow> value \<noteq> [] \<and> list_all isxdigit value"

definition parse_trace_id_from_traceparent :: "string \<Rightarrow> string" where
  "parse_trace_id_from_traceparent traceparent =
     (if length traceparent < 35 then []
      else case str_find ''-'' traceparent 0 of
             None \<Rightarrow> []
           | Some first_dash \<Rightarrow>
               (case str_find ''-'' traceparent (first_dash + 1) of
                  None \<Rightarrow> []
                | Some second_dash \<Rightarrow>
                    (let trace_id = substr traceparent (first_dash + 1) (second_dash - first_dash - 1)
                     in if length trace_id = 32 \<and> is_hex_string trace_id then trace_id else [])))"

subsection \<open>Audit\<close>

definition classify_failure_reason :: "int \<Rightarrow> backend_error option \<Rightarrow> string" where
  "classify_failure_reason status_code error =
     (if status_code \<ge> 200 \<and> status_code < 400 then ''none''
      else if status_code = 401 then ''auth_failed''
      else if status_code = 403 then ''forbidden''
      else if status_code = 404 then ''route_not_found''
      else if status_code = 405 then ''method_not_allowed''
      else if status_code = 413 then ''payload_too_large''
      else if status_code = 429 then ''rate_limited''
      else if status_code = 503 then ''upstream_circuit_open''
      else if status_code = 502 then ''upstream_unavailable''
      else if status_code = 504 then ''upstream_timeout''
      else if status_code = 500 then ''internal_error''
      else case error of
             None \<Rightarrow> ''unknown_error''
           | Some e \<Rightarrow>
               (case e of
                  ConnectFailed \<Rightarrow> ''connect_failed'' | ConnectTimeout \<Rightarrow> ''connect_timeout''
                | WriteFailed \<Rightarrow> ''write_failed'' | WriteTimeout \<Rightarrow> ''write_timeout''
                | ReadFailed \<Rightarrow> ''read_failed'' | ReadTimeout \<Rightarrow> ''read_timeout''
                | InvalidResponse \<Rightarrow> ''invalid_upstream_response'' | BE_None \<Rightarrow> ''unknown_error''))"

definition header_or :: "string \<Rightarrow> string \<Rightarrow> headers \<Rightarrow> string" where
  "header_or fallback name hs = (case map_of hs name of Some v \<Rightarrow> v | None \<Rightarrow> fallback)"

text \<open>The line \<^verbatim>\<open>emit_audit_log\<close> hands to the logger.\<close>

definition emit_audit_log ::
  "http_request \<Rightarrow> int \<Rightarrow> string \<Rightarrow> string \<Rightarrow> string \<Rightarrow> string \<Rightarrow> logging_config \<Rightarrow> string" where
  "emit_audit_log req status_code failure_reason route_name host tenant logging =
     ''AUDIT trace_id='' @ (if req_trace_id req = [] then ''unknown'' else req_trace_id req) @
     '' method='' @ req_method req @
     '' path='' @ redact_path_query (req_path req) (req_query req) logging @
     '' host='' @ host @ '' tenant='' @ tenant @ '' route='' @ route_name @
     '' status='' @ dec_int status_code @ '' failure='' @ failure_reason @
     '' api_key='' @ redact_api_key (header_or [] ''x-api-key'' (req_headers req)) @
     '' user_agent='' @ redact_header_value ''user-agent'' (header_or ''-'' ''user-agent'' (req_headers req)) logging @
     '' authorization='' @ redact_header_value ''authorization'' (header_or [] ''authorization'' (req_headers req)) logging @
     '' cookie='' @ redact_header_value ''cookie'' (header_or [] ''cookie'' (req_headers req)) logging"

subsection \<open>Responses\<close>

definition to_hex :: "size_t \<Rightarrow> string" where
  "to_hex n = hex n"

definition set_header :: "string \<Rightarrow> string \<Rightarrow> http_response \<Rightarrow> http_response" where
  "set_header k v r = r\<lparr>rsp_headers := put k v (rsp_headers r)\<rparr>"

definition make_error_response :: "int \<Rightarrow> string \<Rightarrow> string \<Rightarrow> http_response" where
  "make_error_response error_code status message =
     (let body = ''<h1>'' @ dec_int error_code @ '' '' @ message @ ''</h1>''
      in set_header ''Connection'' ''close'' (set_header ''Content-Length'' (dec (length body))
           (set_header ''Content-Type'' ''text/html''
             (http_response_default\<lparr>rsp_status_code := error_code, rsp_status_message := status, rsp_body := body\<rparr>))))"

definition headers_to_string :: "http_response \<Rightarrow> string" where
  "headers_to_string resp =
     ''HTTP/1.1 '' @ dec_int (rsp_status_code resp) @ '' '' @ rsp_status_message resp @ crlf @
     concat (map (\<lambda>(k, v). k @ '': '' @ v @ crlf) (rsp_headers resp)) @ crlf"

subsection \<open>Requests\<close>

definition extract_api_key :: "http_request \<Rightarrow> string" where
  "extract_api_key req =
     (case map_of (req_headers req) ''x-api-key'' of
        Some key \<Rightarrow> key
      | None \<Rightarrow>
          (case map_of (req_headers req) ''authorization'' of
             Some val \<Rightarrow> if starts_with ''Bearer '' val then drop 7 val else []
           | None \<Rightarrow> []))"

definition requires_auth :: "http_request \<Rightarrow> bool" where
  "requires_auth req = starts_with ''/api/'' (req_path req)"

subsection \<open>Names are compared without case\<close>

lemma ascii_to_lower_eq: "ascii_to_lower = to_lower_char"
  by (rule ext) (simp add: ascii_to_lower_def to_lower_char_def is_upper_def)

lemma iequals_ascii_lower_iff: "iequals_ascii_lower name lit \<longleftrightarrow> lower name = lit"
  by (induction name lit rule: iequals_ascii_lower.induct) (auto simp: lower_def ascii_to_lower_eq)

subsection \<open>Hexadecimal fields\<close>

lemma isxdigit_hex: "list_all isxdigit (hex n)"
proof (induction n rule: hex.induct)
  case (1 n)
  have "isxdigit (hex_char (n mod 16))" "n < 16 \<Longrightarrow> isxdigit (hex_char n)"
    by (simp_all add: isxdigit_def hex_digit_hex_char)
  with 1 show ?case by (subst hex.simps) simp
qed

lemma length_hex_nat: "n < 16 ^ w \<Longrightarrow> 0 < w \<Longrightarrow> length (hex n) \<le> w"
proof (induction w arbitrary: n)
  case (Suc w)
  show ?case
  proof (cases "n < 16")
    case False
    then have "n div 16 < 16 ^ w" "0 < w" using Suc.prems by (auto simp: less_mult_imp_div_less mult.commute intro: gr0I)
    with Suc.IH False show ?thesis by (subst hex.simps) simp
  qed (simp add: hex.simps)
qed simp

lemma isxdigit_zero [simp]: "isxdigit (CHR ''0'')"
  by (simp add: isxdigit_def hex_digit.simps is_digit_def)

lemma isxdigit_hex_pad: "list_all isxdigit (hex_pad w n)"
  using isxdigit_hex [of n] by (auto simp: hex_pad_def list_all_iff)

lemma length_hex_pad: "n < 16 ^ w \<Longrightarrow> 0 < w \<Longrightarrow> length (hex_pad w n) = w"
  using length_hex_nat [of n w] by (simp add: hex_pad_def)

lemma isxdigit_not_dash: "isxdigit c \<Longrightarrow> c \<noteq> CHR ''-''"
  by (auto simp: isxdigit_def hex_digit.simps is_digit_def)

lemma generate_trace_id_hex:
  "length (fst (generate_trace_id now counter)) = 16" "list_all isxdigit (fst (generate_trace_id now counter))"
proof -
  let ?a = "nat (now mod 2 ^ 32)" and ?b = "unat (counter + 1) mod 2 ^ 32"
  have "now mod 2 ^ 32 < 2 ^ 32" by simp
  then have "?a < 16 ^ 8" by (simp add: nat_less_iff)
  moreover have "?b < 16 ^ 8" by simp
  ultimately have len: "length (hex_pad 8 ?a @ hex_pad 8 ?b) = 16" by (simp add: length_hex_pad)
  then show "length (fst (generate_trace_id now counter)) = 16"
    and "list_all isxdigit (fst (generate_trace_id now counter))"
    using isxdigit_hex_pad by (simp_all add: generate_trace_id_def Let_def)
qed

lemma normalize_trace_id_hex:
  "length (fst (normalize_trace_id_for_traceparent now tid counter)) = 32"
  "list_all isxdigit (fst (normalize_trace_id_for_traceparent now tid counter))"
proof -
  have "list_all isxdigit (replicate m (CHR ''0'') @ take n (filter isxdigit s))" for m n s
    by (auto simp: list_all_iff dest: in_set_takeD)
  then show "length (fst (normalize_trace_id_for_traceparent now tid counter)) = 32"
    and "list_all isxdigit (fst (normalize_trace_id_for_traceparent now tid counter))"
    unfolding normalize_trace_id_for_traceparent_def Let_def case_prod_unfold fst_conv by simp_all
qed

lemma normalize_trace_id_id:
  "length tid = 32 \<Longrightarrow> list_all isxdigit tid \<Longrightarrow> normalize_trace_id_for_traceparent now tid counter = (tid, counter)"
  by (auto simp: normalize_trace_id_for_traceparent_def list_all_iff)

lemma parse_traceparent:
  assumes "length tid = 32" "list_all isxdigit tid"
  shows "parse_trace_id_from_traceparent (''00-'' @ tid @ ''-'' @ rest) = tid"
proof -
  let ?s = "''00-'' @ tid @ ''-'' @ rest"
  have nd: "CHR ''-'' \<notin> set tid" using assms(2) isxdigit_not_dash by (auto simp: list_all_iff)
  have "find_char (CHR ''-'') (''00'' @ CHR ''-'' # tid @ ''-'' @ rest) = Some 2"
    by (subst find_char_append) simp_all
  then have first: "str_find ''-'' ?s 0 = Some 2" by (simp add: str_find_char)
  have "find_char (CHR ''-'') (tid @ CHR ''-'' # rest) = Some 32"
    using find_char_append [OF nd, of rest] assms(1) by simp
  then have "str_find ''-'' ?s 3 = Some 35" by (simp add: str_find_char)
  moreover have "tid \<noteq> []" "\<not> length ?s < 35" "substr ?s 3 32 = tid" using assms(1) by (auto simp: substr_def)
  ultimately show ?thesis
    using first assms unfolding parse_trace_id_from_traceparent_def by (simp add: is_hex_string_def Let_def del: append.simps)
qed

lemma traceparent_shape:
  assumes "tid \<noteq> []"
  shows "generate_traceparent hash now tid dep counter =
     (''00-'' @ fst (normalize_trace_id_for_traceparent now tid counter) @ ''-'' @
        hex_pad 16 (unat (hash (if dep = [] then ''dependency'' else dep @ '':'' @ dec_int now))) @ ''-01'', counter)"
  using assms by (simp add: generate_traceparent_def normalize_trace_id_for_traceparent_def Let_def case_prod_unfold)

subsection \<open>Header tables of the upstream hop\<close>

lemma map_of_forwarded_host:
  assumes "fhost \<noteq> host_key"
  shows "map_of (case map_of hs host_key of Some host \<Rightarrow> if host \<noteq> [] then put fhost host hs else hs | None \<Rightarrow> hs) k =
     (if k = fhost \<and> header_or [] host_key hs \<noteq> [] then map_of hs host_key else map_of hs k)"
  using assms by (cases "map_of hs host_key") (simp_all add: header_or_def)

lemma map_of_inject_forwarded:
  "map_of (inject_forwarded_headers hs ip) k =
     (if k = ''x-forwarded-host'' \<and> header_or [] ''host'' hs \<noteq> [] then map_of hs ''host''
      else if k = ''x-forwarded-proto'' then Some ''https''
      else if ip = [] then map_of hs k
      else if k = ''x-real-ip'' then Some ip
      else if k = ''x-forwarded-for''
        then Some ((case map_of hs ''x-forwarded-for'' of Some xff \<Rightarrow> xff @ '', '' | None \<Rightarrow> []) @ ip)
      else map_of hs k)"
proof -
  define hs1 where "hs1 = (if ip \<noteq> [] then
      put ''x-real-ip'' ip
        (case map_of hs ''x-forwarded-for'' of
           Some xff \<Rightarrow> put ''x-forwarded-for'' (xff @ '', '' @ ip) hs
         | None \<Rightarrow> put ''x-forwarded-for'' ip hs) else hs)"
  have hs1: "map_of hs1 j = (if ip = [] then map_of hs j else if j = ''x-real-ip'' then Some ip
      else if j = ''x-forwarded-for''
        then Some ((case map_of hs ''x-forwarded-for'' of Some xff \<Rightarrow> xff @ '', '' | None \<Rightarrow> []) @ ip)
      else map_of hs j)" for j
    unfolding hs1_def by (cases "map_of hs ''x-forwarded-for''") simp_all
  then have host: "map_of (put ''x-forwarded-proto'' ''https'' hs1) ''host'' = map_of hs ''host''" by simp
  have "''x-forwarded-host'' \<noteq> ''host''" by simp
  from map_of_forwarded_host [OF this, of "put ''x-forwarded-proto'' ''https'' hs1" k]
  show ?thesis
    unfolding inject_forwarded_headers_def Let_def hs1_def [symmetric]
    by (simp only: header_or_def host map_of_put [where k' = k] hs1 [of k])
qed

lemma distinct_inject_forwarded:
  "distinct (map fst hs) \<Longrightarrow> distinct (map fst (inject_forwarded_headers hs ip))"
  by (simp add: inject_forwarded_headers_def Let_def split: option.split)

subsection \<open>Properties\<close>



text \<open>C34: the trace identifier survives a hop. The \<^verbatim>\<open>traceparent\<close> header the gateway generates is
  parsed back by the gateway to a trace identifier of 32 hexadecimal digits: the identifier it was
  generated for when that is one already, otherwise its hexadecimal digits, cut or padded with zeros.\<close>

theorem traceparent_roundtrip:
  assumes "tid \<noteq> []"
  shows "parse_trace_id_from_traceparent (fst (generate_traceparent hash now tid dep counter)) =
           fst (normalize_trace_id_for_traceparent now tid counter) \<and>
         length (parse_trace_id_from_traceparent (fst (generate_traceparent hash now tid dep counter))) = 32 \<and>
         is_hex_string (parse_trace_id_from_traceparent (fst (generate_traceparent hash now tid dep counter))) \<and>
         (length tid = 32 \<and> is_hex_string tid \<longrightarrow>
            parse_trace_id_from_traceparent (fst (generate_traceparent hash now tid dep counter)) = tid)"
proof -
  let ?n = "fst (normalize_trace_id_for_traceparent now tid counter)"
  have "parse_trace_id_from_traceparent (fst (generate_traceparent hash now tid dep counter)) = ?n"
    unfolding traceparent_shape [OF assms] fst_conv by (rule parse_traceparent [OF normalize_trace_id_hex])
  moreover have "?n \<noteq> []" using normalize_trace_id_hex(1) [of now tid counter] by auto
  ultimately show ?thesis
    using normalize_trace_id_hex [of now tid counter] normalize_trace_id_id [of tid now counter]
    by (auto simp: is_hex_string_def)
qed

theorem traceparent_roundtrip_witness:
  "parse_trace_id_from_traceparent (fst (generate_traceparent (\<lambda>_. 7) 0 ''abc-1'' ''dep'' 0)) =
     replicate 28 (CHR ''0'') @ ''abc1''"
proof -
  have "fst (normalize_trace_id_for_traceparent 0 ''abc-1'' 0) = replicate 28 (CHR ''0'') @ ''abc1''"
    by (simp add: normalize_trace_id_for_traceparent_def isxdigit_def hex_digit.simps is_digit_def)
  then show ?thesis using traceparent_roundtrip [of "''abc-1''" "\<lambda>_. 7" 0 "''dep''" 0] by simp
qed

text \<open>C35: an audit line reveals no credential. With redaction on, two requests that differ in the
  API key, in the \<^verbatim>\<open>Authorization\<close> and \<^verbatim>\<open>Cookie\<close> headers they carry and in the values of sensitive query
  parameters are audited with the same line.\<close>

theorem audit_hides_secrets:
  assumes "log_redact_sensitive_headers logging" "log_redact_sensitive_query_params logging"
    and "contains_name (log_sensitive_headers logging) ''authorization''"
    and "contains_name (log_sensitive_headers logging) ''cookie''"
    and "CHR ''?'' \<notin> set (req_path req)"
    and "list_all2 (same_but_secret logging) ps qs" "\<forall>p \<in> set ps \<union> set qs. CHR ''&'' \<notin> set p"
    and "req_query req = join_with (CHR ''&'') ps" "req_query req \<noteq> []" "join_with (CHR ''&'') qs \<noteq> []"
    and "\<forall>n \<in> {''x-api-key'', ''authorization'', ''cookie''}.
           (header_or [] n hs = []) = (header_or [] n (req_headers req) = [])"
    and "map_of hs ''user-agent'' = map_of (req_headers req) ''user-agent''"
  shows "emit_audit_log (req\<lparr>req_headers := hs, req_query := join_with (CHR ''&'') qs\<rparr>) status reason route host tenant logging =
         emit_audit_log req status reason route host tenant logging"
proof -
  have "map (redact_part logging) ps = map (redact_part logging) qs"
    using assms(6) by (induction rule: list_all2_induct) (auto simp: redact_part_secret)
  moreover have "ps \<noteq> []" "qs \<noteq> []" using assms(8,9,10) by auto
  ultimately have "redact_path_query (req_path req) (join_with (CHR ''&'') qs) logging =
      redact_path_query (req_path req) (req_query req) logging"
    using assms(7-10) by (simp add: redact_path_query_def redact_target_eq [OF assms(2,5), simplified] split_join)
  moreover have "header_or ''-'' ''user-agent'' hs = header_or ''-'' ''user-agent'' (req_headers req)"
    by (simp add: header_or_def assms(12))
  ultimately show ?thesis
    using assms(1,3,4,11) by (simp add: emit_audit_log_def redact_api_key_def redact_header_value_def)
qed

definition sample_audit :: http_request where
  "sample_audit = request_clear\<lparr>req_path := ''/p'', req_query := ''token=a'',
     req_headers := [(''x-api-key'', ''k1''), (''cookie'', ''c1'')]\<rparr>"

theorem audit_hides_secrets_witness:
  "emit_audit_log (sample_audit\<lparr>req_headers := [(''x-api-key'', ''k2''), (''cookie'', ''c2'')], req_query := ''token=b''\<rparr>)
     401 ''auth_failed'' ''r'' ''h'' ''t'' logging_config_default =
   emit_audit_log sample_audit 401 ''auth_failed'' ''r'' ''h'' ''t'' logging_config_default"
proof -
  have "same_but_secret logging_config_default ''token=a'' ''token=b''"
    unfolding same_but_secret_def
    by (rule disjI2, rule exI [of _ "''token''"])
       (simp add: logging_config_default_def contains_name_def decode_query_name_def lowercase_def
         to_lower_char_def is_upper_def)
  then have secret: "list_all2 (same_but_secret logging_config_default) [''token=a''] [''token=b'']" by simp
  have names: "contains_name (log_sensitive_headers logging_config_default) ''authorization''"
    "contains_name (log_sensitive_headers logging_config_default) ''cookie''"
    by (simp_all add: logging_config_default_def contains_name_def lowercase_def to_lower_char_def is_upper_def)
  show ?thesis
    using audit_hides_secrets [OF _ _ names _ secret,
        of sample_audit "[(''x-api-key'', ''k2''), (''cookie'', ''c2'')]" 401 "''auth_failed''" "''r''" "''h''" "''t''"]
    by (simp add: sample_audit_def logging_config_default_def header_or_def request_clear_def)
qed

end
