(* ===== verification/Handler_Routes.thy ===== *)
theory Handler_Routes
  imports Handler_Support Api_Key_Manager Rate_Limiter Upstream_Manager Gateway_Metrics
begin

text \<open>
  The route table of \<^verbatim>\<open>HttpHandler\<close> (\<^verbatim>\<open>http_handler.cpp\<close>): registration of the built-in and the
  configured routes, resolution of a request to the first route that matches, the rate-limit
  decision, and the routes that are answered in place. What the handlers take from outside the
  sources is the record \<^verbatim>\<open>env\<close>: the clocks, \<^verbatim>\<open>std::hash\<close>, the JSON library, the compressor, the file
  system and the version string that the build generates. A clock is read once per handler call.
\<close>

subsection \<open>The environment\<close>

datatype json =
    J_null | J_bool bool | J_int int | J_real rat | J_str string | J_arr "json list"
  | J_obj "(string \<times> json) list"

text \<open>\<^verbatim>\<open>env_dump\<close> and \<^verbatim>\<open>env_parse_json\<close> return \<^term>\<open>None\<close> where the library throws: \<^verbatim>\<open>dump\<close> on a string that is
  not UTF-8, \<^verbatim>\<open>parse\<close> on text that is not JSON. \<^verbatim>\<open>env_contents\<close> is the content behind an open descriptor, \<^term>\<open>None\<close> when
  reading from it fails.\<close>

record env =
  env_now :: int
  env_time :: int
  env_hash :: "string \<Rightarrow> u64"
  env_dump :: "json \<Rightarrow> string option"
  env_parse_json :: "string \<Rightarrow> json option"
  env_version :: string
  env_show :: "rat \<Rightarrow> string"
  env_deflate :: "string \<Rightarrow> string option"
  env_canon :: "string \<Rightarrow> string option"
  env_file :: "string \<Rightarrow> string option"
  env_stat :: "string \<Rightarrow> (nat \<times> int) option"
  env_open :: "string \<Rightarrow> int option"
  env_contents :: "int \<Rightarrow> string option"
  env_local_time :: "int \<Rightarrow> string"

text \<open>\<^verbatim>\<open>j[k] = v\<close> on an object or on \<^verbatim>\<open>null\<close>.\<close>

fun json_set :: "string \<Rightarrow> json \<Rightarrow> json \<Rightarrow> json" where
  "json_set k v (J_obj m) = J_obj (put k v m)"
| "json_set k v j = J_obj [(k, v)]"

subsection \<open>Built-in handlers\<close>

datatype local_handler =
    LH_healthz | LH_readyz | LH_version | LH_metrics | LH_hello | LH_echo_post | LH_echo_put
  | LH_delete | LH_user | LH_chunked

record registered_route =
  rr_route :: gateway_route
  rr_handler :: "local_handler option"

definition answer :: "int \<Rightarrow> string \<Rightarrow> string \<Rightarrow> string \<Rightarrow> http_response \<Rightarrow> http_response" where
  "answer status message content_type body resp =
     set_header ''Content-Length'' (dec (length body))
       ((set_header ''Content-Type'' content_type
          (resp\<lparr>rsp_status_code := status, rsp_status_message := message\<rparr>))\<lparr>rsp_body := body\<rparr>)"

definition readyz_json :: "upstream_manager \<Rightarrow> bool \<times> json" where
  "readyz_json um =
     (let snapshot = health_snapshot um;
          ready = list_all (\<lambda>(name, healthy, total). healthy \<noteq> 0) snapshot;
          upstreams = J_obj (map (\<lambda>(name, healthy, total).
            (name, J_obj [(''healthy'', J_int (int healthy)), (''total'', J_int (int total))])) snapshot)
      in (ready, json_set ''upstreams'' upstreams
                   (json_set ''status'' (J_str (if ready then ''ready'' else ''unavailable'')) J_null)))"

text \<open>\<^term>\<open>None\<close>: an exception leaves the handler.\<close>

fun run_local ::
  "local_handler \<Rightarrow> env \<Rightarrow> upstream_manager \<Rightarrow> metrics \<Rightarrow> http_request \<Rightarrow> params \<Rightarrow> http_response \<Rightarrow> http_response option" where
  "run_local LH_healthz e um mt req ps resp = Some (answer 200 ''OK'' ''text/plain'' (''ok'' @ [LF]) resp)"
| "run_local LH_readyz e um mt req ps resp =
     (case readyz_json um of
        (ready, j) \<Rightarrow>
          map_option (\<lambda>s. answer (if ready then 200 else 503) (if ready then ''OK'' else ''Service Unavailable'')
            ''application/json'' (s @ [LF]) resp) (env_dump e j))"
| "run_local LH_version e um mt req ps resp =
     map_option (\<lambda>s. answer 200 ''OK'' ''application/json'' (s @ [LF]) resp)
       (env_dump e (json_set ''version'' (J_str (env_version e)) J_null))"
| "run_local LH_metrics e um mt req ps resp =
     Some (answer 200 ''OK'' ''text/plain; version=0.0.4'' (metrics_to_string (env_show e) mt) resp)"
| "run_local LH_hello e um mt req ps resp =
     map_option (\<lambda>s. answer 200 ''OK'' ''application/json'' s resp)
       (env_dump e (json_set ''message'' (J_str ''Hello, World!'') J_null))"
| "run_local LH_echo_post e um mt req ps resp =
     Some (case Option.bind (env_parse_json e (req_body req)) (\<lambda>j. env_dump e (json_set ''echo'' j J_null)) of
             Some s \<Rightarrow> answer 200 ''OK'' ''application/json'' s resp
           | None \<Rightarrow> answer 400 ''Bad Request'' ''application/json'' ''{\"error\":\"Invalid JSON\"}'' resp)"
| "run_local LH_echo_put e um mt req ps resp =
     Some (answer 200 ''OK'' ''text/plain'' (''PUT received: '' @ req_body req) resp)"
| "run_local LH_delete e um mt req ps resp =
     map_option (\<lambda>s. answer 200 ''OK'' ''application/json'' s resp)
       (env_dump e (json_set ''message'' (J_str ''Resource deleted successfully'')
          (json_set ''status'' (J_str ''deleted'') J_null)))"
| "run_local LH_user e um mt req ps resp =
     (case map_of ps ''id'' of
        None \<Rightarrow> None
      | Some user_id \<Rightarrow>
          map_option (\<lambda>s. answer 200 ''OK'' ''application/json'' s resp)
            (env_dump e (json_set ''name'' (J_str (''User_'' @ user_id)) (json_set ''id'' (J_str user_id) J_null))))"
| "run_local LH_chunked e um mt req ps resp =
     Some ((set_header ''Content-Type'' ''text/plain''
        (resp\<lparr>rsp_status_code := 200, rsp_status_message := ''OK''\<rparr>))\<lparr>rsp_chunked := True,
          rsp_body := ''This is a chunked response.'' @ [LF] @ ''Each line could be generated separately.'' @ [LF]\<rparr>)"

subsection \<open>Registration\<close>

definition addRoute_local ::
  "string \<Rightarrow> string \<Rightarrow> local_handler \<Rightarrow> registered_route list \<Rightarrow> registered_route list" where
  "addRoute_local meth pattern handler routes =
     routes @ [\<lparr>rr_route = gateway_route_default\<lparr>rt_method := meth, rt_path := pattern, rt_target_type := ''local'',
                   rt_enabled := True, rt_auth_required := False, rt_allow_anonymous := True,
                   rt_rate_limit_policy := ''route'', rt_host := ''*'', rt_tenant := ''*''\<rparr>,
                rr_handler = Some handler\<rparr>]"

definition addRoute ::
  "gateway_route \<Rightarrow> local_handler option \<Rightarrow> registered_route list \<Rightarrow> registered_route list" where
  "addRoute route handler routes =
     routes @ [\<lparr>rr_route = route\<lparr>
                   rt_target_type := (if rt_target_type route = [] then ''local'' else rt_target_type route),
                   rt_host := (if rt_host route = [] then ''*'' else rt_host route),
                   rt_tenant := (if rt_tenant route = [] then ''*'' else rt_tenant route)\<rparr>,
                rr_handler = handler\<rparr>]"

definition register_default_routes :: "registered_route list \<Rightarrow> registered_route list" where
  "register_default_routes routes =
     addRoute_local ''GET'' ''/chunked'' LH_chunked
     (addRoute_local ''GET'' ''/users/{id}'' LH_user
     (addRoute_local ''DELETE'' ''/api/resource'' LH_delete
     (addRoute_local ''PUT'' ''/api/echo'' LH_echo_put
     (addRoute_local ''POST'' ''/api/echo'' LH_echo_post
     (addRoute_local ''GET'' ''/api/hello'' LH_hello
     (addRoute_local ''GET'' ''/metrics'' LH_metrics
     (addRoute_local ''GET'' ''/version'' LH_version
     (addRoute_local ''GET'' ''/readyz'' LH_readyz
     (addRoute_local ''GET'' ''/healthz'' LH_healthz routes)))))))))"

definition register_configured_routes :: "gateway_route list \<Rightarrow> registered_route list \<Rightarrow> registered_route list" where
  "register_configured_routes configured routes =
     fold (\<lambda>route. addRoute (route\<lparr>rt_target_type :=
        (if rt_target_type route = [] then ''upstream'' else rt_target_type route)\<rparr>) None) configured routes"

text \<open>The table built by the constructor and by \<^verbatim>\<open>reload_config\<close>.\<close>

definition route_table :: "config \<Rightarrow> registered_route list" where
  "route_table config =
     register_configured_routes (uc_routes (cfg_upstream_config config)) (register_default_routes [])"

subsection \<open>Resolution\<close>

record resolved_route =
  rs_route :: "registered_route option"
  rs_params :: params
  rs_path_matched :: bool
  rs_allow_methods :: string

definition unresolved :: resolved_route where
  "unresolved = \<lparr>rs_route = None, rs_params = [], rs_path_matched = False, rs_allow_methods = []\<rparr>"

fun resolve_loop ::
  "string \<Rightarrow> string \<Rightarrow> http_request \<Rightarrow> registered_route list \<Rightarrow> resolved_route \<Rightarrow> resolved_route" where
  "resolve_loop host tenant req [] matched = matched"
| "resolve_loop host tenant req (registered # routes) matched =
     (case routeMatchesPath (rr_route registered) host tenant (req_path req) [] of
        (False, ps) \<Rightarrow> resolve_loop host tenant req routes matched
      | (True, ps) \<Rightarrow>
          (let meth = rt_method (rr_route registered);
               matched1 = matched\<lparr>rs_path_matched := True,
                 rs_allow_methods := (if rs_allow_methods matched \<noteq> [] then rs_allow_methods matched @ '', '' else []) @
                   (if meth = [] then ''*'' else meth)\<rparr>
           in if meth = [] \<or> meth = ''*'' \<or> meth = req_method req
              then matched1\<lparr>rs_route := Some registered, rs_params := ps\<rparr>
              else resolve_loop host tenant req routes matched1))"

definition resolve_route :: "registered_route list \<Rightarrow> http_request \<Rightarrow> resolved_route" where
  "resolve_route routes req =
     resolve_loop (header_or [] ''host'' (req_headers req)) (header_or [] ''x-tenant-id'' (req_headers req))
       req routes unresolved"

subsection \<open>Rate limiting\<close>

definition exempt_paths :: "string list" where
  "exempt_paths = [''/healthz'', ''/readyz'', ''/version'', ''/metrics'']"

definition should_rate_limit ::
  "env \<Rightarrow> config \<Rightarrow> http_request \<Rightarrow> gateway_route \<Rightarrow> string \<Rightarrow> api_key_config option \<Rightarrow> rate_limiter_manager \<Rightarrow>
   bool \<times> rate_limiter_manager" where
  "should_rate_limit e config req route client_ip api_key_cfg m =
     (let clock = (env_now e, env_now e, env_now e);
          refuse = (\<lambda>(ok, m'). (\<not> ok, m'))
      in if req_path req \<in> set exempt_paths then (False, m)
         else if rt_rate_limit_policy route = ''route''
           then refuse (try_acquire (''route:'' @ rt_path route @ '':'' @ req_method req) (cfg_rate_limit config) clock m)
         else case (if rt_rate_limit_policy route = ''api_key'' then api_key_cfg else None) of
                Some cfg \<Rightarrow> refuse (try_acquire (''api_key:'' @ ak_key cfg) (ak_rate_limit cfg) clock m)
              | None \<Rightarrow> refuse (try_acquire (''ip:'' @ client_ip) (cfg_rate_limit config) clock m))"

subsection \<open>Routes answered in place\<close>

definition dispatch_route ::
  "env \<Rightarrow> config \<Rightarrow> upstream_manager \<Rightarrow> metrics \<Rightarrow> http_request \<Rightarrow> resolved_route \<Rightarrow> http_response \<Rightarrow> http_response option" where
  "dispatch_route e config um mt req matched resp =
     (let not_found = Some (answer 404 ''Not Found'' ''text/html'' ''<h1>404 Not Found</h1>'' resp)
      in case rs_route matched of
           None \<Rightarrow> not_found
         | Some registered \<Rightarrow>
             (let target = rt_target_type (rr_route registered)
              in case (if target = ''local'' then rr_handler registered else None) of
                   Some handler \<Rightarrow> run_local handler e um mt req (rs_params matched) resp
                 | None \<Rightarrow>
                     if target = ''composite'' then
                       Some (make_error_response 500 ''Internal Server Error'' ''composite route dispatched synchronously'')
                     else if target = ''upstream'' then
                       Some (make_error_response 500 ''Internal Server Error'' ''upstream route dispatched synchronously'')
                     else if target = ''static'' then
                       (let static_root = (if rt_static_root (rr_route registered) = [] then cfg_www_root config
                                           else rt_static_root (rr_route registered));
                            request_path = (if req_path req = [] then ''/'' else req_path req)
                        in case is_safe_static_path (env_canon e) ''/'' request_path static_root of
                             None \<Rightarrow> Some (answer 403 ''Forbidden'' ''text/html'' ''<h1>403 Forbidden</h1>'' resp)
                           | Some resolved \<Rightarrow>
                               (case env_file e resolved of
                                  None \<Rightarrow> not_found
                                | Some content \<Rightarrow> Some (answer 200 ''OK'' (get_content_type resolved) content resp)))
                     else not_found))"

subsection \<open>Resolution is a search for the first match\<close>

definition route_matches :: "http_request \<Rightarrow> registered_route \<Rightarrow> bool" where
  "route_matches req r = fst (routeMatchesPath (rr_route r) (header_or [] ''host'' (req_headers req))
     (header_or [] ''x-tenant-id'' (req_headers req)) (req_path req) [])"

definition route_params :: "http_request \<Rightarrow> registered_route \<Rightarrow> params" where
  "route_params req r = snd (routeMatchesPath (rr_route r) (header_or [] ''host'' (req_headers req))
     (header_or [] ''x-tenant-id'' (req_headers req)) (req_path req) [])"

definition method_accepted :: "http_request \<Rightarrow> registered_route \<Rightarrow> bool" where
  "method_accepted req r \<longleftrightarrow> rt_method (rr_route r) \<in> {[], ''*'', req_method req}"

definition shown_method :: "registered_route \<Rightarrow> string" where
  "shown_method r = (if rt_method (rr_route r) = [] then ''*'' else rt_method (rr_route r))"

fun comma_join :: "string list \<Rightarrow> string" where
  "comma_join [] = []"
| "comma_join [x] = x"
| "comma_join (x # y # xs) = x @ '', '' @ comma_join (y # xs)"

lemma comma_join_Cons: "xs \<noteq> [] \<Longrightarrow> comma_join (x # xs) = x @ '', '' @ comma_join xs"
  by (cases xs) simp_all

definition comma_add :: "string \<Rightarrow> string list \<Rightarrow> string" where
  "comma_add acc xs = (if xs = [] then acc else if acc = [] then comma_join xs else acc @ '', '' @ comma_join xs)"

lemma comma_add_Nil [simp]: "comma_add acc [] = acc" "comma_add [] xs = comma_join xs"
  by (simp_all add: comma_add_def)

lemma comma_add_step:
  "x \<noteq> [] \<Longrightarrow> comma_add ((if acc \<noteq> [] then acc @ '', '' else []) @ x) xs = comma_add acc (x # xs)"
  by (simp add: comma_add_def comma_join_Cons)

lemma shown_method_not_Nil [simp]: "shown_method r \<noteq> []"
  by (simp add: shown_method_def)

lemma resolve_loop_find:
  fixes req :: http_request
  assumes "rs_route matched = None"
  defines "host \<equiv> header_or [] ''host'' (req_headers req)" and "tenant \<equiv> header_or [] ''x-tenant-id'' (req_headers req)"
  shows "case List.find (\<lambda>r. route_matches req r \<and> method_accepted req r) routes of
     Some r \<Rightarrow> rs_route (resolve_loop host tenant req routes matched) = Some r \<and>
               rs_params (resolve_loop host tenant req routes matched) = route_params req r
   | None \<Rightarrow> resolve_loop host tenant req routes matched =
       matched\<lparr>rs_path_matched := rs_path_matched matched \<or> list_ex (route_matches req) routes,
         rs_allow_methods := comma_add (rs_allow_methods matched) (map shown_method (filter (route_matches req) routes))\<rparr>"
  using assms(1)
proof (induction routes arbitrary: matched)
  case (Cons r routes)
  obtain b ps where m: "routeMatchesPath (rr_route r) host tenant (req_path req) [] = (b, ps)" by fastforce
  then have b: "route_matches req r = b" "route_params req r = ps"
    by (simp_all add: route_matches_def route_params_def host_def tenant_def)
  let ?meth = "rt_method (rr_route r)"
  let ?matched = "matched\<lparr>rs_path_matched := True,
      rs_allow_methods := (if rs_allow_methods matched \<noteq> [] then rs_allow_methods matched @ '', '' else []) @ shown_method r\<rparr>"
  have step: "resolve_loop host tenant req (r # routes) matched =
      (if \<not> b then resolve_loop host tenant req routes matched
       else if method_accepted req r then ?matched\<lparr>rs_route := Some r, rs_params := ps\<rparr>
       else resolve_loop host tenant req routes ?matched)"
    using m by (auto simp: method_accepted_def shown_method_def Let_def)
  show ?case
  proof (cases "b \<and> method_accepted req r")
    case True
    then show ?thesis unfolding step by (simp add: b)
  next
    case False
    define next_matched where "next_matched = (if b then ?matched else matched)"
    have eq: "resolve_loop host tenant req (r # routes) matched = resolve_loop host tenant req routes next_matched"
      unfolding step next_matched_def using False by auto
    have add: "comma_add (rs_allow_methods next_matched) xs =
        comma_add (rs_allow_methods matched) ((if b then [shown_method r] else []) @ xs)" for xs
      unfolding next_matched_def using comma_add_step [OF shown_method_not_Nil, of "rs_allow_methods matched" r xs]
      by simp
    have upd: "next_matched\<lparr>rs_path_matched := x, rs_allow_methods := y\<rparr> = matched\<lparr>rs_path_matched := x, rs_allow_methods := y\<rparr>"
        "rs_path_matched next_matched \<longleftrightarrow> rs_path_matched matched \<or> b" for x y
      by (simp_all add: next_matched_def)
    have "rs_route next_matched = None" using Cons.prems by (simp add: next_matched_def)
    from Cons.IH [OF this] show ?thesis
      using False unfolding eq add upd by (auto simp: b split: option.splits)
  qed
qed (simp add: list.simps)

lemma resolve_route_find:
  "case List.find (\<lambda>r. route_matches req r \<and> method_accepted req r) routes of
     Some r \<Rightarrow> rs_route (resolve_route routes req) = Some r \<and> rs_params (resolve_route routes req) = route_params req r
   | None \<Rightarrow> resolve_route routes req =
       unresolved\<lparr>rs_path_matched := list_ex (route_matches req) routes,
         rs_allow_methods := comma_join (map shown_method (filter (route_matches req) routes))\<rparr>"
proof -
  have "rs_route unresolved = None" "\<not> rs_path_matched unresolved" "rs_allow_methods unresolved = []"
    by (simp_all add: unresolved_def)
  with resolve_loop_find [of unresolved req routes] show ?thesis
    unfolding resolve_route_def by (auto split: option.splits)
qed

lemma find_split:
  "List.find P xs = Some x \<longleftrightarrow> (\<exists>pre post. xs = pre @ x # post \<and> P x \<and> \<not> list_ex P pre)"
proof (induction xs)
  case (Cons y xs)
  show ?case
  proof (cases "P y")
    case True
    then show ?thesis by (auto simp: Cons_eq_append_conv)
  next
    case False
    have "(\<exists>pre post. y # xs = pre @ x # post \<and> P x \<and> \<not> list_ex P pre) \<longleftrightarrow>
        (\<exists>pre post. xs = pre @ x # post \<and> P x \<and> \<not> list_ex P pre)"
    proof
      assume "\<exists>pre post. y # xs = pre @ x # post \<and> P x \<and> \<not> list_ex P pre"
      then obtain pre post where "y # xs = pre @ x # post" "P x" "\<not> list_ex P pre" by blast
      with False show "\<exists>pre post. xs = pre @ x # post \<and> P x \<and> \<not> list_ex P pre" by (cases pre) auto
    next
      assume "\<exists>pre post. xs = pre @ x # post \<and> P x \<and> \<not> list_ex P pre"
      then obtain pre post where "xs = pre @ x # post" "P x" "\<not> list_ex P pre" by blast
      with False show "\<exists>pre post. y # xs = pre @ x # post \<and> P x \<and> \<not> list_ex P pre"
        by (intro exI [of _ "y # pre"] exI [of _ post]) auto
    qed
    with Cons False show ?thesis by simp
  qed
qed simp

subsection \<open>The built-in table\<close>

abbreviation builtin :: "string \<Rightarrow> string \<Rightarrow> local_handler \<Rightarrow> registered_route" where
  "builtin meth path handler \<equiv> hd (addRoute_local meth path handler [])"

lemma builtin_fields [simp]:
  "rr_handler (builtin meth path handler) = Some handler"
  "rt_method (rr_route (builtin meth path handler)) = meth"
  "rt_path (rr_route (builtin meth path handler)) = path"
  "rt_target_type (rr_route (builtin meth path handler)) = ''local''"
  "\<not> rt_auth_required (rr_route (builtin meth path handler))"
  by (simp_all add: addRoute_local_def)

lemma builtin_matches:
  assumes "path \<noteq> [] \<Longrightarrow> last path \<noteq> CHR ''*''"
  shows "route_matches req (builtin meth path handler) =
     list_all2 segment_matches (path_segments path) (path_segments (req_path req))"
  using assms match_segments_spec [of path "req_path req" 0 0 "[]"]
  by (auto simp: route_matches_def routeMatchesPath_def matchRoute_def addRoute_local_def)

lemma register_default_routes_eq:
  "register_default_routes routes = routes @
     [builtin ''GET'' ''/healthz'' LH_healthz, builtin ''GET'' ''/readyz'' LH_readyz,
      builtin ''GET'' ''/version'' LH_version, builtin ''GET'' ''/metrics'' LH_metrics,
      builtin ''GET'' ''/api/hello'' LH_hello, builtin ''POST'' ''/api/echo'' LH_echo_post,
      builtin ''PUT'' ''/api/echo'' LH_echo_put, builtin ''DELETE'' ''/api/resource'' LH_delete,
      builtin ''GET'' ''/users/{id}'' LH_user, builtin ''GET'' ''/chunked'' LH_chunked]"
  by (simp add: register_default_routes_def addRoute_local_def)

lemma register_configured_routes_append:
  "\<exists>more. register_configured_routes configured routes = routes @ more"
proof (induction configured arbitrary: routes)
  case (Cons c configured)
  obtain r where r: "register_configured_routes (c # configured) routes = register_configured_routes configured (routes @ [r])"
    by (simp add: register_configured_routes_def addRoute_def)
  from Cons [of "routes @ [r]"] show ?case unfolding r by auto
qed (simp add: register_configured_routes_def)

lemma find_append_Some: "List.find P xs = Some x \<Longrightarrow> List.find P (xs @ ys) = Some x"
  by (induction xs) auto

lemma resolve_builtin:
  assumes "List.find (\<lambda>r. route_matches req r \<and> method_accepted req r) (register_default_routes []) = Some r"
  shows "rs_route (resolve_route (route_table config) req) = Some r"
proof -
  obtain more where "route_table config = register_default_routes [] @ more"
    using register_configured_routes_append unfolding route_table_def by blast
  then show ?thesis
    using resolve_route_find [of "route_table config" req] find_append_Some [OF assms] by simp
qed

lemma find_probe:
  assumes "(req_path req, handler) \<in> set [(''/healthz'', LH_healthz), (''/readyz'', LH_readyz),
      (''/version'', LH_version), (''/metrics'', LH_metrics)]" "req_method req = ''GET''"
  shows "List.find (\<lambda>r. route_matches req r \<and> method_accepted req r) (register_default_routes []) =
     Some (builtin ''GET'' (req_path req) handler)"
proof -
  have segs: "path_segments ''/healthz'' = [''healthz'']" "path_segments ''/readyz'' = [''readyz'']"
    "path_segments ''/version'' = [''version'']" "path_segments ''/metrics'' = [''metrics'']"
    by (simp_all add: path_segments_def)
  consider "req_path req = ''/healthz''" "handler = LH_healthz" | "req_path req = ''/readyz''" "handler = LH_readyz"
    | "req_path req = ''/version''" "handler = LH_version" | "req_path req = ''/metrics''" "handler = LH_metrics"
    using assms(1) by fastforce
  then show ?thesis
    unfolding register_default_routes_eq
    by cases (simp_all add: assms(2) builtin_matches segs segment_matches_def is_param_segment_def method_accepted_def)
qed

subsection \<open>Properties\<close>

text \<open>C36: a request is served by the first registered route that matches. The resolved route is the
  first one whose host, tenant and path match and whose method is the request's, empty or an
  asterisk; when there is none, the path counts as matched exactly when some route matches apart from its
  method, and the \<^verbatim>\<open>Allow\<close> list has the methods of all those routes in the order of registration.\<close>

theorem resolve_route_first_match:
  "(rs_route (resolve_route routes req) = Some r) =
     (\<exists>pre post. routes = pre @ r # post \<and> (route_matches req r \<and> method_accepted req r) \<and>
        \<not> list_ex (\<lambda>q. route_matches req q \<and> method_accepted req q) pre) \<and>
   (rs_route (resolve_route routes req) = None \<longrightarrow>
      rs_path_matched (resolve_route routes req) = list_ex (route_matches req) routes \<and>
      rs_allow_methods (resolve_route routes req) = comma_join (map shown_method (filter (route_matches req) routes)))"
  unfolding find_split [where P = "\<lambda>q. route_matches req q \<and> method_accepted req q", symmetric]
  using resolve_route_find [of routes req] by (auto simp: unresolved_def split: option.splits)

definition sample_env :: env where
  "sample_env = \<lparr>env_now = 0, env_time = 0, env_hash = (\<lambda>_. 0), env_dump = (\<lambda>_. Some ''{}''), env_parse_json = (\<lambda>_. None),
     env_version = ''1'', env_show = (\<lambda>_. ''0''), env_deflate = (\<lambda>_. None), env_canon = Some, env_file = (\<lambda>_. None),
     env_stat = (\<lambda>_. None), env_open = (\<lambda>_. None), env_contents = (\<lambda>_. None), env_local_time = (\<lambda>_. [])\<rparr>"

definition probe_request :: http_request where
  "probe_request = request_clear\<lparr>req_method := ''GET'', req_path := ''/healthz''\<rparr>"

theorem resolve_route_first_match_witness:
  "rs_route (resolve_route [builtin ''POST'' ''/healthz'' LH_hello] probe_request) = None \<and>
   rs_path_matched (resolve_route [builtin ''POST'' ''/healthz'' LH_hello] probe_request) \<and>
   rs_allow_methods (resolve_route [builtin ''POST'' ''/healthz'' LH_hello] probe_request) = ''POST''"
proof -
  let ?r = "builtin ''POST'' ''/healthz'' LH_hello"
  have m: "route_matches probe_request ?r" "\<not> method_accepted probe_request ?r"
    by (simp_all add: builtin_matches probe_request_def path_segments_def segment_matches_def method_accepted_def)
  have "rs_route (resolve_route [?r] probe_request) \<noteq> Some r" for r
    using resolve_route_first_match [of "[?r]" probe_request r] m by (auto simp: Cons_eq_append_conv)
  then have "rs_route (resolve_route [?r] probe_request) = None" by (cases "rs_route (resolve_route [?r] probe_request)") auto
  then show ?thesis
    using resolve_route_first_match [of "[?r]" probe_request] m(1) by (simp add: shown_method_def)
qed

text \<open>C37: the probe endpoints are always reachable. For every configuration, \<^verbatim>\<open>GET\<close> on
  \<^verbatim>\<open>/healthz\<close>, \<^verbatim>\<open>/readyz\<close>, \<^verbatim>\<open>/version\<close> and \<^verbatim>\<open>/metrics\<close> resolves to the built-in handler, which no configured
  route can shadow; it asks for no credentials, and the rate limiter neither refuses it nor counts it.\<close>

theorem probe_endpoints_open:
  assumes "(req_path req, handler) \<in> set [(''/healthz'', LH_healthz), (''/readyz'', LH_readyz),
      (''/version'', LH_version), (''/metrics'', LH_metrics)]" "req_method req = ''GET''"
  shows "\<exists>r. rs_route (resolve_route (route_table config) req) = Some r \<and> rr_handler r = Some handler \<and>
           rt_target_type (rr_route r) = ''local'' \<and> \<not> rt_auth_required (rr_route r) \<and>
           should_rate_limit e config req (rr_route r) client_ip cfg m = (False, m)"
proof -
  have "req_path req \<in> set exempt_paths" using assms(1) by (fastforce simp: exempt_paths_def)
  then show ?thesis
    using resolve_builtin [OF find_probe [OF assms], of config]
    by (intro exI [of _ "builtin ''GET'' (req_path req) handler"]) (simp add: should_rate_limit_def Let_def)
qed

theorem probe_endpoints_open_witness:
  "\<exists>r. rs_route (resolve_route (route_table config_default) probe_request) = Some r \<and> rr_handler r = Some LH_healthz \<and>
     rt_target_type (rr_route r) = ''local'' \<and> \<not> rt_auth_required (rr_route r) \<and>
     should_rate_limit sample_env config_default probe_request (rr_route r) ''1.2.3.4'' None (manager_create rate_limit_default) =
       (False, manager_create rate_limit_default)"
  by (rule probe_endpoints_open) (simp_all add: probe_request_def)

end
