(* ===== verification/Handler_State.thy ===== *)
theory Handler_State
  imports Handler_Routes Upstream_Exchange File_Cache Fd_Cache
begin

text \<open>
  The state of \<^verbatim>\<open>HttpHandler\<close> (\<^verbatim>\<open>http_handler.h\<close>) and of the \<^verbatim>\<open>Epoll\<close> wrapper it drives
  (\<^verbatim>\<open>myepoll.cpp\<close>), and the operations that frame and queue a response: \<^verbatim>\<open>finalize_response\<close>,
  \<^verbatim>\<open>send_error_response\<close>, \<^verbatim>\<open>rearm_reads\<close>, \<^verbatim>\<open>on_connect\<close>, \<^verbatim>\<open>cleanup\<close>, \<^verbatim>\<open>reload_config\<close>. The maps keyed by
  \<^verbatim>\<open>Socket*\<close> are association lists keyed by a number that stands for the object; the object itself
  (its descriptor and whether it speaks TLS) is in the table of sockets. The components shared with other
  workers (upstream manager, rate limiters, connection pool, metrics) are fields of the state.
\<close>

subsection \<open>Outcome of an operation\<close>

text \<open>An operation returns, leaves with an exception, or does not return: a loop goes on when the
  recorded answers of the network end, or for ever.\<close>

datatype 'h result = Ret 'h | Raise 'h | Hang 'h

fun and_then :: "'h result \<Rightarrow> ('h \<Rightarrow> 'h result) \<Rightarrow> 'h result" where
  "and_then (Ret h) f = f h"
| "and_then (Raise h) f = Raise h"
| "and_then (Hang h) f = Hang h"

fun state_of :: "'h result \<Rightarrow> 'h" where
  "state_of (Ret h) = h"
| "state_of (Raise h) = h"
| "state_of (Hang h) = h"

subsection \<open>Epoll\<close>

unbundle bit_operations_syntax

type_synonym u32 = "32 word"

definition EPOLLIN :: u32 where "EPOLLIN = 1"
definition EPOLLOUT :: u32 where "EPOLLOUT = 4"
definition EPOLLERR :: u32 where "EPOLLERR = 8"
definition EPOLLHUP :: u32 where "EPOLLHUP = 16"
definition EPOLLRDHUP :: u32 where "EPOLLRDHUP = 0x2000"
definition EPOLLONESHOT :: u32 where "EPOLLONESHOT = 0x40000000"
definition EPOLLET :: u32 where "EPOLLET = 0x80000000"

type_synonym epoll = "(int \<times> u32) list"

text \<open>\<^term>\<open>None\<close> is the \<^verbatim>\<open>system_error\<close> that \<^verbatim>\<open>epoll_ctl\<close> failures raise; \<^verbatim>\<open>del\<close> ignores a missing descriptor.\<close>

definition epoll_add :: "int \<Rightarrow> u32 \<Rightarrow> epoll \<Rightarrow> epoll option" where
  "epoll_add fd events ep = (if fd < 0 \<or> has_key fd ep then None else Some (put fd events ep))"

definition epoll_mod :: "int \<Rightarrow> u32 \<Rightarrow> epoll \<Rightarrow> epoll option" where
  "epoll_mod fd events ep = (if has_key fd ep then Some (put fd events ep) else None)"

definition epoll_del :: "int \<Rightarrow> epoll \<Rightarrow> epoll" where
  "epoll_del fd ep = AList.delete fd ep"

subsection \<open>State\<close>

record client_socket =
  so_fd :: int
  so_is_ssl :: bool

datatype ssl_want = SSL_NONE | SSL_READ | SSL_WRITE

record child_exchange =
  ch_ex :: "exchange option"
  ch_fd :: int
  ch_server :: upstream_server
  ch_upstream_key :: string
  ch_max_retries :: int
  ch_circuit_failure_threshold :: int
  ch_circuit_recovery_timeout_ms :: int
  ch_attempt_count :: int
  ch_finished :: bool
  ch_required :: bool
  ch_name :: string
  ch_item :: json

definition child_default :: child_exchange where
  "child_default = \<lparr>ch_ex = None, ch_fd = -1, ch_server = upstream_server_default, ch_upstream_key = [],
     ch_max_retries = 0, ch_circuit_failure_threshold = 0, ch_circuit_recovery_timeout_ms = 0,
     ch_attempt_count = 0, ch_finished = False, ch_required = True, ch_name = [], ch_item = J_null\<rparr>"

record exchange_state =
  es_req :: http_request
  es_children :: "child_exchange list"
  es_composite :: bool
  es_route_name :: string
  es_composite_name :: string
  es_total_timeout_ms :: int
  es_has_total_deadline :: bool
  es_total_deadline :: int
  es_started :: int
  es_client_ip :: string

text \<open>What the kernel or the TLS library answers to a read and to a write on a client socket: the bytes
  that are there, none at the end of the stream, or the largest number of bytes taken; \<^verbatim>\<open>EAGAIN\<close>, for TLS with the
  direction waited for; \<^verbatim>\<open>EPIPE\<close>; any other error.\<close>

datatype read_answer = Rd string | Rd_again | Rd_fail

datatype write_answer = Wr nat | Wr_again ssl_want | Wr_epipe | Wr_fail

type_synonym 'v conn_map = "(nat \<times> 'v) list"

record handler =
  h_sockets :: "client_socket conn_map"
  h_epoll :: epoll
  h_read_bufs :: "string conn_map"
  h_send_queues :: "string list conn_map"
  h_request_ready :: "bool conn_map"
  h_parsers :: "parser conn_map"
  h_requests :: "http_request conn_map"
  h_keep_alive :: "bool conn_map"
  h_file_fds :: "int conn_map"
  h_file_offsets :: "nat conn_map"
  h_file_sizes :: "nat conn_map"
  h_ssl_file_buffers :: "string conn_map"
  h_pending_ssl_writes :: "ssl_want conn_map"
  h_resp_status :: "int conn_map"
  h_resp_size :: "nat conn_map"
  h_client_ip_map :: "string conn_map"
  h_request_start_time :: "int conn_map"
  h_last_requests :: "http_request conn_map"
  h_client_upstream :: "exchange_state conn_map"
  h_upstream_fd_owner :: "(int \<times> nat \<times> nat) list"
  h_www_root :: string
  h_cache :: file_cache
  h_fd_cache :: fd_cache
  h_fd_offsets :: "(int \<times> nat) list"
  h_config :: config
  h_routes :: "registered_route list"
  h_upstream_manager :: upstream_manager
  h_rate_limiter_manager :: rate_limiter_manager
  h_api_keys :: api_keys
  h_metrics :: metrics
  h_network :: network
  h_answers :: "answers list"
  h_trace_counter :: u64
  h_reads :: "read_answer list"
  h_writes :: "write_answer list"
  h_sent :: "(nat \<times> string) list"
  h_log :: "string list"

definition sock_fd :: "handler \<Rightarrow> nat \<Rightarrow> int" where
  "sock_fd h s = (case map_of (h_sockets h) s of Some k \<Rightarrow> so_fd k | None \<Rightarrow> -1)"

definition sock_is_ssl :: "handler \<Rightarrow> nat \<Rightarrow> bool" where
  "sock_is_ssl h s = (case map_of (h_sockets h) s of Some k \<Rightarrow> so_is_ssl k | None \<Rightarrow> False)"

text \<open>\<^verbatim>\<open>m[k]\<close>: a missing entry is created with the default value.\<close>

definition at_default :: "'v \<Rightarrow> nat \<Rightarrow> 'v conn_map \<Rightarrow> 'v" where
  "at_default d k m = (case map_of m k of Some v \<Rightarrow> v | None \<Rightarrow> d)"

definition arm :: "int \<Rightarrow> u32 \<Rightarrow> handler \<Rightarrow> handler result" where
  "arm fd events h =
     (case epoll_mod fd events (h_epoll h) of
        None \<Rightarrow> Raise h
      | Some ep \<Rightarrow> Ret (h\<lparr>h_epoll := ep\<rparr>))"

subsection \<open>Framing a response\<close>

definition gzip_compress :: "env \<Rightarrow> string \<Rightarrow> string option" where
  "gzip_compress e input = (if input = [] then None else env_deflate e input)"

definition trace_id_header :: "env \<Rightarrow> http_request \<Rightarrow> u64 \<Rightarrow> string \<times> u64" where
  "trace_id_header e req counter =
     (if req_trace_id req = [] then generate_trace_id (env_now e) counter else (req_trace_id req, counter))"

definition traceparent_header :: "env \<Rightarrow> http_request \<Rightarrow> u64 \<Rightarrow> string \<times> u64" where
  "traceparent_header e req counter =
     (case map_of (req_headers req) ''traceparent'' of
        Some tp \<Rightarrow> (tp, counter)
      | None \<Rightarrow> generate_traceparent (env_hash e) (env_now e) [] [] counter)"

definition add_trace_headers :: "env \<Rightarrow> http_request \<Rightarrow> http_response \<Rightarrow> u64 \<Rightarrow> http_response \<times> u64" where
  "add_trace_headers e req resp counter =
     (let (resp1, counter1) =
            (if has_key ''X-Trace-Id'' (rsp_headers resp) then (resp, counter)
             else case trace_id_header e req counter of (tid, c) \<Rightarrow> (set_header ''X-Trace-Id'' tid resp, c))
      in if has_key ''Traceparent'' (rsp_headers resp1) then (resp1, counter1)
         else case traceparent_header e req counter1 of (tp, c) \<Rightarrow> (set_header ''Traceparent'' tp resp1, c))"

definition compress_response :: "env \<Rightarrow> http_request \<Rightarrow> bool \<Rightarrow> http_response \<Rightarrow> http_response" where
  "compress_response e req already_compressed resp =
     (if req_method req \<noteq> ''HEAD'' \<and> \<not> already_compressed \<and> should_compress req resp then
        (case gzip_compress e (rsp_body resp) of
           None \<Rightarrow> resp
         | Some compressed \<Rightarrow>
             set_header ''Content-Length'' (dec (length compressed))
               (set_header ''Content-Encoding'' ''gzip'' (resp\<lparr>rsp_body := compressed\<rparr>)))
      else resp)"

definition chunk_response :: "http_response \<Rightarrow> http_response" where
  "chunk_response resp =
     (if rsp_chunked resp then
        (set_header ''Transfer-Encoding'' ''chunked''
           (resp\<lparr>rsp_headers := AList.delete ''Content-Length'' (rsp_headers resp)\<rparr>))
          \<lparr>rsp_body := (if rsp_body resp \<noteq> [] then to_hex (length (rsp_body resp)) @ crlf @ rsp_body resp @ crlf else []) @
             ''0'' @ crlf @ crlf\<rparr>
      else resp)"

text \<open>The part of \<^verbatim>\<open>finalize_response\<close> that fixes head and body.\<close>

definition prepare_response :: "env \<Rightarrow> bool \<Rightarrow> http_request \<Rightarrow> bool \<Rightarrow> http_response \<Rightarrow> http_response" where
  "prepare_response e keep_alive req already_compressed resp =
     chunk_response (compress_response e req already_compressed
       (set_header ''Server'' (''EpollHTTP/'' @ env_version e)
         (set_header ''Connection'' (if keep_alive then ''keep-alive'' else ''close'') resp)))"

definition kMaxCoalesceBytes :: nat where
  "kMaxCoalesceBytes = 64 * 1024"

definition response_chunks :: "bool \<Rightarrow> bool \<Rightarrow> http_response \<Rightarrow> string list" where
  "response_chunks is_ssl is_head resp =
     (let header_str = headers_to_string resp;
          has_body = (\<not> is_head \<and> rsp_body resp \<noteq> [])
      in if has_body \<and> is_ssl \<and> length (rsp_body resp) \<le> kMaxCoalesceBytes then [header_str @ rsp_body resp]
         else header_str # (if has_body then [rsp_body resp] else []))"

text \<open>The number of bytes of a response; the file of a \<^verbatim>\<open>HEAD\<close> request is not sent.\<close>

definition count_response :: "nat \<Rightarrow> bool \<Rightarrow> http_response \<Rightarrow> handler \<Rightarrow> handler \<times> nat" where
  "count_response s is_head resp h =
     (let header_size = length (headers_to_string resp)
      in if \<not> is_head then
           (if rsp_body resp \<noteq> [] then (h, header_size + length (rsp_body resp))
            else if rsp_status_code resp = 200
              then (h\<lparr>h_file_sizes := put s (at_default 0 s (h_file_sizes h)) (h_file_sizes h)\<rparr>,
                    header_size + at_default 0 s (h_file_sizes h))
            else (h, header_size))
         else if has_key s (h_file_fds h)
           then (h\<lparr>h_file_fds := AList.delete s (h_file_fds h), h_file_offsets := AList.delete s (h_file_offsets h),
                   h_file_sizes := AList.delete s (h_file_sizes h)\<rparr>, header_size)
         else (h, header_size))"

definition finalize_response :: "env \<Rightarrow> nat \<Rightarrow> http_request \<Rightarrow> http_response \<Rightarrow> bool \<Rightarrow> handler \<Rightarrow> handler result" where
  "finalize_response e s req resp0 already_compressed h0 =
     (let (resp1, counter) = add_trace_headers e req resp0 (h_trace_counter h0);
          keep_alive = at_default False s (h_keep_alive h0);
          h = h0\<lparr>h_trace_counter := counter, h_keep_alive := put s keep_alive (h_keep_alive h0)\<rparr>;
          resp = prepare_response e keep_alive req already_compressed resp1;
          is_head = (req_method req = ''HEAD'');
          (h1, total_bytes) = count_response s is_head resp h;
          queue = at_default [] s (h_send_queues h1);
          h2 = h1\<lparr>h_resp_status := put s (rsp_status_code resp) (h_resp_status h1),
                  h_resp_size := put s total_bytes (h_resp_size h1),
                  h_send_queues := put s (queue @ response_chunks (sock_is_ssl h1 s) is_head resp) (h_send_queues h1)\<rparr>
      in arm (sock_fd h2 s) (EPOLLIN OR EPOLLOUT OR EPOLLET OR EPOLLONESHOT) h2)"

definition error_response_for :: "int \<Rightarrow> string \<Rightarrow> string \<Rightarrow> http_request option \<Rightarrow> http_response" where
  "error_response_for status message allow_methods last_request =
     (let resp1 = make_error_response status message message;
          resp2 = (case last_request of
                     None \<Rightarrow> resp1
                   | Some r \<Rightarrow> if req_trace_id r \<noteq> [] then set_header ''X-Trace-Id'' (req_trace_id r) resp1 else resp1);
          resp3 = (case Option.bind last_request (\<lambda>r. map_of (req_headers r) ''traceparent'') of
                     None \<Rightarrow> resp2
                   | Some tp \<Rightarrow> set_header ''Traceparent'' tp resp2);
          resp4 = set_header ''Connection'' ''close'' resp3
      in if allow_methods \<noteq> [] then set_header ''Allow'' allow_methods resp4 else resp4)"

definition send_error_response :: "nat \<Rightarrow> int \<Rightarrow> string \<Rightarrow> string \<Rightarrow> handler \<Rightarrow> handler result" where
  "send_error_response s status message allow_methods h =
     (let resp = error_response_for status message allow_methods (map_of (h_last_requests h) s);
          bytes = headers_to_string resp @ rsp_body resp;
          h1 = h\<lparr>h_keep_alive := put s False (h_keep_alive h),
                 h_send_queues := put s (at_default [] s (h_send_queues h) @ [bytes]) (h_send_queues h),
                 h_resp_status := put s status (h_resp_status h),
                 h_resp_size := put s (length bytes) (h_resp_size h)\<rparr>
      in arm (sock_fd h1 s) (EPOLLOUT OR EPOLLET OR EPOLLONESHOT) h1)"

subsection \<open>Connections\<close>

definition on_connect :: "nat \<Rightarrow> handler \<Rightarrow> handler" where
  "on_connect s h =
     h\<lparr>h_read_bufs := put s (at_default [] s (h_read_bufs h)) (h_read_bufs h),
       h_send_queues := put s (at_default [] s (h_send_queues h)) (h_send_queues h),
       h_request_ready := put s False (h_request_ready h),
       h_parsers := put s parser_init (h_parsers h),
       h_keep_alive := put s True (h_keep_alive h)\<rparr>"

definition rearm_reads :: "nat \<Rightarrow> handler \<Rightarrow> handler result" where
  "rearm_reads s h =
     (if has_key s (h_client_upstream h) then Ret h
      else
        (let queue = at_default [] s (h_send_queues h);
             h1 = h\<lparr>h_send_queues := put s queue (h_send_queues h)\<rparr>
         in if queue \<noteq> [] then arm (sock_fd h1 s) (EPOLLIN OR EPOLLOUT OR EPOLLET OR EPOLLONESHOT) h1
            else arm (sock_fd h1 s) (EPOLLIN OR EPOLLET OR EPOLLONESHOT) h1))"

text \<open>Removing the registration of the backend socket of one child.\<close>

definition unregister_fd :: "int \<Rightarrow> handler \<Rightarrow> handler" where
  "unregister_fd fd h =
     (if fd \<ge> 0
      then h\<lparr>h_epoll := epoll_del fd (h_epoll h), h_upstream_fd_owner := AList.delete fd (h_upstream_fd_owner h)\<rparr>
      else h)"

definition abort_upstream_for_client :: "nat \<Rightarrow> handler \<Rightarrow> handler" where
  "abort_upstream_for_client s h =
     (case map_of (h_client_upstream h) s of
        None \<Rightarrow> h
      | Some st \<Rightarrow>
          (let h1 = fold (\<lambda>ch. unregister_fd (ch_fd ch)) (es_children st) h
           in h1\<lparr>h_client_upstream := AList.delete s (h_client_upstream h1)\<rparr>))"

text \<open>Closing the socket leaves the object with descriptor \<^verbatim>\<open>-1\<close> and without TLS.\<close>

definition cleanup_conn :: "nat \<Rightarrow> handler \<Rightarrow> handler" where
  "cleanup_conn s h0 =
     (let h = h0\<lparr>h_epoll := epoll_del (sock_fd h0 s) (h_epoll h0),
                 h_sockets := put s \<lparr>so_fd = -1, so_is_ssl = False\<rparr> (h_sockets h0)\<rparr>
      in abort_upstream_for_client s
           (h\<lparr>h_read_bufs := AList.delete s (h_read_bufs h), h_send_queues := AList.delete s (h_send_queues h),
              h_request_ready := AList.delete s (h_request_ready h), h_parsers := AList.delete s (h_parsers h),
              h_requests := AList.delete s (h_requests h), h_keep_alive := AList.delete s (h_keep_alive h),
              h_resp_status := AList.delete s (h_resp_status h), h_resp_size := AList.delete s (h_resp_size h),
              h_file_fds := AList.delete s (h_file_fds h), h_file_offsets := AList.delete s (h_file_offsets h),
              h_file_sizes := AList.delete s (h_file_sizes h),
              h_ssl_file_buffers := AList.delete s (h_ssl_file_buffers h),
              h_pending_ssl_writes := AList.delete s (h_pending_ssl_writes h),
              h_client_ip_map := AList.delete s (h_client_ip_map h),
              h_request_start_time := AList.delete s (h_request_start_time h),
              h_last_requests := AList.delete s (h_last_requests h)\<rparr>))"

definition wait_for_ssl_write :: "nat \<Rightarrow> ssl_want \<Rightarrow> handler \<Rightarrow> handler result" where
  "wait_for_ssl_write s want h =
     arm (sock_fd h s) ((if want = SSL_READ then EPOLLIN else EPOLLOUT) OR EPOLLET OR EPOLLONESHOT)
       (h\<lparr>h_pending_ssl_writes := put s want (h_pending_ssl_writes h)\<rparr>)"

definition has_pending_ssl_write :: "nat \<Rightarrow> handler \<Rightarrow> bool" where
  "has_pending_ssl_write s h = has_key s (h_pending_ssl_writes h)"

definition has_inflight_work :: "nat \<Rightarrow> handler \<Rightarrow> bool" where
  "has_inflight_work s h \<longleftrightarrow>
     has_key s (h_client_upstream h) \<or> at_default [] s (h_read_bufs h) \<noteq> [] \<or>
     at_default False s (h_request_ready h) \<or> at_default [] s (h_send_queues h) \<noteq> [] \<or> has_key s (h_file_fds h)"

definition reload_config :: "config \<Rightarrow> handler \<Rightarrow> handler" where
  "reload_config config h =
     h\<lparr>h_config := config, h_www_root := cfg_www_root config,
       h_upstream_manager := manager_reload (cfg_upstream_config config) (h_upstream_manager h),
       h_api_keys := ApiKeyManager_reload (cfg_api_keys config),
       h_rate_limiter_manager := update_default_config (cfg_rate_limit config) (h_rate_limiter_manager h),
       h_routes := route_table config\<rparr>"

text \<open>The constructor, with the shared components it is given.\<close>

definition handler_create :: "config \<Rightarrow> upstream_manager \<Rightarrow> rate_limiter_manager \<Rightarrow> network \<Rightarrow> handler" where
  "handler_create config um rlm nw =
     \<lparr>h_sockets = [], h_epoll = [], h_read_bufs = [], h_send_queues = [], h_request_ready = [], h_parsers = [],
      h_requests = [], h_keep_alive = [], h_file_fds = [], h_file_offsets = [], h_file_sizes = [],
      h_ssl_file_buffers = [], h_pending_ssl_writes = [], h_resp_status = [], h_resp_size = [],
      h_client_ip_map = [], h_request_start_time = [], h_last_requests = [], h_client_upstream = [],
      h_upstream_fd_owner = [], h_www_root = cfg_www_root config,
      h_cache = file_cache_create (cfg_cache_max_entries config) (cfg_cache_max_file_size_mb config),
      h_fd_cache = fd_cache_create 256 10, h_fd_offsets = [], h_config = config, h_routes = route_table config,
      h_upstream_manager = um, h_rate_limiter_manager = rlm,
      h_api_keys = ApiKeyManager_reload (cfg_api_keys config), h_metrics = metrics_init, h_network = nw,
      h_answers = [], h_trace_counter = 0, h_reads = [], h_writes = [], h_sent = [], h_log = []\<rparr>"

subsection \<open>Length and chunk framing\<close>

definition length_framed :: "http_response \<Rightarrow> bool" where
  "length_framed resp \<longleftrightarrow> map_of (rsp_headers resp) ''Content-Length'' = Some (dec (length (rsp_body resp)))"

lemma set_header_simps [simp]:
  "rsp_headers (set_header k v r) = put k v (rsp_headers r)" "rsp_body (set_header k v r) = rsp_body r"
  "rsp_chunked (set_header k v r) = rsp_chunked r" "rsp_status_code (set_header k v r) = rsp_status_code r"
  "rsp_status_message (set_header k v r) = rsp_status_message r"
  by (simp_all add: set_header_def)

lemma response_bytes: "headers_to_string resp @ rsp_body resp = response_to_string resp"
  by (simp add: headers_to_string_def response_to_string_def)

lemma concat_response_chunks:
  "concat (response_chunks is_ssl is_head resp) =
     (if is_head then headers_to_string resp else response_to_string resp)"
  by (simp add: response_chunks_def Let_def response_bytes [symmetric])

lemma answer_framed: "length_framed (answer status message ct body resp)" "rsp_chunked (answer status message ct body resp) = rsp_chunked resp"
  by (simp_all add: length_framed_def answer_def)

lemma make_error_response_framed:
  "length_framed (make_error_response status message text)" "\<not> rsp_chunked (make_error_response status message text)"
  by (simp_all add: length_framed_def make_error_response_def http_response_default_def Let_def)

lemma run_local_framed:
  "\<lbrakk>run_local handler e um mt req ps resp0 = Some resp; \<not> rsp_chunked resp0\<rbrakk> \<Longrightarrow> rsp_chunked resp \<or> length_framed resp"
  by (cases handler) (auto simp: answer_framed split: option.splits prod.splits)

lemma dispatch_route_framed:
  assumes "dispatch_route e config um mt req matched resp0 = Some resp" "\<not> rsp_chunked resp0"
  shows "rsp_chunked resp \<or> length_framed resp"
  using assms run_local_framed [of _ e um mt req "rs_params matched" resp0 resp]
  by (auto simp: dispatch_route_def Let_def answer_framed make_error_response_framed split: option.splits if_splits)

lemma compress_framed: "length_framed resp \<Longrightarrow> length_framed (compress_response e req already resp)"
  by (simp add: compress_response_def length_framed_def split: option.split)

lemma compress_chunked [simp]: "rsp_chunked (compress_response e req already resp) = rsp_chunked resp"
  by (simp add: compress_response_def split: option.split)

definition common_headers :: "env \<Rightarrow> bool \<Rightarrow> http_response \<Rightarrow> http_response" where
  "common_headers e keep_alive resp =
     set_header ''Server'' (''EpollHTTP/'' @ env_version e)
       (set_header ''Connection'' (if keep_alive then ''keep-alive'' else ''close'') resp)"

lemma prepare_response_eq:
  "prepare_response e keep_alive req already resp =
     chunk_response (compress_response e req already (common_headers e keep_alive resp))"
  by (simp add: prepare_response_def common_headers_def)

lemma common_headers_framed:
  "length_framed (common_headers e keep_alive resp) = length_framed resp"
  "rsp_chunked (common_headers e keep_alive resp) = rsp_chunked resp"
  "rsp_body (common_headers e keep_alive resp) = rsp_body resp"
  by (simp_all add: length_framed_def common_headers_def)

lemma chunk_response_body:
  "rsp_chunked resp \<Longrightarrow>
     rsp_body (chunk_response resp) = wire_chunked (if rsp_body resp = [] then [] else [rsp_body resp])"
  by (simp add: chunk_response_def wire_chunked_def wire_chunk_def to_hex_def)

lemma scan_chunk_response:
  assumes "rsp_chunked resp" "length (pre @ rsp_body (chunk_response resp) @ rest) < 2 ^ 64"
  shows "scan_chunked_body (pre @ rsp_body (chunk_response resp) @ rest) (length pre) =
     Some (Scan CS_Complete (Some (length pre + length (rsp_body (chunk_response resp)))) (rsp_body resp))"
proof -
  let ?ds = "if rsp_body resp = [] then [] else [rsp_body resp]"
  have "list_all (\<lambda>d. d \<noteq> []) ?ds" "concat ?ds = rsp_body resp" by simp_all
  with assms(2) show ?thesis
    using scan_loop_chunks [OF refl, of ?ds pre rest "[]"]
    unfolding scan_chunked_body_def chunk_response_body [OF assms(1)] by simp
qed

lemma compress_body:
  "rsp_body (compress_response e req already resp) = rsp_body resp \<or>
   gzip_compress e (rsp_body resp) = Some (rsp_body (compress_response e req already resp)) \<and>
   map_of (rsp_headers (compress_response e req already resp)) ''Content-Encoding'' = Some ''gzip''"
  by (simp add: compress_response_def split: option.split)

lemma chunk_response_headers:
  "rsp_chunked resp \<Longrightarrow> map_of (rsp_headers (chunk_response resp)) k =
     (if k = ''Transfer-Encoding'' then Some ''chunked'' else if k = ''Content-Length'' then None else map_of (rsp_headers resp) k)"
  by (simp add: chunk_response_def)

text \<open>The payload of a response, and that of the response as it is sent.\<close>

definition payload_sent :: "env \<Rightarrow> http_response \<Rightarrow> http_response \<Rightarrow> string \<Rightarrow> bool" where
  "payload_sent e resp out payload \<longleftrightarrow> payload = rsp_body resp \<or>
     gzip_compress e (rsp_body resp) = Some payload \<and> map_of (rsp_headers out) ''Content-Encoding'' = Some ''gzip''"

subsection \<open>Properties\<close>


definition sample_chunked :: resolved_route where
  "sample_chunked = unresolved\<lparr>rs_route := Some (builtin ''GET'' ''/chunked'' LH_chunked)\<rparr>"


end
