(* ===== verification/Handler_Upstream.thy ===== *)
theory Handler_Upstream
  imports Handler_State
begin

text \<open>
  Upstream and composite routes of \<^verbatim>\<open>HttpHandler\<close> (\<^verbatim>\<open>http_handler.cpp\<close>): starting the exchanges of a
  request, driving them from events of the backend sockets and from deadlines, retrying, and framing
  the response or the aggregate. An exchange consumes the recorded answers of the network that the state
  carries; a call that is still waiting for answers when they end does not return.
\<close>

subsection \<open>Children\<close>

definition child_at :: "nat \<Rightarrow> nat \<Rightarrow> handler \<Rightarrow> child_exchange option" where
  "child_at s idx h =
     (case map_of (h_client_upstream h) s of
        None \<Rightarrow> None
      | Some st \<Rightarrow> if idx < length (es_children st) then Some (es_children st ! idx) else None)"

definition set_child :: "nat \<Rightarrow> nat \<Rightarrow> child_exchange \<Rightarrow> handler \<Rightarrow> handler" where
  "set_child s idx ch h =
     (case map_of (h_client_upstream h) s of
        None \<Rightarrow> h
      | Some st \<Rightarrow> h\<lparr>h_client_upstream := put s (st\<lparr>es_children := (es_children st)[idx := ch]\<rparr>) (h_client_upstream h)\<rparr>)"

definition exchange_fd :: "exchange \<Rightarrow> int" where
  "exchange_fd x = (case x_sock x of Some fd \<Rightarrow> int fd | None \<Rightarrow> -1)"

definition release_fd :: "nat \<Rightarrow> nat \<Rightarrow> child_exchange \<Rightarrow> handler \<Rightarrow> handler" where
  "release_fd s idx ch h =
     (if ch_fd ch \<ge> 0 then set_child s idx (ch\<lparr>ch_fd := -1\<rparr>) (unregister_fd (ch_fd ch) h) else h)"

definition elapsed_ms :: "env \<Rightarrow> int \<Rightarrow> int" where
  "elapsed_ms e started = (env_now e - started) div 1000000"

definition erase_upstream :: "nat \<Rightarrow> handler \<Rightarrow> handler" where
  "erase_upstream s h = h\<lparr>h_client_upstream := AList.delete s (h_client_upstream h)\<rparr>"

fun json_string :: "string \<Rightarrow> json \<Rightarrow> string" where
  "json_string k (J_obj m) = (case map_of m k of Some (J_str v) \<Rightarrow> v | _ \<Rightarrow> [])"
| "json_string k j = []"

subsection \<open>Composite results\<close>

definition child_failed :: "child_exchange \<Rightarrow> bool" where
  "child_failed ch \<longleftrightarrow> ch_required ch \<and> json_string ''status'' (ch_item ch) \<in> {''failed'', ''unavailable''}"

definition composite_payload :: "exchange_state \<Rightarrow> json" where
  "composite_payload st =
     (let required_failed = list_ex child_failed (es_children st);
          composite = fold (\<lambda>ch. json_set (ch_name ch) (ch_item ch)) (es_children st) (J_obj [])
      in json_set ''dependencies'' composite
           (json_set ''status'' (J_str (if required_failed then ''partial_failure'' else ''ok''))
             (json_set ''aggregate'' (J_str (es_composite_name st))
               (json_set ''route'' (J_str (es_route_name st)) (J_obj [])))))"

definition finalize_composite :: "env \<Rightarrow> nat \<Rightarrow> exchange_state \<Rightarrow> handler \<Rightarrow> handler result" where
  "finalize_composite e s st h =
     (let required_failed = list_ex child_failed (es_children st);
          resp = set_header ''Content-Type'' ''application/json''
            (http_response_default\<lparr>rsp_status_code := (if required_failed then 503 else 200),
               rsp_status_message := (if required_failed then ''Service Unavailable'' else ''OK'')\<rparr>)
      in case env_dump e (composite_payload st) of
           None \<Rightarrow> Raise h
         | Some body \<Rightarrow>
             and_then
               (finalize_response e s (es_req st)
                  (set_header ''Content-Length'' (dec (length body)) (resp\<lparr>rsp_body := body\<rparr>)) False h)
               (\<lambda>h'. Ret (erase_upstream s h')))"

definition is_timeout_error :: "backend_error \<Rightarrow> bool" where
  "is_timeout_error error \<longleftrightarrow> error = ConnectTimeout \<or> error = WriteTimeout \<or> error = ReadTimeout"

definition composite_item :: "env \<Rightarrow> exchange_state \<Rightarrow> child_exchange \<Rightarrow> bool \<Rightarrow> backend_response \<Rightarrow> json" where
  "composite_item e st ch succeeded be =
     (let item = json_set ''duration_ms'' (J_int (elapsed_ms e (es_started st))) (ch_item ch)
      in if succeeded then
           (let ok = (br_status_code be \<ge> 200 \<and> br_status_code be < 300);
                item1 = json_set ''timed_out'' (J_bool (br_status_code be = 504))
                  (json_set ''error'' (J_str (if ok then [] else br_body be))
                    (json_set ''backend'' (J_str (ch_upstream_key ch))
                      (json_set ''http_status'' (J_int (br_status_code be))
                        (json_set ''status'' (J_str (if ok then ''ok'' else ''failed'')) item))))
            in if ok then json_set ''body'' (J_str (br_body be)) item1 else item1)
         else
           (let timed_out = is_timeout_error (br_error be)
            in json_set ''timed_out'' (J_bool timed_out)
                 (json_set ''error'' (J_str (if timed_out then ''upstream_timeout'' else ''upstream_unavailable''))
                   (json_set ''http_status'' (J_int (if timed_out then 504 else 502))
                     (json_set ''status'' (J_str ''failed'') item)))))"

subsection \<open>Single responses\<close>

definition has_line_break :: "string \<Rightarrow> bool" where
  "has_line_break v \<longleftrightarrow> find_char CR v \<noteq> None \<or> find_char LF v \<noteq> None"

definition forwarded_response_headers :: "backend_response \<Rightarrow> headers" where
  "forwarded_response_headers be =
     fold (\<lambda>(k, v) hs.
             if has_line_break k \<or> has_line_break v then hs
             else
               (let lk = map ascii_to_lower k
                in if is_response_hop_by_hop lk \<or> lk \<in> set (response_connection_tokens (br_headers be)) then hs
                   else put k v hs))
       (in_key_order (br_headers be)) []"

definition upstream_response :: "backend_response \<Rightarrow> http_response" where
  "upstream_response be =
     set_header ''Content-Length'' (dec (length (br_body be)))
       (http_response_default\<lparr>rsp_status_code := br_status_code be,
          rsp_status_message := (if br_status_code be \<ge> 200 \<and> br_status_code be < 300 then ''OK'' else ''Upstream Response''),
          rsp_headers := forwarded_response_headers be, rsp_body := br_body be\<rparr>)"

definition upstream_failure :: "backend_error \<Rightarrow> http_response" where
  "upstream_failure error =
     (if is_timeout_error error
      then make_error_response 504 ''Gateway Timeout'' ''The upstream service timed out''
      else make_error_response 502 ''Bad Gateway''
        ''The upstream service returned an invalid response or could not be reached'')"

subsection \<open>Completion of a child\<close>

definition record_outcome :: "env \<Rightarrow> child_exchange \<Rightarrow> exchange \<Rightarrow> handler \<Rightarrow> handler" where
  "record_outcome e ch x h =
     (if x_succeeded x
      then h\<lparr>h_upstream_manager := record_success (ch_upstream_key ch) (ch_server ch) (h_upstream_manager h)\<rparr>
      else h\<lparr>h_upstream_manager := record_failure (ch_upstream_key ch) (ch_server ch)
               (ch_circuit_failure_threshold ch) (env_now e) (h_upstream_manager h),
             h_metrics := record_upstream_error (br_error (x_result x)) (h_metrics h)\<rparr>)"

definition finish_composite_child :: "env \<Rightarrow> nat \<Rightarrow> nat \<Rightarrow> exchange_state \<Rightarrow> child_exchange \<Rightarrow> exchange \<Rightarrow> handler \<Rightarrow> handler result" where
  "finish_composite_child e s idx st ch x h =
     (let ch1 = ch\<lparr>ch_item := composite_item e st ch (x_succeeded x) (x_result x), ch_finished := True\<rparr>;
          h1 = unregister_fd (ch_fd ch1) h;
          ch2 = ch1\<lparr>ch_fd := -1, ch_ex := None\<rparr>;
          st' = st\<lparr>es_children := (es_children st)[idx := ch2]\<rparr>;
          h2 = set_child s idx ch2 h1
      in if list_all ch_finished (es_children st') then finalize_composite e s st' h2 else Ret h2)"

definition may_retry :: "exchange_state \<Rightarrow> child_exchange \<Rightarrow> backend_error \<Rightarrow> bool" where
  "may_retry st ch error \<longleftrightarrow> ch_attempt_count ch < ch_max_retries ch \<and>
     should_retry_backend_request (req_method (es_req st)) error (ch_attempt_count ch)"

text \<open>The left result: the call is over. The right one: a fresh exchange replaces the failed one and
  is to be driven.\<close>

definition finish_child :: "env \<Rightarrow> nat \<Rightarrow> nat \<Rightarrow> handler \<Rightarrow> handler result + handler" where
  "finish_child e s idx h0 =
     (case map_of (h_client_upstream h0) s of
        None \<Rightarrow> Inl (Ret h0)
      | Some st \<Rightarrow>
          (let ch = es_children st ! idx
           in case ch_ex ch of
                None \<Rightarrow> Inl (Ret h0)
              | Some x \<Rightarrow>
                  (let be = x_result x;
                       h = record_outcome e ch x h0
                   in if es_composite st then Inl (finish_composite_child e s idx st ch x h)
                      else if x_succeeded x then
                        (let (x', nw) = reuse_to_pool (env_now e) (x, h_network h);
                             h1 = set_child s idx (ch\<lparr>ch_ex := Some x'\<rparr>) (h\<lparr>h_network := nw\<rparr>)
                         in Inl (and_then (finalize_response e s (es_req st) (upstream_response be) False h1)
                                   (\<lambda>h'. Ret (erase_upstream s h'))))
                      else if may_retry st ch (br_error be) then
                        Inr (set_child s idx
                          (ch\<lparr>ch_attempt_count := ch_attempt_count ch + 1,
                              ch_ex := Some (exchange_create (x_params x) (idempotent_method (xp_method (x_params x))) (env_now e))\<rparr>) h)
                      else
                        Inl (and_then (finalize_response e s (es_req st) (upstream_failure (br_error be)) False h)
                               (\<lambda>h'. Ret (erase_upstream s h'))))))"

text \<open>One step of a child: \<^verbatim>\<open>advance\<close>, then the registration of its socket for the direction it waits for.\<close>

definition advance_child :: "env \<Rightarrow> nat \<Rightarrow> nat \<Rightarrow> u32 \<Rightarrow> child_exchange \<Rightarrow> exchange \<Rightarrow> handler \<Rightarrow> iteration \<times> handler" where
  "advance_child e s idx events ch x h =
     (case exchange_advance (unat events) (h_answers h) (env_now e) (x, h_network h) of
        (r, as', x', nw) \<Rightarrow>
          (r, set_child s idx (ch\<lparr>ch_ex := Some x'\<rparr>) (h\<lparr>h_answers := as', h_network := nw\<rparr>)))"

definition register_child :: "nat \<Rightarrow> nat \<Rightarrow> want \<Rightarrow> handler \<Rightarrow> handler result" where
  "register_child s idx want h0 =
     (case child_at s idx h0 of
        None \<Rightarrow> Ret h0
      | Some ch0 \<Rightarrow>
          (let h = release_fd s idx ch0 h0;
               ch = ch0\<lparr>ch_fd := (if ch_fd ch0 \<ge> 0 then -1 else ch_fd ch0)\<rparr>;
               upstream_fd = (case ch_ex ch of Some x \<Rightarrow> exchange_fd x | None \<Rightarrow> -1)
           in if want \<noteq> Want_Done \<and> upstream_fd \<ge> 0 then
                (case epoll_add upstream_fd ((if want = Want_Read then EPOLLIN else EPOLLOUT) OR EPOLLONESHOT) (h_epoll h) of
                   None \<Rightarrow> Raise h
                 | Some ep \<Rightarrow>
                     Ret (set_child s idx (ch\<lparr>ch_fd := upstream_fd\<rparr>)
                       (h\<lparr>h_epoll := ep, h_upstream_fd_owner := put upstream_fd (s, idx) (h_upstream_fd_owner h)\<rparr>)))
              else Ret h))"

subsection \<open>Every completed step consumes an answer\<close>

lemma exchange_run_answers:
  "exchange_run ev as xn = (r, as', xn') \<Longrightarrow>
     length as' \<le> length as \<and> ((\<exists>w. r = Return_want w) \<or> r = Throws \<longrightarrow> length as' < length as)"
proof (induction as arbitrary: ev xn)
  case (Cons a as)
  obtain r1 xn1 where "run_iteration ev a xn = (r1, xn1)" by (metis surj_pair)
  with Cons show ?case by (cases r1) (fastforce dest: Cons.IH)+
qed auto

lemma exchange_advance_answers:
  assumes "exchange_advance ev as now xn = (Return_want w, as', xn')"
  shows "length as' < length as"
proof -
  obtain r as1 xn1 where run: "exchange_run ev as xn = (r, as1, xn1)" by (metis surj_pair)
  show ?thesis
  proof (cases "r = Throws")
    case False
    then show ?thesis
      using assms run exchange_run_answers [OF run] by (cases r) (auto simp: exchange_advance_def)
  next
    case True
    then have "length as1 < length as" using exchange_run_answers [OF run] by simp
    moreover define error where "error = (if x_phase (fst xn1) = Ph_Send then WriteFailed
        else if x_phase (fst xn1) = Ph_Read then ReadFailed else ConnectFailed)"
    moreover obtain b xn2 where f: "exchange_fail error 502 ''Bad Gateway'' now xn1 = (b, xn2)" by (metis surj_pair)
    moreover have "length as' \<le> length as1"
    proof (cases b)
      case True
      then have "exchange_run 0 as1 xn2 = (Return_want w, as', xn')"
        using assms run \<open>r = Throws\<close> f by (simp add: exchange_advance_def Let_def error_def)
      then show ?thesis using exchange_run_answers by blast
    next
      case False
      then show ?thesis using assms run \<open>r = Throws\<close> f by (simp add: exchange_advance_def Let_def error_def)
    qed
    ultimately show ?thesis by simp
  qed
qed

lemma set_child_fields [simp]:
  "h_answers (set_child s idx ch h) = h_answers h" "h_network (set_child s idx ch h) = h_network h"
  "h_epoll (set_child s idx ch h) = h_epoll h" "h_upstream_fd_owner (set_child s idx ch h) = h_upstream_fd_owner h"
  by (simp_all add: set_child_def split: option.split)

lemma unregister_fd_fields [simp]:
  "h_answers (unregister_fd fd h) = h_answers h" "h_network (unregister_fd fd h) = h_network h"
  "h_client_upstream (unregister_fd fd h) = h_client_upstream h"
  by (simp_all add: unregister_fd_def)

lemma register_child_answers:
  "register_child s idx want h = Ret h' \<Longrightarrow> h_answers h' = h_answers h"
  by (auto simp: register_child_def release_fd_def Let_def split: option.splits if_splits)

lemma finish_child_answers: "finish_child e s idx h = Inr h' \<Longrightarrow> h_answers h' = h_answers h"
  by (auto simp: finish_child_def record_outcome_def Let_def split: option.splits if_splits prod.splits)

subsection \<open>Driving\<close>

function drive_child :: "env \<Rightarrow> nat \<Rightarrow> nat \<Rightarrow> u32 \<Rightarrow> handler \<Rightarrow> handler result" where
  "drive_child e s idx events h =
     (case child_at s idx h of
        None \<Rightarrow> Ret h
      | Some ch \<Rightarrow>
          (case ch_ex ch of
             None \<Rightarrow> Ret h
           | Some x \<Rightarrow>
               (case advance_child e s idx events ch x h of
                  (Return_want want, h1) \<Rightarrow>
                    (case register_child s idx want h1 of
                       Ret h2 \<Rightarrow>
                         (if want = Want_Done
                          then (case finish_child e s idx h2 of
                                  Inl r \<Rightarrow> r
                                | Inr h3 \<Rightarrow> drive_child e s idx 0 h3)
                          else Ret h2)
                     | r \<Rightarrow> r)
                | (Throws, h1) \<Rightarrow> Raise h1
                | (_, h1) \<Rightarrow> Hang h1)))"
  by pat_completeness auto
termination
proof (relation "measure (\<lambda>(e, s, idx, events, h). length (h_answers h))", goal_cases)
  case (2 e s idx events h ch x r h1 want h2 h3)
  then have adv: "advance_child e s idx events ch x h = (Return_want want, h1)" by simp
  then have "length (h_answers h1) < length (h_answers h)"
    using exchange_advance_answers by (auto simp: advance_child_def split: prod.splits)
  with 2 show ?case by (simp add: register_child_answers finish_child_answers)
qed simp

declare drive_child.simps [simp del]

definition drive_exchange :: "env \<Rightarrow> nat \<Rightarrow> u32 \<Rightarrow> handler \<Rightarrow> handler result" where
  "drive_exchange e s events h =
     (if has_key s (h_client_upstream h) then drive_child e s 0 events h else Ret h)"

fun drive_all :: "env \<Rightarrow> nat \<Rightarrow> nat list \<Rightarrow> handler \<Rightarrow> handler result" where
  "drive_all e s [] h = Ret h"
| "drive_all e s (idx # live) h =
     (if has_key s (h_client_upstream h)
      then and_then (drive_child e s idx 0 h) (drive_all e s live)
      else Ret h)"

definition is_upstream_fd :: "int \<Rightarrow> handler \<Rightarrow> bool" where
  "is_upstream_fd fd h = has_key fd (h_upstream_fd_owner h)"

definition on_upstream_event :: "env \<Rightarrow> int \<Rightarrow> u32 \<Rightarrow> handler \<Rightarrow> handler result" where
  "on_upstream_event e fd events h =
     (case map_of (h_upstream_fd_owner h) fd of
        None \<Rightarrow> Ret h
      | Some (client, idx) \<Rightarrow>
          (if has_key client (h_client_upstream h) then drive_child e client idx events h else Ret h))"

subsection \<open>Starting an upstream exchange\<close>

definition server_tls :: "upstream_server \<Rightarrow> tls_options" where
  "server_tls server = \<lparr>uto_enable = us_tls server, uto_ca_file = us_tls_ca_file server,
     uto_server_name = us_tls_server_name server, uto_skip_verify = us_tls_skip_verify server\<rparr>"

definition upstream_available :: "config \<Rightarrow> string \<Rightarrow> bool" where
  "upstream_available config name =
     (case map_of (uc_upstreams (cfg_upstream_config config)) name of
        None \<Rightarrow> False
      | Some up \<Rightarrow> up_servers up \<noteq> [])"

definition upstream_params ::
  "upstream_server \<Rightarrow> string \<Rightarrow> string \<Rightarrow> http_request \<Rightarrow> headers \<Rightarrow> int \<Rightarrow> nat \<Rightarrow> string \<Rightarrow> exchange_params" where
  "upstream_params server meth path req hs timeout_ms max_response_bytes client_ip =
     \<lparr>xp_host = us_host server, xp_port = us_port server, xp_method = meth, xp_path = path,
      xp_headers = inject_forwarded_headers hs client_ip, xp_body = req_body req, xp_timeout_ms = timeout_ms,
      xp_max_response_bytes = max_response_bytes, xp_tls = server_tls server\<rparr>"

definition upstream_child :: "upstream_target \<Rightarrow> string \<Rightarrow> upstream_server \<Rightarrow> exchange_params \<Rightarrow> int \<Rightarrow> child_exchange" where
  "upstream_child target upstream_key server params now =
     child_default\<lparr>ch_server := server, ch_upstream_key := upstream_key, ch_max_retries := ut_max_retries target,
       ch_circuit_failure_threshold := ut_circuit_failure_threshold target,
       ch_circuit_recovery_timeout_ms := ut_circuit_recovery_timeout_ms target,
       ch_ex := Some (exchange_create params (idempotent_method (xp_method params)) now)\<rparr>"

definition upstream_state :: "http_request \<Rightarrow> child_exchange \<Rightarrow> exchange_state" where
  "upstream_state req child =
     \<lparr>es_req = req, es_children = [child], es_composite = False, es_route_name = [],
      es_composite_name = [], es_total_timeout_ms = 0, es_has_total_deadline = False,
      es_total_deadline = 0, es_started = 0, es_client_ip = []\<rparr>"

definition start_upstream_exchange :: "env \<Rightarrow> nat \<Rightarrow> http_request \<Rightarrow> gateway_route \<Rightarrow> handler \<Rightarrow> handler result" where
  "start_upstream_exchange e s req route h =
     (let upstream_key = resolve_upstream_group_id route;
          target = rt_upstream_target route
      in if \<not> upstream_available (h_config h) upstream_key
         then finalize_response e s req (make_error_response 502 ''Bad Gateway'' ''Bad Gateway: no upstream server'') False h
         else
           (let client_ip = at_default [] s (h_client_ip_map h)
            in case pick_server upstream_key (h_upstream_manager h) of
                 (None, um) \<Rightarrow> Raise (h\<lparr>h_upstream_manager := um\<rparr>)
               | (Some server, um) \<Rightarrow>
                   (case allow_request upstream_key server (ut_circuit_recovery_timeout_ms target) (env_now e) um of
                      (False, um') \<Rightarrow>
                        finalize_response e s req
                          (make_error_response 503 ''Service Unavailable'' ''Upstream circuit is open'') False
                          (h\<lparr>h_upstream_manager := um'\<rparr>)
                    | (True, um') \<Rightarrow>
                        (let (hs, counter) =
                               (if has_key ''traceparent'' (req_headers req) then (req_headers req, h_trace_counter h)
                                else case generate_traceparent (env_hash e) (env_now e) [] [] (h_trace_counter h) of
                                       (tp, c) \<Rightarrow> (put ''traceparent'' tp (req_headers req), c));
                             params = upstream_params server (req_method req) (req_path req) req hs
                               (ut_timeout_ms target) (cfg_max_response_bytes (h_config h)) client_ip;
                             child = upstream_child target upstream_key server params (env_now e);
                             st = upstream_state req child
                         in drive_exchange e s 0
                              (h\<lparr>h_upstream_manager := um', h_trace_counter := counter,
                                 h_client_upstream := put s st (h_client_upstream h)\<rparr>)))))"

subsection \<open>Starting a composite exchange\<close>

definition dependency_item :: "composite_dependency \<Rightarrow> string \<Rightarrow> string \<Rightarrow> json" where
  "dependency_item dep trace_id traceparent =
     J_obj [(''required'', J_bool (cd_required dep)), (''upstream'', J_str (cd_upstream_name dep)),
       (''method'', J_str (cd_method dep)), (''path'', J_str (cd_path dep)), (''trace_id'', J_str trace_id),
       (''traceparent'', J_str traceparent), (''attempts'', J_int 1), (''timed_out'', J_bool False)]"

text \<open>One dependency: its child, and whether it is to be driven; \<^term>\<open>None\<close> when \<^verbatim>\<open>pick_server\<close> throws.\<close>

definition unavailable_item :: "bool \<Rightarrow> json \<Rightarrow> json \<Rightarrow> json" where
  "unavailable_item required elapsed item =
     json_set ''duration_ms'' elapsed
       (json_set ''error'' (J_str (if required then ''missing_upstream'' else ''optional_dependency_missing''))
         (json_set ''status'' (J_str ''unavailable'') item))"

definition circuit_open_item :: "json \<Rightarrow> json \<Rightarrow> json" where
  "circuit_open_item elapsed item =
     json_set ''duration_ms'' elapsed
       (json_set ''error'' (J_str ''circuit_open'')
         (json_set ''http_status'' (J_int 503)
           (json_set ''status'' (J_str ''failed'') item)))"

definition start_dependency ::
  "env \<Rightarrow> http_request \<Rightarrow> string \<Rightarrow> int \<Rightarrow> exchange_state \<Rightarrow> composite_dependency \<Rightarrow> handler \<Rightarrow>
   (child_exchange \<times> bool) option \<times> handler" where
  "start_dependency e req client_ip failure_threshold st dep h0 =
     (let (trace_id, counter1) = trace_id_header e req (h_trace_counter h0);
          (traceparent, counter2) = generate_traceparent (env_hash e) (env_now e) trace_id
            (if cd_name dep = [] then cd_upstream_name dep else cd_name dep) counter1;
          h = h0\<lparr>h_trace_counter := counter2\<rparr>;
          item = dependency_item dep trace_id traceparent;
          child = child_default\<lparr>ch_name := cd_name dep, ch_required := cd_required dep,
            ch_upstream_key := cd_upstream_name dep, ch_item := item\<rparr>;
          elapsed = J_int (elapsed_ms e (es_started st))
      in if cd_upstream_name dep = [] \<or> \<not> upstream_available (h_config h) (cd_upstream_name dep) then
           (Some (child\<lparr>ch_item := unavailable_item (cd_required dep) elapsed item, ch_finished := True\<rparr>, False), h)
         else
           (case pick_server (cd_upstream_name dep) (h_upstream_manager h) of
              (None, um) \<Rightarrow> (None, h\<lparr>h_upstream_manager := um\<rparr>)
            | (Some server, um) \<Rightarrow>
                (let child1 = child\<lparr>ch_server := server, ch_circuit_failure_threshold := failure_threshold,
                       ch_circuit_recovery_timeout_ms := cd_timeout_ms dep\<rparr>
                 in case allow_request (cd_upstream_name dep) server (cd_timeout_ms dep) (env_now e) um of
                      (False, um') \<Rightarrow>
                        (Some (child1\<lparr>ch_item := circuit_open_item elapsed item, ch_finished := True\<rparr>, False),
                         h\<lparr>h_upstream_manager := um'\<rparr>)
                    | (True, um') \<Rightarrow>
                        (let effective_timeout_ms = (if es_has_total_deadline st
                               then min (cd_timeout_ms dep) (es_total_timeout_ms st) else cd_timeout_ms dep);
                             hs = (if has_key ''traceparent'' (req_headers req) then req_headers req
                                   else put ''traceparent'' traceparent (req_headers req));
                             params = upstream_params server (cd_method dep) (cd_path dep) req hs
                               effective_timeout_ms (cfg_max_response_bytes (h_config h)) client_ip
                         in (Some (child1\<lparr>ch_ex := Some (exchange_create params (idempotent_method (cd_method dep)) (env_now e))\<rparr>, True),
                             h\<lparr>h_upstream_manager := um'\<rparr>)))))"

fun start_dependencies ::
  "env \<Rightarrow> http_request \<Rightarrow> string \<Rightarrow> int \<Rightarrow> composite_dependency list \<Rightarrow> exchange_state \<Rightarrow> nat list \<Rightarrow> handler \<Rightarrow>
   (exchange_state \<times> nat list) option \<times> handler" where
  "start_dependencies e req client_ip threshold [] st live h = (Some (st, live), h)"
| "start_dependencies e req client_ip threshold (dep # deps) st live h =
     (case start_dependency e req client_ip threshold st dep h of
        (None, h') \<Rightarrow> (None, h')
      | (Some (child, is_live), h') \<Rightarrow>
          start_dependencies e req client_ip threshold deps
            (st\<lparr>es_children := es_children st @ [child]\<rparr>)
            (if is_live then live @ [length (es_children st)] else live) h')"

definition composite_state :: "env \<Rightarrow> http_request \<Rightarrow> gateway_route \<Rightarrow> string \<Rightarrow> exchange_state" where
  "composite_state e req route client_ip =
     (let total = ct_total_timeout_ms (rt_composite_target route)
      in \<lparr>es_req = req, es_children = [], es_composite = True, es_route_name = rt_name route,
          es_composite_name = ct_name (rt_composite_target route), es_total_timeout_ms = total,
          es_has_total_deadline = total > 0, es_total_deadline = env_now e + total * 1000000,
          es_started = env_now e, es_client_ip = client_ip\<rparr>)"

definition start_composite_exchange ::
  "env \<Rightarrow> nat \<Rightarrow> http_request \<Rightarrow> gateway_route \<Rightarrow> string \<Rightarrow> handler \<Rightarrow> handler result" where
  "start_composite_exchange e s req route client_ip h =
     (case start_dependencies e req client_ip (ut_circuit_failure_threshold (rt_upstream_target route))
             (ct_dependencies (rt_composite_target route)) (composite_state e req route client_ip) [] h of
        (None, h') \<Rightarrow> Raise h'
      | (Some (st, live), h') \<Rightarrow>
          (let h1 = h'\<lparr>h_client_upstream := put s st (h_client_upstream h')\<rparr>
           in if live = [] then finalize_composite e s st h1 else drive_all e s live h1))"

subsection \<open>Deadlines\<close>

definition force_finish_child :: "env \<Rightarrow> nat \<Rightarrow> nat \<Rightarrow> handler \<Rightarrow> handler" where
  "force_finish_child e s idx h =
     (case map_of (h_client_upstream h) s of
        None \<Rightarrow> h
      | Some st \<Rightarrow>
          (let ch = es_children st ! idx
           in if ch_finished ch then h
              else
                (let item = json_set ''duration_ms'' (J_int (elapsed_ms e (es_started st)))
                       (json_set ''timed_out'' (J_bool True)
                         (json_set ''error'' (J_str ''upstream_timeout'')
                           (json_set ''http_status'' (J_int 504)
                             (json_set ''status'' (J_str ''failed'') (ch_item ch)))))
                 in set_child s idx
                      (ch\<lparr>ch_fd := (if ch_fd ch \<ge> 0 then -1 else ch_fd ch), ch_ex := None, ch_item := item, ch_finished := True\<rparr>)
                      (unregister_fd (ch_fd ch) h))))"

definition child_deadline :: "child_exchange \<Rightarrow> int option" where
  "child_deadline ch = (if ch_finished ch then None else map_option x_deadline (ch_ex ch))"

definition total_expired :: "env \<Rightarrow> exchange_state \<Rightarrow> bool" where
  "total_expired e st \<longleftrightarrow> es_composite st \<and> es_has_total_deadline st \<and> es_total_deadline st \<le> env_now e"

definition child_expired :: "env \<Rightarrow> child_exchange \<Rightarrow> bool" where
  "child_expired e ch = (case child_deadline ch of None \<Rightarrow> False | Some d \<Rightarrow> d \<le> env_now e)"

definition state_deadlines :: "exchange_state \<Rightarrow> int list" where
  "state_deadlines st =
     (if es_composite st \<and> es_has_total_deadline st then [es_total_deadline st] else []) @
     List.map_filter child_deadline (es_children st)"

definition consider_deadline :: "int \<Rightarrow> int \<Rightarrow> int \<Rightarrow> int" where
  "consider_deadline now deadline best =
     (let remaining = (deadline - now) div 1000000;
          ms = (if remaining < 0 then 0 else remaining)
      in if ms < best then ms else best)"

definition poll_timeout_ms :: "env \<Rightarrow> handler \<Rightarrow> int" where
  "poll_timeout_ms e h =
     (if h_client_upstream h = [] then 1000
      else fold (\<lambda>(client, st) best. fold (consider_deadline (env_now e)) (state_deadlines st) best)
             (h_client_upstream h) 1000)"

fun expire_children :: "env \<Rightarrow> nat \<Rightarrow> nat list \<Rightarrow> handler \<Rightarrow> handler result" where
  "expire_children e s [] h = Ret h"
| "expire_children e s (i # idxs) h =
     (if \<not> has_key s (h_client_upstream h) then Ret h
      else case child_at s i h of
             None \<Rightarrow> Ret h
           | Some ch \<Rightarrow>
               and_then (if child_expired e ch then drive_child e s i 0 h else Ret h) (expire_children e s idxs))"

definition expire_client :: "env \<Rightarrow> nat \<Rightarrow> handler \<Rightarrow> handler result" where
  "expire_client e s h =
     (case map_of (h_client_upstream h) s of
        None \<Rightarrow> Ret h
      | Some st \<Rightarrow>
          (if total_expired e st then
             (let h1 = fold (force_finish_child e s) [0..<length (es_children st)] h
              in case map_of (h_client_upstream h1) s of
                   None \<Rightarrow> Ret h1
                 | Some st1 \<Rightarrow> finalize_composite e s st1 h1)
           else expire_children e s [0..<length (es_children st)] h))"

fun expire_all :: "env \<Rightarrow> nat list \<Rightarrow> handler \<Rightarrow> handler result" where
  "expire_all e [] h = Ret h"
| "expire_all e (client # due) h = and_then (expire_client e client h) (expire_all e due)"

definition check_upstream_timeouts :: "env \<Rightarrow> handler \<Rightarrow> handler result" where
  "check_upstream_timeouts e h =
     expire_all e (map fst (filter (\<lambda>(client, st). total_expired e st \<or> list_ex (child_expired e) (es_children st))
       (h_client_upstream h))) h"

subsection \<open>What the operations leave alone\<close>

lemma arm_frame [simp]:
  "h_client_upstream (state_of (arm fd ev h)) = h_client_upstream h"
  "h_upstream_fd_owner (state_of (arm fd ev h)) = h_upstream_fd_owner h"
  "h_sockets (state_of (arm fd ev h)) = h_sockets h"
  "h_answers (state_of (arm fd ev h)) = h_answers h"
  "has_key j (h_epoll (state_of (arm fd ev h))) = has_key j (h_epoll h)"
  by (auto simp: arm_def epoll_mod_def)

lemma count_response_frame [simp]:
  "h_client_upstream (fst (count_response s is_head resp h)) = h_client_upstream h"
  "h_upstream_fd_owner (fst (count_response s is_head resp h)) = h_upstream_fd_owner h"
  "h_sockets (fst (count_response s is_head resp h)) = h_sockets h"
  "h_epoll (fst (count_response s is_head resp h)) = h_epoll h"
  by (simp_all add: count_response_def Let_def)

lemma finalize_response_frame [simp]:
  "h_client_upstream (state_of (finalize_response e s req resp ac h)) = h_client_upstream h"
  "h_upstream_fd_owner (state_of (finalize_response e s req resp ac h)) = h_upstream_fd_owner h"
  "h_sockets (state_of (finalize_response e s req resp ac h)) = h_sockets h"
  "has_key j (h_epoll (state_of (finalize_response e s req resp ac h))) = has_key j (h_epoll h)"
  by (simp_all add: finalize_response_def Let_def split_beta)

lemma send_error_response_frame [simp]:
  "h_client_upstream (state_of (send_error_response s status message allow h)) = h_client_upstream h"
  "h_upstream_fd_owner (state_of (send_error_response s status message allow h)) = h_upstream_fd_owner h"
  "h_sockets (state_of (send_error_response s status message allow h)) = h_sockets h"
  "has_key j (h_epoll (state_of (send_error_response s status message allow h))) = has_key j (h_epoll h)"
  by (simp_all add: send_error_response_def Let_def)

lemma record_outcome_frame [simp]:
  "h_client_upstream (record_outcome e ch x h) = h_client_upstream h"
  "h_upstream_fd_owner (record_outcome e ch x h) = h_upstream_fd_owner h"
  "h_sockets (record_outcome e ch x h) = h_sockets h"
  "h_epoll (record_outcome e ch x h) = h_epoll h"
  by (simp_all add: record_outcome_def)

lemma state_of_and_then:
  "state_of (and_then r f) = (case r of Ret h \<Rightarrow> state_of (f h) | _ \<Rightarrow> state_of r)"
  by (cases r) simp_all

lemma map_of_set_child:
  "map_of (h_client_upstream (set_child s idx ch h)) s' =
     (if s' = s then map_option (\<lambda>st. st\<lparr>es_children := (es_children st)[idx := ch]\<rparr>) (map_of (h_client_upstream h) s)
      else map_of (h_client_upstream h) s')"
  by (simp add: set_child_def split: option.split)

lemma child_at_set_child:
  "child_at s' i (set_child s idx ch h) =
     (if s' = s \<and> i = idx \<and> child_at s idx h \<noteq> None then Some ch else child_at s' i h)"
  by (auto simp: child_at_def map_of_set_child nth_list_update split: option.splits)

lemma set_child_sockets [simp]: "h_sockets (set_child s idx ch h) = h_sockets h"
  by (simp add: set_child_def split: option.split)

lemma unregister_fd_sockets [simp]: "h_sockets (unregister_fd fd h) = h_sockets h"
  by (simp add: unregister_fd_def)

lemma has_key_delete [simp]: "has_key k (AList.delete k' m) \<longleftrightarrow> k \<noteq> k' \<and> has_key k m"
  by (simp add: has_key_def)

lemma advance_child_at:
  assumes "advance_child e s idx ev ch x h = (r, h1)" "child_at s idx h = Some ch"
  shows "\<exists>x'. child_at s idx h1 = Some (ch\<lparr>ch_ex := Some x'\<rparr>)"
proof -
  have "child_at s idx (h\<lparr>h_answers := as', h_network := nw\<rparr>) = Some ch" for as' nw
    using assms(2) by (simp add: child_at_def)
  then show ?thesis using assms(1)
    by (auto simp: advance_child_def child_at_set_child split: prod.splits)
qed

lemma child_at_unregister [simp]: "child_at s idx (unregister_fd fd h) = child_at s idx h"
  by (simp add: child_at_def)

lemma register_done:
  assumes "register_child s idx Want_Done h = Ret h'" "child_at s idx h = Some ch"
  shows "\<exists>ch'. child_at s idx h' = Some ch' \<and> ch_fd ch' < 0"
  using assms by (auto simp: register_child_def release_fd_def Let_def child_at_set_child split: if_splits)

lemma exchange_create_frame [simp]:
  "x_params (exchange_create p idem now) = p" "x_idempotent (exchange_create p idem now) = idem"
  by (simp_all add: exchange_create_def Let_def)

text \<open>The outcomes of starting one dependency: a child that is already finished, a live one, or an
  exception because the group has no server.\<close>

lemma start_dependency_cases:
  assumes "start_dependency e req ip th st dep h = (r, h')"
  obtains (none) um c where "r = None" "h' = h\<lparr>h_trace_counter := c, h_upstream_manager := um\<rparr>"
  | (finished) um c child item where "h' = h\<lparr>h_trace_counter := c, h_upstream_manager := um\<rparr>"
      "r = Some (child\<lparr>ch_item := item, ch_finished := True\<rparr>, False)"
      "ch_ex child = None" "ch_fd child = -1" "ch_attempt_count child = 0" "ch_name child = cd_name dep"
  | (live) um c child x where "h' = h\<lparr>h_trace_counter := c, h_upstream_manager := um\<rparr>"
      "r = Some (child\<lparr>ch_ex := Some x\<rparr>, True)" "x_idempotent x = idempotent_method (xp_method (x_params x))"
      "\<not> ch_finished child" "ch_fd child = -1" "ch_attempt_count child = 0" "ch_name child = cd_name dep"
proof -
  obtain tid c1 where t1: "trace_id_header e req (h_trace_counter h) = (tid, c1)" by fastforce
  obtain tp c2 where t2: "generate_traceparent (env_hash e) (env_now e) tid
      (if cd_name dep = [] then cd_upstream_name dep else cd_name dep) c1 = (tp, c2)" by fastforce
  obtain srv um where pick: "pick_server (cd_upstream_name dep) (h_upstream_manager h) = (srv, um)" by fastforce
  define item where "item = dependency_item dep tid tp"
  define child where "child = child_default\<lparr>ch_name := cd_name dep, ch_required := cd_required dep,
      ch_upstream_key := cd_upstream_name dep, ch_item := item\<rparr>"
  have ch: "ch_ex child = None" "ch_fd child = -1" "ch_attempt_count child = 0" "ch_name child = cd_name dep" "\<not> ch_finished child"
    by (simp_all add: child_def child_default_def)
  show ?thesis
  proof (cases "cd_upstream_name dep = [] \<or> \<not> upstream_available (h_config h) (cd_upstream_name dep)")
    case True
    then have "r = Some (child\<lparr>ch_item := unavailable_item (cd_required dep) (J_int (elapsed_ms e (es_started st))) item, ch_finished := True\<rparr>, False)"
        "h' = h\<lparr>h_trace_counter := c2\<rparr>"
      using assms t1 t2 by (simp_all add: start_dependency_def Let_def child_def item_def)
    then show ?thesis using ch by (intro finished [where c = c2 and um = "h_upstream_manager h"]) simp_all
  next
    case avail: False
    show ?thesis
    proof (cases srv)
      case None
      then show ?thesis using assms t1 t2 avail pick by (intro none [where c = c2 and um = um]) (auto simp: start_dependency_def Let_def)
    next
      case (Some server)
      obtain ok um' where allow: "allow_request (cd_upstream_name dep) server (cd_timeout_ms dep) (env_now e) um = (ok, um')"
        by fastforce
      define child1 where "child1 = child\<lparr>ch_server := server, ch_circuit_failure_threshold := th,
          ch_circuit_recovery_timeout_ms := cd_timeout_ms dep\<rparr>"
      have ch1: "ch_ex child1 = None" "ch_fd child1 = -1" "ch_attempt_count child1 = 0" "ch_name child1 = cd_name dep"
          "\<not> ch_finished child1"
        using ch by (simp_all add: child1_def)
      have h': "h' = h\<lparr>h_trace_counter := c2, h_upstream_manager := um'\<rparr>"
        using assms t1 t2 avail pick Some allow by (cases ok) (auto simp: start_dependency_def Let_def)
      show ?thesis
      proof (cases ok)
        case True
        then obtain x where "r = Some (child1\<lparr>ch_ex := Some x\<rparr>, True)" "x_idempotent x = idempotent_method (xp_method (x_params x))"
          using assms t1 t2 avail pick Some allow
          by (simp add: start_dependency_def Let_def child1_def child_def item_def upstream_params_def)
             (metis (no_types) exchange_create_frame exchange_params.select_convs(3))
        then show ?thesis using h' ch1 by (intro live)
      next
        case False
        then have "r = Some (child1\<lparr>ch_item := circuit_open_item (J_int (elapsed_ms e (es_started st))) item, ch_finished := True\<rparr>, False)"
          using assms t1 t2 avail pick Some allow
          by (simp add: start_dependency_def Let_def child1_def child_def item_def)
        then show ?thesis using h' ch1 by (intro finished)
      qed
    qed
  qed
qed

lemma start_dependency_frame:
  assumes "start_dependency e req ip th st dep h = (r, h')"
  shows "h_client_upstream h' = h_client_upstream h \<and> h_upstream_fd_owner h' = h_upstream_fd_owner h \<and>
    h_sockets h' = h_sockets h \<and> h_epoll h' = h_epoll h \<and> h_answers h' = h_answers h"
  using assms by (cases rule: start_dependency_cases) simp_all

lemma start_dependencies_frame:
  "start_dependencies e req ip th deps st live h = (r, h') \<Longrightarrow>
    h_client_upstream h' = h_client_upstream h \<and> h_upstream_fd_owner h' = h_upstream_fd_owner h \<and>
    h_sockets h' = h_sockets h \<and> h_epoll h' = h_epoll h \<and> h_answers h' = h_answers h"
proof (induction deps arbitrary: st live h)
  case (Cons dep deps)
  obtain r1 h1 where d: "start_dependency e req ip th st dep h = (r1, h1)" by fastforce
  show ?case
  proof (cases r1)
    case (Some ci)
    then show ?thesis
      using Cons.prems Cons.IH [of _ _ h1] start_dependency_frame [OF d] d by (cases ci) fastforce
  qed (use Cons.prems start_dependency_frame [OF d] d in simp)
qed simp

lemma force_finish_child_at:
  assumes "map_of (h_client_upstream h) s = Some st" "i < length (es_children st)"
  shows "\<exists>ch. ch_finished ch \<and>
    map_of (h_client_upstream (force_finish_child e s i h)) s = Some (st\<lparr>es_children := (es_children st)[i := ch]\<rparr>)"
proof (cases "ch_finished (es_children st ! i)")
  case True
  then show ?thesis using assms by (intro exI [of _ "es_children st ! i"]) (simp add: force_finish_child_def Let_def)
next
  case False
  then show ?thesis using assms by (simp add: force_finish_child_def Let_def map_of_set_child) force
qed

lemma force_all_finished:
  assumes "map_of (h_client_upstream h) s = Some st"
  shows "\<exists>st'. map_of (h_client_upstream (fold (force_finish_child e s) [0..<length (es_children st)] h)) s = Some st' \<and>
    list_all ch_finished (es_children st') \<and> length (es_children st') = length (es_children st)"
proof -
  have "n \<le> length (es_children st) \<Longrightarrow>
    \<exists>st'. map_of (h_client_upstream (fold (force_finish_child e s) [0..<n] h)) s = Some st' \<and>
      (\<forall>i<n. ch_finished (es_children st' ! i)) \<and> length (es_children st') = length (es_children st)" for n
  proof (induction n)
    case (Suc n)
    then obtain st' where st': "map_of (h_client_upstream (fold (force_finish_child e s) [0..<n] h)) s = Some st'"
      "\<forall>i<n. ch_finished (es_children st' ! i)" "length (es_children st') = length (es_children st)" by auto
    from force_finish_child_at [OF st'(1), of n e] st'(2,3) Suc.prems
    show ?case by (auto simp: nth_list_update less_Suc_eq)
  qed (use assms in simp)
  from this [of "length (es_children st)"] show ?thesis by (auto simp: list_all_length)
qed

text \<open>An exchange keeps its parameters.\<close>

interpretation xparams: exchange_invariant "\<lambda>xn. x_params (fst xn) = p \<and> x_idempotent (fst xn) = idem" for p idem
proof unfold_locales
  fix xn :: "exchange \<times> network" and error status body now
  assume "x_params (fst xn) = p \<and> x_idempotent (fst xn) = idem"
  then show "x_params (fst (snd (exchange_fail error status body now xn))) = p \<and>
      x_idempotent (fst (snd (exchange_fail error status body now xn))) = idem"
    by (cases xn) (simp add: exchange_fail_def Let_def refresh_deadline_def)
next
  fix xn :: "exchange \<times> network" and a
  assume "x_params (fst xn) = p \<and> x_idempotent (fst xn) = idem"
  then show "x_params (fst (snd (open_connection a xn))) = p \<and> x_idempotent (fst (snd (open_connection a xn))) = idem"
    by (cases xn) simp
qed (simp_all add: refresh_deadline_def)

subsection \<open>Invariants of the upstream state\<close>

text \<open>How one child changes while it is driven: its exchange advances, or a failed attempt is
  replaced by a new one.\<close>

definition child_advances :: "child_exchange \<Rightarrow> child_exchange \<Rightarrow> bool" where
  "child_advances ch ch' \<longleftrightarrow> (\<exists>x x'. ch_ex ch = Some x \<and> ch' = ch\<lparr>ch_ex := Some x'\<rparr> \<and>
     x_params x' = x_params x \<and> x_idempotent x' = x_idempotent x)"

definition child_retries :: "exchange_state \<Rightarrow> child_exchange \<Rightarrow> child_exchange \<Rightarrow> bool" where
  "child_retries st ch ch' \<longleftrightarrow> \<not> es_composite st \<and>
     (\<exists>x now. ch_ex ch = Some x \<and> may_retry st ch (br_error (x_result x)) \<and>
        ch' = ch\<lparr>ch_attempt_count := ch_attempt_count ch + 1,
                 ch_ex := Some (exchange_create (x_params x) (idempotent_method (xp_method (x_params x))) now)\<rparr>)"

definition child_finishes :: "child_exchange \<Rightarrow> child_exchange \<Rightarrow> bool" where
  "child_finishes ch ch' \<longleftrightarrow> ch_fd ch' < 0 \<and> ch_finished ch' \<and> ch_ex ch' = None \<and>
     ch_attempt_count ch' = ch_attempt_count ch \<and> ch_max_retries ch' = ch_max_retries ch"

text \<open>A state as a request starts it.\<close>

definition fresh_child :: "exchange_state \<Rightarrow> child_exchange \<Rightarrow> bool" where
  "fresh_child st ch \<longleftrightarrow> ch_fd ch < 0 \<and> ch_attempt_count ch = 0 \<and> (ch_finished ch \<longrightarrow> ch_ex ch = None) \<and>
     (case ch_ex ch of None \<Rightarrow> ch_finished ch | Some x \<Rightarrow> x_idempotent x = idempotent_method (xp_method (x_params x)) \<and>
        (\<not> es_composite st \<longrightarrow> xp_method (x_params x) = req_method (es_req st)))"

definition fresh_state :: "exchange_state \<Rightarrow> bool" where
  "fresh_state st \<longleftrightarrow> list_all (fresh_child st) (es_children st) \<and>
     (\<not> es_composite st \<longrightarrow> length (es_children st) = 1)"

lemma start_dependency_fresh:
  assumes "start_dependency e req ip th st dep h = (Some (ch, live), h')" "es_composite st'"
  shows "fresh_child st' ch \<and> (live \<longleftrightarrow> \<not> ch_finished ch) \<and> ch_name ch = cd_name dep"
  using assms(1) by (cases rule: start_dependency_cases) (use assms(2) in \<open>auto simp: fresh_child_def\<close>)

lemma start_dependencies_fresh:
  "\<lbrakk>start_dependencies e req ip th deps st live h = (Some (st', live'), h'); es_composite st; fresh_state st;
    live = filter (\<lambda>i. \<not> ch_finished (es_children st ! i)) [0..<length (es_children st)]\<rbrakk> \<Longrightarrow>
     es_composite st' \<and> fresh_state st' \<and>
     live' = filter (\<lambda>i. \<not> ch_finished (es_children st' ! i)) [0..<length (es_children st')]"
proof (induction deps arbitrary: st live h)
  case (Cons dep deps)
  obtain r1 h1 where d: "start_dependency e req ip th st dep h = (r1, h1)" by fastforce
  then obtain ch l where r1: "r1 = Some (ch, l)" using Cons.prems(1) by (cases r1) auto
  let ?st = "st\<lparr>es_children := es_children st @ [ch]\<rparr>"
  have fr: "fresh_child st' ch" if "es_composite st'" for st' using start_dependency_fresh [of e req ip th st dep h] d r1 that by simp
  have l: "l \<longleftrightarrow> \<not> ch_finished ch" using start_dependency_fresh [of e req ip th st dep h] d r1 Cons.prems(2) by simp
  have "fresh_child ?st c" if "fresh_child st c" for c using that Cons.prems(2) by (simp add: fresh_child_def split: option.splits)
  then have "fresh_state ?st"
    using Cons.prems(2,3) fr [of ?st] by (auto simp: fresh_state_def list_all_iff)
  moreover have "start_dependencies e req ip th deps ?st (if l then live @ [length (es_children st)] else live) h1 = (Some (st', live'), h')"
    using Cons.prems(1) d r1 by simp
  moreover have "(if l then live @ [length (es_children st)] else live) =
      filter (\<lambda>i. \<not> ch_finished (es_children ?st ! i)) [0..<length (es_children ?st)]"
    using Cons.prems(4) l by (auto simp: nth_append intro: filter_cong)
  ultimately show ?case using Cons.IH [of ?st _ h1] Cons.prems(2) by simp
qed simp

locale upstream_invariant =
  fixes I :: "handler \<Rightarrow> bool"
  assumes I_cong: "\<lbrakk>I h; h_client_upstream h' = h_client_upstream h; h_upstream_fd_owner h' = h_upstream_fd_owner h;
        h_sockets h' = h_sockets h; \<forall>fd. has_key fd (h_epoll h') = has_key fd (h_epoll h)\<rbrakk> \<Longrightarrow> I h'"
    and I_single: "\<lbrakk>I h; map_of (h_client_upstream h) s = Some st; \<not> es_composite st\<rbrakk> \<Longrightarrow> length (es_children st) = 1"
    and I_finished: "\<lbrakk>I h; map_of (h_client_upstream h) s = Some st; ch \<in> set (es_children st); ch_finished ch\<rbrakk> \<Longrightarrow>
        ch_fd ch < 0"
    and I_advances: "\<lbrakk>I h; child_at s idx h = Some ch; child_advances ch ch'\<rbrakk> \<Longrightarrow> I (set_child s idx ch' h)"
    and I_retries: "\<lbrakk>I h; map_of (h_client_upstream h) s = Some st; child_at s idx h = Some ch; child_retries st ch ch'\<rbrakk> \<Longrightarrow>
        I (set_child s idx ch' h)"
    and I_finishes: "\<lbrakk>I h; child_at s idx h = Some ch; child_finishes ch ch'\<rbrakk> \<Longrightarrow>
        I (set_child s idx ch' (unregister_fd (ch_fd ch) h))"
    and I_register: "I h \<Longrightarrow> I (state_of (register_child s idx want h))"
    and I_erase: "\<lbrakk>I h; map_of (h_client_upstream h) s = Some st; list_all (\<lambda>ch. ch_fd ch < 0) (es_children st)\<rbrakk> \<Longrightarrow>
        I (erase_upstream s h)"
    and I_publish: "\<lbrakk>I h; \<not> has_key s (h_client_upstream h); fresh_state st\<rbrakk> \<Longrightarrow>
        I (h\<lparr>h_client_upstream := put s st (h_client_upstream h)\<rparr>)"
begin

lemma I_respond: "I h \<Longrightarrow> I (state_of (finalize_response e s req resp ac h))"
  by (erule I_cong) simp_all

lemma I_respond_erase:
  assumes "I h" "map_of (h_client_upstream h) s = Some st" "list_all (\<lambda>ch. ch_fd ch < 0) (es_children st)"
  shows "I (state_of (and_then (finalize_response e s req resp ac h) (\<lambda>h'. Ret (erase_upstream s h'))))"
proof -
  have I: "I (state_of (finalize_response e s req resp ac h))" by (rule I_respond [OF assms(1)])
  show ?thesis
  proof (cases "finalize_response e s req resp ac h")
    case (Ret h')
    then have "I h'" "map_of (h_client_upstream h') s = Some st"
      using I finalize_response_frame(1) [of e s req resp ac h] assms(2) by simp_all
    with Ret show ?thesis using I_erase [OF _ _ assms(3)] by simp
  qed (use I in simp_all)
qed

lemma I_composite:
  assumes "I h" "map_of (h_client_upstream h) s = Some st" "list_all ch_finished (es_children st)"
  shows "I (state_of (finalize_composite e s st h))"
proof -
  have "list_all (\<lambda>ch. ch_fd ch < 0) (es_children st)"
    using assms(3) I_finished [OF assms(1,2)] by (simp add: list_all_iff)
  from I_respond_erase [OF assms(1,2) this] show ?thesis
    using assms(1) by (simp add: finalize_composite_def Let_def split: option.split)
qed

lemma I_finish_composite:
  assumes "I h" "map_of (h_client_upstream h) s = Some st" "idx < length (es_children st)" "ch = es_children st ! idx"
  shows "I (state_of (finish_composite_child e s idx st ch x h))"
proof -
  let ?ch = "ch\<lparr>ch_item := composite_item e st ch (x_succeeded x) (x_result x), ch_finished := True, ch_fd := -1, ch_ex := None\<rparr>"
  let ?h = "set_child s idx ?ch (unregister_fd (ch_fd ch) h)"
  have "child_at s idx h = Some ch" using assms(2-4) by (simp add: child_at_def)
  then have I: "I ?h" by (rule I_finishes [OF assms(1)]) (simp add: child_finishes_def)
  have "map_of (h_client_upstream ?h) s = Some (st\<lparr>es_children := (es_children st)[idx := ?ch]\<rparr>)"
    using assms(2) by (simp add: map_of_set_child)
  then show ?thesis
    using I I_composite [OF I] by (simp add: finish_composite_child_def Let_def)
qed

lemma I_finish:
  assumes "I h" "child_at s idx h = Some ch" "ch_fd ch < 0"
  shows "case finish_child e s idx h of Inl r \<Rightarrow> I (state_of r) | Inr h' \<Rightarrow> I h'"
proof -
  obtain st where st: "map_of (h_client_upstream h) s = Some st" "idx < length (es_children st)" "ch = es_children st ! idx"
    using assms(2) by (auto simp: child_at_def split: option.splits if_splits)
  show ?thesis
  proof (cases "ch_ex ch")
    case None
    with assms(1) st show ?thesis by (simp add: finish_child_def Let_def)
  next
    case (Some x)
    let ?h = "record_outcome e ch x h"
    have I: "I ?h" by (rule I_cong [OF assms(1)]) simp_all
    have st': "map_of (h_client_upstream ?h) s = Some st" using st(1) by simp
    have ch': "child_at s idx ?h = Some ch" using st by (simp add: child_at_def)
    have fds: "list_all (\<lambda>ch. ch_fd ch < 0) (es_children st)" if "\<not> es_composite st"
      using I_single [OF assms(1) st(1) that] st(2,3) assms(3) by (cases "es_children st") auto
    consider "es_composite st" | "\<not> es_composite st" "x_succeeded x" | "\<not> es_composite st" "\<not> x_succeeded x" by blast
    then show ?thesis
    proof cases
      case 1
      then show ?thesis
        using Some st I_finish_composite [OF I st' st(2,3)] by (simp add: finish_child_def Let_def)
    next
      case 2
      obtain x' nw where re: "reuse_to_pool (env_now e) (x, h_network ?h) = (x', nw)" by fastforce
      then have "x_params x' = x_params x \<and> x_idempotent x' = x_idempotent x"
        by (auto simp: reuse_to_pool_def Let_def split: option.splits if_splits)
      then have adv: "child_advances ch (ch\<lparr>ch_ex := Some x'\<rparr>)" using Some by (auto simp: child_advances_def)
      let ?h1 = "set_child s idx (ch\<lparr>ch_ex := Some x'\<rparr>) (?h\<lparr>h_network := nw\<rparr>)"
      have "I (?h\<lparr>h_network := nw\<rparr>)" by (rule I_cong [OF I]) simp_all
      moreover have "child_at s idx (?h\<lparr>h_network := nw\<rparr>) = Some ch" using st by (simp add: child_at_def)
      ultimately have I1: "I ?h1" using adv by (rule I_advances)
      have st1: "map_of (h_client_upstream ?h1) s = Some (st\<lparr>es_children := (es_children st)[idx := ch\<lparr>ch_ex := Some x'\<rparr>]\<rparr>)"
        using st(1) by (simp add: map_of_set_child)
      have "list_all (\<lambda>ch. ch_fd ch < 0) ((es_children st)[idx := ch\<lparr>ch_ex := Some x'\<rparr>])"
        using fds [OF 2(1)] assms(3) by (auto simp: list_all_iff dest: subsetD [OF set_update_subset_insert])
      with 2 show ?thesis
        using Some st re I_respond_erase [OF I1 st1] by (simp add: finish_child_def Let_def)
    next
      case 3
      show ?thesis
      proof (cases "may_retry st ch (br_error (x_result x))")
        case True
        let ?ch = "ch\<lparr>ch_attempt_count := ch_attempt_count ch + 1,
            ch_ex := Some (exchange_create (x_params x) (idempotent_method (xp_method (x_params x))) (env_now e))\<rparr>"
        have "child_retries st ch ?ch" using 3 Some True by (auto simp: child_retries_def)
        then have "I (set_child s idx ?ch ?h)" by (rule I_retries [OF I st' ch'])
        with 3 True show ?thesis using Some st by (simp add: finish_child_def Let_def)
      next
        case False
        with 3 show ?thesis
          using Some st I_respond_erase [OF I st' fds [OF 3(1)]] by (simp add: finish_child_def Let_def)
      qed
    qed
  qed
qed

lemma I_advance_child:
  assumes "I h" "child_at s idx h = Some ch" "ch_ex ch = Some x"
  shows "I (snd (advance_child e s idx ev ch x h))"
proof -
  obtain r as' x' nw where adv: "exchange_advance (unat ev) (h_answers h) (env_now e) (x, h_network h) = (r, as', x', nw)"
    by (metis surj_pair)
  have "x_params x' = x_params x \<and> x_idempotent x' = x_idempotent x"
    using xparams.I_advance [of "(x, h_network h)" "x_params x" "x_idempotent x" "unat ev" "h_answers h" "env_now e"] adv
    by simp
  then have "child_advances ch (ch\<lparr>ch_ex := Some x'\<rparr>)" using assms(3) by (auto simp: child_advances_def)
  moreover have "I (h\<lparr>h_answers := as', h_network := nw\<rparr>)" using assms(1) by (rule I_cong) simp_all
  moreover have "child_at s idx (h\<lparr>h_answers := as', h_network := nw\<rparr>) = Some ch"
    using assms(2) by (simp add: child_at_def)
  ultimately show ?thesis using I_advances adv by (simp add: advance_child_def)
qed

lemma I_drive: "I h \<Longrightarrow> I (state_of (drive_child e s idx ev h))"
proof (induction e s idx ev h rule: drive_child.induct)
  case (1 e s idx ev h)
  show ?case
  proof (cases "child_at s idx h")
    case (Some ch)
    show ?thesis
    proof (cases "ch_ex ch")
      case ex: (Some x)
      obtain r h1 where adv: "advance_child e s idx ev ch x h = (r, h1)" by fastforce
      have I1: "I h1" using I_advance_child [OF "1.prems" Some ex, of e ev] adv by simp
      show ?thesis
      proof (cases r)
        case (Return_want want)
        have I2: "I (state_of (register_child s idx want h1))" by (rule I_register [OF I1])
        show ?thesis
        proof (cases "register_child s idx want h1")
          case (Ret h2)
          have I2': "I h2" using I2 Ret by simp
          show ?thesis
          proof (cases "want = Want_Done")
            case True
            obtain ch2 where ch2: "child_at s idx h2 = Some ch2" "ch_fd ch2 < 0"
              using register_done [of s idx h1 h2] advance_child_at [OF adv Some] Ret True by auto
            note fin = I_finish [OF I2' ch2, of e]
            show ?thesis
              using "1.IH" [OF Some ex adv [symmetric] Return_want Ret True] fin
              by (subst drive_child.simps, cases "finish_child e s idx h2")
                 (simp_all add: Some ex adv Return_want [unfolded True] Ret [unfolded True])
          next
            case False
            then show ?thesis by (subst drive_child.simps) (simp add: Some ex adv Return_want Ret I2')
          qed
        qed (subst drive_child.simps, use I2 in \<open>simp add: Some ex adv Return_want\<close>)+
      qed (subst drive_child.simps, use I1 in \<open>simp add: Some ex adv\<close>)+
    qed (subst drive_child.simps, use 1 Some in simp)
  qed (subst drive_child.simps, use 1 in simp)
qed

lemma I_then: "\<lbrakk>I (state_of r); \<And>h. r = Ret h \<Longrightarrow> I h \<Longrightarrow> I (state_of (f h))\<rbrakk> \<Longrightarrow> I (state_of (and_then r f))"
  by (cases r) simp_all

lemma I_drive_all: "I h \<Longrightarrow> I (state_of (drive_all e s live h))"
  by (induction live arbitrary: h) (simp_all add: I_then I_drive)

lemma I_event: "I h \<Longrightarrow> I (state_of (on_upstream_event e fd ev h))"
  by (simp add: on_upstream_event_def I_drive split: option.split)

lemma I_start_upstream:
  assumes I: "I h" and free: "\<not> has_key s (h_client_upstream h)"
  shows "I (state_of (start_upstream_exchange e s req route h))"
proof -
  let ?key = "resolve_upstream_group_id route"
  let ?t = "rt_upstream_target route"
  have cong: "I (h\<lparr>h_upstream_manager := um\<rparr>)" for um by (rule I_cong [OF I]) simp_all
  have pub: "I (h\<lparr>h_upstream_manager := um, h_trace_counter := c, h_client_upstream := put s st (h_client_upstream h)\<rparr>)"
    if "fresh_state st" for um c st
    using I_publish [of "h\<lparr>h_upstream_manager := um, h_trace_counter := c\<rparr>" s st] that free
      I_cong [OF I, of "h\<lparr>h_upstream_manager := um, h_trace_counter := c\<rparr>"] by simp
  obtain srv um where pick: "pick_server ?key (h_upstream_manager h) = (srv, um)" by fastforce
  show ?thesis
  proof (cases "upstream_available (h_config h) ?key \<and> srv \<noteq> None")
    case False
    then show ?thesis
      using I cong pick by (auto simp: start_upstream_exchange_def I_respond Let_def)
  next
    case True
    then obtain server where srv: "srv = Some server" by blast
    obtain ok um' where allow: "allow_request ?key server (ut_circuit_recovery_timeout_ms ?t) (env_now e) um = (ok, um')"
      by fastforce
    have "fresh_state (upstream_state req
            (upstream_child ?t ?key server (upstream_params server (req_method req) p req hs tm mx ip) now))" for hs tm mx ip now p
      by (simp add: fresh_state_def fresh_child_def upstream_state_def upstream_child_def child_default_def
          upstream_params_def)
    then show ?thesis
      using True pick srv allow cong pub pub [where um = um' and c = "h_trace_counter h"]
      by (cases ok) (auto simp: start_upstream_exchange_def I_respond I_drive drive_exchange_def Let_def split: prod.split)
  qed
qed

lemma I_start_composite:
  assumes I: "I h" and free: "\<not> has_key s (h_client_upstream h)"
  shows "I (state_of (start_composite_exchange e s req route ip h))"
proof -
  let ?st = "composite_state e req route ip"
  obtain r h' where sd: "start_dependencies e req ip (ut_circuit_failure_threshold (rt_upstream_target route))
      (ct_dependencies (rt_composite_target route)) ?st [] h = (r, h')" by fastforce
  note fr = start_dependencies_frame [OF sd]
  have I': "I h'" by (rule I_cong [OF I]) (use fr in simp_all)
  show ?thesis
  proof (cases r)
    case None
    then show ?thesis using sd I' by (simp add: start_composite_exchange_def)
  next
    case (Some sl)
    obtain st live where sl: "sl = (st, live)" by fastforce
    have fresh: "es_composite st \<and> fresh_state st \<and>
        live = filter (\<lambda>i. \<not> ch_finished (es_children st ! i)) [0..<length (es_children st)]"
      by (rule start_dependencies_fresh [OF sd [unfolded Some sl]])
         (simp_all add: composite_state_def Let_def fresh_state_def)
    let ?h = "h'\<lparr>h_client_upstream := put s st (h_client_upstream h')\<rparr>"
    have I1: "I ?h" using I' fresh free fr by (intro I_publish) simp_all
    have "list_all ch_finished (es_children st)" if "live = []"
    proof -
      have "filter (\<lambda>i. \<not> ch_finished (es_children st ! i)) [0..<length (es_children st)] = []" using fresh that by simp
      then show ?thesis by (auto simp: list_all_length filter_empty_conv)
    qed
    then have "I (state_of (finalize_composite e s st ?h))" if "live = []"
      using I_composite [OF I1] that by simp
    then show ?thesis
      using sd Some sl I_drive_all [OF I1] by (simp add: start_composite_exchange_def Let_def)
  qed
qed

lemma I_force:
  assumes "I h" "\<And>st. map_of (h_client_upstream h) s = Some st \<Longrightarrow> idx < length (es_children st)"
  shows "I (force_finish_child e s idx h)"
proof (cases "map_of (h_client_upstream h) s")
  case (Some st)
  then have "child_at s idx h = Some (es_children st ! idx)" using assms(2) by (simp add: child_at_def)
  from I_finishes [OF assms(1) this] Some show ?thesis
    using assms(1) by (simp add: force_finish_child_def Let_def child_finishes_def)
qed (use assms in \<open>simp add: force_finish_child_def\<close>)

lemma I_force_all:
  assumes "I h" "map_of (h_client_upstream h) s = Some st" "\<And>i. i \<in> set idxs \<Longrightarrow> i < length (es_children st)"
  shows "I (fold (force_finish_child e s) idxs h)"
  using assms
proof (induction idxs arbitrary: h st)
  case (Cons i idxs)
  have "I (force_finish_child e s i h)" by (rule I_force) (use Cons.prems in auto)
  moreover obtain st' where "map_of (h_client_upstream (force_finish_child e s i h)) s = Some st'"
      "length (es_children st') = length (es_children st)"
    using force_finish_child_at [OF Cons.prems(2), of i e] Cons.prems(3) by auto
  ultimately show ?case using Cons.IH Cons.prems(3) by simp
qed simp

lemma I_expire_children: "I h \<Longrightarrow> I (state_of (expire_children e s idxs h))"
  by (induction idxs arbitrary: h) (auto simp: I_then I_drive split: option.split)

lemma I_expire_client:
  assumes "I h"
  shows "I (state_of (expire_client e s h))"
proof (cases "map_of (h_client_upstream h) s")
  case (Some st)
  show ?thesis
  proof (cases "total_expired e st")
    case True
    let ?h = "fold (force_finish_child e s) [0..<length (es_children st)] h"
    obtain st1 where st1: "map_of (h_client_upstream ?h) s = Some st1" "list_all ch_finished (es_children st1)"
      using force_all_finished [OF Some] by blast
    have "I ?h" by (rule I_force_all [OF assms Some]) simp
    then have "I (state_of (finalize_composite e s st1 ?h))" using st1 by (rule I_composite)
    then show ?thesis using Some True st1 by (simp add: expire_client_def Let_def)
  qed (use Some I_expire_children [OF assms] in \<open>simp add: expire_client_def\<close>)
qed (use assms in \<open>simp add: expire_client_def\<close>)

lemma I_expire_all: "I h \<Longrightarrow> I (state_of (expire_all e due h))"
  by (induction due arbitrary: h) (simp_all add: I_then I_expire_client)

lemma I_timeouts: "I h \<Longrightarrow> I (state_of (check_upstream_timeouts e h))"
  by (simp add: check_upstream_timeouts_def I_expire_all)

end

subsection \<open>Registrations of backend sockets\<close>

text \<open>The owner map, the children's descriptors and the epoll instance agree; client sockets are
  registered, have descriptors of their own, and none of them is taken for a backend socket.\<close>

definition registered :: "handler \<Rightarrow> bool" where
  "registered h \<longleftrightarrow>
     (\<forall>fd s idx. map_of (h_upstream_fd_owner h) fd = Some (s, idx) \<longleftrightarrow>
        0 \<le> fd \<and> (\<exists>ch. child_at s idx h = Some ch \<and> ch_fd ch = fd)) \<and>
     (\<forall>fd. has_key fd (h_upstream_fd_owner h) \<longrightarrow> has_key fd (h_epoll h)) \<and>
     (\<forall>s k. map_of (h_sockets h) s = Some k \<and> 0 \<le> so_fd k \<longrightarrow>
        has_key (so_fd k) (h_epoll h) \<and> \<not> has_key (so_fd k) (h_upstream_fd_owner h)) \<and>
     (\<forall>s s' k k'. map_of (h_sockets h) s = Some k \<and> map_of (h_sockets h) s' = Some k' \<and> 0 \<le> so_fd k \<and>
        so_fd k = so_fd k' \<longrightarrow> s = s') \<and>
     (\<forall>s idx ch. child_at s idx h = Some ch \<and> ch_finished ch \<longrightarrow> ch_fd ch < 0 \<and> ch_ex ch = None) \<and>
     (\<forall>s st. map_of (h_client_upstream h) s = Some st \<and> \<not> es_composite st \<longrightarrow> length (es_children st) = 1)"

lemma registeredD:
  assumes "registered h"
  shows "map_of (h_upstream_fd_owner h) fd = Some (s, idx) \<longleftrightarrow> 0 \<le> fd \<and> (\<exists>ch. child_at s idx h = Some ch \<and> ch_fd ch = fd)"
    and "has_key fd (h_upstream_fd_owner h) \<Longrightarrow> has_key fd (h_epoll h)"
    and "\<lbrakk>map_of (h_sockets h) s = Some k; 0 \<le> so_fd k\<rbrakk> \<Longrightarrow>
      has_key (so_fd k) (h_epoll h) \<and> \<not> has_key (so_fd k) (h_upstream_fd_owner h)"
    and "\<lbrakk>map_of (h_sockets h) s = Some k; map_of (h_sockets h) s' = Some k'; 0 \<le> so_fd k; so_fd k = so_fd k'\<rbrakk> \<Longrightarrow> s = s'"
    and "\<lbrakk>child_at s idx h = Some ch; ch_finished ch\<rbrakk> \<Longrightarrow> ch_fd ch < 0 \<and> ch_ex ch = None"
    and "\<lbrakk>map_of (h_client_upstream h) s = Some st; \<not> es_composite st\<rbrakk> \<Longrightarrow> length (es_children st) = 1"
  using assms unfolding registered_def by blast+

lemma registeredI:
  assumes "\<And>fd s idx. map_of (h_upstream_fd_owner h) fd = Some (s, idx) \<longleftrightarrow> 0 \<le> fd \<and> (\<exists>ch. child_at s idx h = Some ch \<and> ch_fd ch = fd)"
    and "\<And>fd. has_key fd (h_upstream_fd_owner h) \<Longrightarrow> has_key fd (h_epoll h)"
    and "\<And>s k. \<lbrakk>map_of (h_sockets h) s = Some k; 0 \<le> so_fd k\<rbrakk> \<Longrightarrow>
      has_key (so_fd k) (h_epoll h) \<and> \<not> has_key (so_fd k) (h_upstream_fd_owner h)"
    and "\<And>s s' k k'. \<lbrakk>map_of (h_sockets h) s = Some k; map_of (h_sockets h) s' = Some k'; 0 \<le> so_fd k; so_fd k = so_fd k'\<rbrakk> \<Longrightarrow> s = s'"
    and "\<And>s idx ch. \<lbrakk>child_at s idx h = Some ch; ch_finished ch\<rbrakk> \<Longrightarrow> ch_fd ch < 0 \<and> ch_ex ch = None"
    and "\<And>s st. \<lbrakk>map_of (h_client_upstream h) s = Some st; \<not> es_composite st\<rbrakk> \<Longrightarrow> length (es_children st) = 1"
  shows "registered h"
  using assms unfolding registered_def by blast

lemma registered_cong:
  assumes "registered h" "h_client_upstream h' = h_client_upstream h" "h_upstream_fd_owner h' = h_upstream_fd_owner h"
    "h_sockets h' = h_sockets h" "\<forall>fd. has_key fd (h_epoll h') = has_key fd (h_epoll h)"
  shows "registered h'"
proof -
  have "child_at s idx h' = child_at s idx h" for s idx using assms(2) by (simp add: child_at_def)
  then have "registered h' = registered h"
    using assms(5) by (simp only: registered_def assms(2-4) simp_thms)
  with assms(1) show ?thesis by simp
qed

lemma child_at_Some:
  "child_at s idx h = Some ch \<longleftrightarrow>
     (\<exists>st. map_of (h_client_upstream h) s = Some st \<and> idx < length (es_children st) \<and> es_children st ! idx = ch)"
  by (auto simp: child_at_def split: option.splits)

lemma single_set_child:
  assumes "registered h" "map_of (h_client_upstream (set_child s idx ch h)) s' = Some st" "\<not> es_composite st"
  shows "length (es_children st) = 1"
proof (cases "s' = s")
  case True
  then show ?thesis using assms registeredD(6) [OF assms(1)] by (auto simp: map_of_set_child)
next
  case False
  then show ?thesis using assms registeredD(6) [OF assms(1)] by (simp add: map_of_set_child)
qed

text \<open>Exchanging a child for one with the same descriptor.\<close>

lemma registered_set_child:
  assumes "registered h" "child_at s idx h = Some ch" "ch_fd ch' = ch_fd ch"
    "ch_finished ch' \<Longrightarrow> ch_fd ch' < 0 \<and> ch_ex ch' = None"
  shows "registered (set_child s idx ch' h)"
proof -
  have "(\<exists>c. child_at t i (set_child s idx ch' h) = Some c \<and> ch_fd c = fd) \<longleftrightarrow> (\<exists>c. child_at t i h = Some c \<and> ch_fd c = fd)" for t i fd
    using assms(2,3) by (auto simp: child_at_set_child)
  moreover have "ch_fd c < 0 \<and> ch_ex c = None" if "child_at t i (set_child s idx ch' h) = Some c" "ch_finished c" for t i c
    using that assms(2,4) registeredD(5) [OF assms(1)] by (auto simp: child_at_set_child split: if_splits)
  ultimately show ?thesis
    using registeredD(1-4) [OF assms(1)] single_set_child [OF assms(1)]
    by (intro registeredI) (simp_all only: set_child_sockets set_child_fields simp_thms)
qed

text \<open>Dropping a registration together with the child's descriptor.\<close>

lemma unregister_fd_maps:
  "map_of (h_upstream_fd_owner (unregister_fd fd h)) fd' =
     (if 0 \<le> fd \<and> fd' = fd then None else map_of (h_upstream_fd_owner h) fd')"
  "has_key fd' (h_upstream_fd_owner (unregister_fd fd h)) \<longleftrightarrow> has_key fd' (h_upstream_fd_owner h) \<and> \<not> (0 \<le> fd \<and> fd' = fd)"
  "has_key fd' (h_epoll (unregister_fd fd h)) \<longleftrightarrow> has_key fd' (h_epoll h) \<and> \<not> (0 \<le> fd \<and> fd' = fd)"
  by (auto simp: unregister_fd_def epoll_del_def delete_conv' restrict_map_def)

lemma registered_drop:
  assumes "registered h" "child_at s idx h = Some ch" "ch_fd ch' < 0" "ch_finished ch' \<Longrightarrow> ch_ex ch' = None"
  shows "registered (set_child s idx ch' (unregister_fd (ch_fd ch) h))"
proof -
  let ?h = "set_child s idx ch' (unregister_fd (ch_fd ch) h)"
  note reg = registeredD [OF assms(1)]
  have at: "child_at t i ?h = (if t = s \<and> i = idx then Some ch' else child_at t i h)" for t i
    using assms(2) by (simp add: child_at_set_child)
  have own: "map_of (h_upstream_fd_owner ?h) fd = Some (t, i) \<longleftrightarrow> 0 \<le> fd \<and> (\<exists>c. child_at t i ?h = Some c \<and> ch_fd c = fd)" for fd t i
    using reg(1) [of fd t i] reg(1) [of "ch_fd ch" s idx] assms(2,3) by (auto simp: at unregister_fd_maps(1))
  have cl: "has_key (so_fd k) (h_epoll ?h) \<and> \<not> has_key (so_fd k) (h_upstream_fd_owner ?h)"
    if "map_of (h_sockets h) t = Some k" "0 \<le> so_fd k" for t k
  proof -
    have "has_key (ch_fd ch) (h_upstream_fd_owner h)" if "0 \<le> ch_fd ch"
      using reg(1) [of "ch_fd ch" s idx] assms(2) that by (simp add: has_key_def domIff)
    then show ?thesis using reg(3) [OF that] by (auto simp: unregister_fd_maps(2,3))
  qed
  have ep: "has_key fd (h_epoll ?h)" if "has_key fd (h_upstream_fd_owner ?h)" for fd
    using that reg(2) by (simp add: unregister_fd_maps(2,3))
  have sing: "length (es_children st) = 1"
    if "map_of (h_client_upstream ?h) t = Some st" "\<not> es_composite st" for t st
    using that single_set_child [OF assms(1), of s idx ch' t st] by (simp add: map_of_set_child split: if_splits)
  show ?thesis
    by (rule registeredI [OF own ep _ _ _ sing]) (use cl reg(4,5) assms(3,4) in \<open>auto simp: at split: if_splits\<close>)
qed

text \<open>Registering a new descriptor for a child that has none.\<close>

lemma registered_add:
  assumes "registered h" "child_at s idx h = Some ch" "ch_fd ch < 0" "0 \<le> fd"
    and "\<not> has_key fd (h_epoll h)" "\<And>fd'. has_key fd' ep \<longleftrightarrow> fd' = fd \<or> has_key fd' (h_epoll h)"
    and "\<not> ch_finished ch"
  shows "registered (set_child s idx (ch\<lparr>ch_fd := fd\<rparr>)
    (h\<lparr>h_epoll := ep, h_upstream_fd_owner := put fd (s, idx) (h_upstream_fd_owner h)\<rparr>))"
proof -
  let ?h = "h\<lparr>h_epoll := ep, h_upstream_fd_owner := put fd (s, idx) (h_upstream_fd_owner h)\<rparr>"
  let ?h' = "set_child s idx (ch\<lparr>ch_fd := fd\<rparr>) ?h"
  note reg = registeredD [OF assms(1)]
  have "child_at t i ?h = child_at t i h" for t i by (simp add: child_at_def)
  then have at: "child_at t i ?h' = (if t = s \<and> i = idx then Some (ch\<lparr>ch_fd := fd\<rparr>) else child_at t i h)" for t i
    using assms(2) by (simp add: child_at_set_child)
  have new: "map_of (h_upstream_fd_owner h) fd = None"
    using assms(5) reg(2) [of fd] unfolding has_key_def by blast
  have own: "map_of (h_upstream_fd_owner ?h') fd' = Some (t, i) \<longleftrightarrow> 0 \<le> fd' \<and> (\<exists>c. child_at t i ?h' = Some c \<and> ch_fd c = fd')" for fd' t i
    using reg(1) [of fd' t i] reg(1) [of fd t i] new assms(2,3,4) by (auto simp: at)
  have cl: "has_key (so_fd k) (h_epoll ?h') \<and> \<not> has_key (so_fd k) (h_upstream_fd_owner ?h')"
    if "map_of (h_sockets ?h') t = Some k" "0 \<le> so_fd k" for t k
    using reg(3) [of t k] that assms(5,6) by auto
  have sing: "length (es_children st) = 1" if "map_of (h_client_upstream ?h') t = Some st" "\<not> es_composite st" for t st
    using that single_set_child [OF assms(1), of s idx "ch\<lparr>ch_fd := fd\<rparr>" t st] by (simp add: map_of_set_child split: if_splits)
  show ?thesis
    by (rule registeredI [OF own _ cl _ _ sing]) (use reg(2,4,5) assms(3-7) in \<open>auto simp: at split: if_splits\<close>)
qed

lemma registered_register:
  assumes "registered h"
  shows "registered (state_of (register_child s idx want h))"
proof (cases "child_at s idx h")
  case (Some ch0)
  let ?ch = "ch0\<lparr>ch_fd := if 0 \<le> ch_fd ch0 then -1 else ch_fd ch0\<rparr>"
  let ?h = "release_fd s idx ch0 h"
  have reg: "registered ?h"
    using registered_drop [OF assms Some, of "ch0\<lparr>ch_fd := -1\<rparr>"] registeredD(5) [OF assms Some] assms
    by (simp add: release_fd_def)
  have at: "child_at s idx ?h = Some ?ch"
    using Some by (simp add: release_fd_def child_at_set_child)
  show ?thesis
  proof (cases "\<exists>x. ch_ex ch0 = Some x \<and> want \<noteq> Want_Done \<and> 0 \<le> exchange_fd x")
    case False
    then show ?thesis
      using Some reg by (auto simp: register_child_def Let_def split: option.split)
  next
    case True
    then obtain x where x: "ch_ex ch0 = Some x" "want \<noteq> Want_Done" "0 \<le> exchange_fd x" by blast
    let ?ev = "(if want = Want_Read then EPOLLIN else EPOLLOUT) OR EPOLLONESHOT"
    show ?thesis
    proof (cases "epoll_add (exchange_fd x) ?ev (h_epoll ?h)")
      case None
      then show ?thesis using Some x reg by (simp add: register_child_def Let_def)
    next
      case (Some ep)
      then have ep: "\<not> has_key (exchange_fd x) (h_epoll ?h)" "\<And>fd. has_key fd ep \<longleftrightarrow> fd = exchange_fd x \<or> has_key fd (h_epoll ?h)"
        by (auto simp: epoll_add_def split: if_splits)
      have "registered (set_child s idx (?ch\<lparr>ch_fd := exchange_fd x\<rparr>)
          (?h\<lparr>h_epoll := ep, h_upstream_fd_owner := put (exchange_fd x) (s, idx) (h_upstream_fd_owner ?h)\<rparr>))"
        using x registeredD(5) [OF assms \<open>child_at s idx h = Some ch0\<close>]
        by (intro registered_add [OF reg at _ x(3) ep]) auto
      then show ?thesis
        using \<open>child_at s idx h = Some ch0\<close> x Some by (simp add: register_child_def Let_def)
    qed
  qed
qed (use assms in \<open>simp add: register_child_def\<close>)

lemma registered_erase:
  assumes "registered h" "map_of (h_client_upstream h) s = Some st" "list_all (\<lambda>ch. ch_fd ch < 0) (es_children st)"
  shows "registered (erase_upstream s h)"
proof -
  have at: "child_at t i (erase_upstream s h) = (if t = s then None else child_at t i h)" for t i
    by (simp add: child_at_def erase_upstream_def delete_conv' restrict_map_def)
  have none: "ch_fd ch < 0" if "child_at s i h = Some ch" for i ch
    using that assms(2,3) by (auto simp: child_at_Some list_all_length)
  note reg = registeredD [OF assms(1)]
  have "map_of (h_upstream_fd_owner h) fd = Some (t, i) \<longleftrightarrow> 0 \<le> fd \<and> (\<exists>c. child_at t i (erase_upstream s h) = Some c \<and> ch_fd c = fd)" for fd t i
    using reg(1) [of fd t i] by (cases "t = s") (auto simp: at dest: none)
  moreover have "ch_fd c < 0 \<and> ch_ex c = None" if "child_at t i (erase_upstream s h) = Some c" "ch_finished c" for t i c
    using that reg(5) [of t i c] by (auto simp: at split: if_splits)
  moreover have "length (es_children st') = 1" if "map_of (h_client_upstream (erase_upstream s h)) t = Some st'" "\<not> es_composite st'" for t st'
    using that reg(6) [of t st'] by (auto simp: erase_upstream_def delete_conv' restrict_map_def split: if_splits)
  ultimately show ?thesis
    using reg(2-4) by (intro registeredI) (simp_all add: erase_upstream_def)
qed

lemma registered_publish:
  assumes "registered h" "\<not> has_key s (h_client_upstream h)" "fresh_state st"
  shows "registered (h\<lparr>h_client_upstream := put s st (h_client_upstream h)\<rparr>)"
proof -
  let ?h = "h\<lparr>h_client_upstream := put s st (h_client_upstream h)\<rparr>"
  have fresh: "fresh_child st (es_children st ! i)" if "i < length (es_children st)" for i
    using assms(3) that by (simp add: fresh_state_def list_all_length)
  have at: "child_at t i ?h = (if t = s then if i < length (es_children st) then Some (es_children st ! i) else None
      else child_at t i h)" for t i
    by (simp add: child_at_def)
  have none: "child_at s i h = None" for i using assms(2) by (simp add: child_at_def has_key_def domIff split: option.split)
  note reg = registeredD [OF assms(1)]
  have own: "map_of (h_upstream_fd_owner h) fd = Some (t, i) \<longleftrightarrow> 0 \<le> fd \<and> (\<exists>c. child_at t i ?h = Some c \<and> ch_fd c = fd)" for fd t i
    using reg(1) [of fd t i] none fresh [of i] by (auto simp: at fresh_child_def)
  have fin: "ch_fd c < 0 \<and> ch_ex c = None" if "child_at t i ?h = Some c" "ch_finished c" for t i c
    using that fresh [of i] reg(5) [of t i c] by (auto simp: at fresh_child_def split: if_splits)
  show ?thesis
    by (rule registeredI [OF _ _ _ _ fin]) (use own reg(2-4,6) assms(3) in \<open>auto simp: fresh_state_def split: if_splits\<close>)
qed

interpretation registration: upstream_invariant registered
proof unfold_locales
  fix h h' :: handler
  assume "registered h" "h_client_upstream h' = h_client_upstream h" "h_upstream_fd_owner h' = h_upstream_fd_owner h"
    "h_sockets h' = h_sockets h" "\<forall>fd. has_key fd (h_epoll h') = has_key fd (h_epoll h)"
  then show "registered h'" by (rule registered_cong)
next
  fix h s st ch
  assume h: "registered h" "map_of (h_client_upstream h) s = Some st" "ch \<in> set (es_children st)" "ch_finished ch"
  then obtain i where "child_at s i h = Some ch" by (auto simp: in_set_conv_nth child_at_Some)
  with h show "ch_fd ch < 0" using registeredD(5) by blast
next
  fix h s idx ch ch'
  assume h: "registered h" "child_at s idx h = Some ch" "child_advances ch ch'"
  then show "registered (set_child s idx ch' h)"
    using registeredD(5) [OF h(1,2)] by (intro registered_set_child [OF h(1,2)]) (auto simp: child_advances_def)
next
  fix h s st idx ch ch'
  assume h: "registered h" "map_of (h_client_upstream h) s = Some st" "child_at s idx h = Some ch" "child_retries st ch ch'"
  then show "registered (set_child s idx ch' h)"
    using registeredD(5) [OF h(1,3)] by (intro registered_set_child [OF h(1,3)]) (auto simp: child_retries_def)
next
  fix h s idx ch ch'
  assume h: "registered h" "child_at s idx h = Some ch" "child_finishes ch ch'"
  then show "registered (set_child s idx ch' (unregister_fd (ch_fd ch) h))"
    by (intro registered_drop) (auto simp: child_finishes_def)
next
  fix h s st assume "registered h" "map_of (h_client_upstream h) s = Some st" "\<not> es_composite st"
  then show "length (es_children st) = 1" by (rule registeredD(6))
qed (auto intro: registered_register registered_erase registered_publish)

subsection \<open>Retries\<close>

text \<open>An exchange is attempted at most three times, never more often than the route allows, and only
  once when the request is not idempotent or belongs to a composite.\<close>

definition attempts_bounded :: "exchange_state \<Rightarrow> child_exchange \<Rightarrow> bool" where
  "attempts_bounded st ch \<longleftrightarrow> 0 \<le> ch_attempt_count ch \<and> ch_attempt_count ch \<le> 2 \<and>
     ch_attempt_count ch \<le> max 0 (ch_max_retries ch) \<and>
     (es_composite st \<or> \<not> idempotent_method (req_method (es_req st)) \<longrightarrow> ch_attempt_count ch = 0)"

definition retries_bounded :: "handler \<Rightarrow> bool" where
  "retries_bounded h \<longleftrightarrow> (\<forall>s st. map_of (h_client_upstream h) s = Some st \<longrightarrow> list_all (attempts_bounded st) (es_children st))"

lemma attempts_bounded_children [simp]: "attempts_bounded (st\<lparr>es_children := chs\<rparr>) = attempts_bounded st"
  by (simp add: fun_eq_iff attempts_bounded_def)

lemma retries_set_child:
  assumes "retries_bounded h" "child_at s idx h = Some ch"
    "\<And>st. map_of (h_client_upstream h) s = Some st \<Longrightarrow> attempts_bounded st ch \<Longrightarrow> attempts_bounded st ch'"
  shows "retries_bounded (set_child s idx ch' h)"
proof -
  obtain st where st: "map_of (h_client_upstream h) s = Some st" "idx < length (es_children st)" "es_children st ! idx = ch"
    using assms(2) child_at_Some by blast
  have all: "list_all (attempts_bounded st) (es_children st)" using assms(1) st(1) by (simp add: retries_bounded_def)
  then have "attempts_bounded st ch'" using assms(3) st by (auto simp: list_all_length)
  then have "list_all (attempts_bounded st) ((es_children st)[idx := ch'])"
    using all by (auto simp: list_all_iff dest: subsetD [OF set_update_subset_insert])
  then show ?thesis
    using assms(1) st(1) by (auto simp: retries_bounded_def map_of_set_child split: if_splits)
qed

lemma retries_register:
  assumes "retries_bounded h"
  shows "retries_bounded (state_of (register_child s idx want h))"
proof (cases "child_at s idx h")
  case (Some ch0)
  have frame: "retries_bounded (set_child s idx (ch0\<lparr>ch_fd := fd\<rparr>) h')"
    if "h_client_upstream h' = h_client_upstream h" for fd h'
    by (rule retries_set_child [of _ _ _ ch0])
       (use that assms Some in \<open>auto simp: retries_bounded_def child_at_def attempts_bounded_def\<close>)
  let ?h = "release_fd s idx ch0 h"
  have rel: "retries_bounded ?h" using assms frame by (simp add: release_fd_def)
  have "child_at s idx ?h = Some (ch0\<lparr>ch_fd := if 0 \<le> ch_fd ch0 then -1 else ch_fd ch0\<rparr>)"
    using Some by (simp add: release_fd_def child_at_set_child)
  then have "child_at s idx (?h\<lparr>h_epoll := ep, h_upstream_fd_owner := own\<rparr>) =
      Some (ch0\<lparr>ch_fd := if 0 \<le> ch_fd ch0 then -1 else ch_fd ch0\<rparr>)" for ep own
    by (simp add: child_at_def)
  then have "retries_bounded (set_child s idx (ch0\<lparr>ch_fd := fd\<rparr>) (?h\<lparr>h_epoll := ep, h_upstream_fd_owner := own\<rparr>))" for fd ep own
    by (rule retries_set_child [rotated]) (use rel in \<open>auto simp: retries_bounded_def attempts_bounded_def\<close>)
  then show ?thesis
    using Some rel by (auto simp: register_child_def Let_def split: option.splits)
qed (use assms in \<open>simp add: register_child_def\<close>)

interpretation retries: upstream_invariant "\<lambda>h. registered h \<and> retries_bounded h"
proof unfold_locales
  fix h h' :: handler
  assume "registered h \<and> retries_bounded h" "h_client_upstream h' = h_client_upstream h" "h_upstream_fd_owner h' = h_upstream_fd_owner h"
    "h_sockets h' = h_sockets h" "\<forall>fd. has_key fd (h_epoll h') = has_key fd (h_epoll h)"
  then show "registered h' \<and> retries_bounded h'" using registered_cong [of h h'] by (simp add: retries_bounded_def)
next
  fix h s idx ch ch'
  assume h: "registered h \<and> retries_bounded h" "child_at s idx h = Some ch" "child_advances ch ch'"
  then have "retries_bounded (set_child s idx ch' h)"
    by (intro retries_set_child [OF _ h(2)]) (auto simp: child_advances_def attempts_bounded_def)
  with h show "registered (set_child s idx ch' h) \<and> retries_bounded (set_child s idx ch' h)"
    using registration.I_advances by blast
next
  fix h s st idx ch ch'
  assume h: "registered h \<and> retries_bounded h" "map_of (h_client_upstream h) s = Some st" "child_at s idx h = Some ch"
    "child_retries st ch ch'"
  then have "retries_bounded (set_child s idx ch' h)"
    by (intro retries_set_child [OF _ h(3)])
       (auto simp: child_retries_def attempts_bounded_def may_retry_def should_retry_backend_request_def split: if_splits)
  with h show "registered (set_child s idx ch' h) \<and> retries_bounded (set_child s idx ch' h)"
    using registration.I_retries by blast
next
  fix h s idx ch ch'
  assume h: "registered h \<and> retries_bounded h" "child_at s idx h = Some ch" "child_finishes ch ch'"
  have "retries_bounded (unregister_fd (ch_fd ch) h)" using h(1) by (simp add: retries_bounded_def)
  then have "retries_bounded (set_child s idx ch' (unregister_fd (ch_fd ch) h))"
    using h(2,3) by (intro retries_set_child [of _ _ _ ch]) (auto simp: child_finishes_def attempts_bounded_def)
  with h show "registered (set_child s idx ch' (unregister_fd (ch_fd ch) h)) \<and>
      retries_bounded (set_child s idx ch' (unregister_fd (ch_fd ch) h))"
    using registration.I_finishes by blast
next
  fix h s idx want
  assume h: "registered h \<and> retries_bounded h"
  then show "registered (state_of (register_child s idx want h)) \<and> retries_bounded (state_of (register_child s idx want h))"
    using registration.I_register retries_register by blast
next
  fix h s st
  assume h: "registered h \<and> retries_bounded h" "map_of (h_client_upstream h) s = Some st"
    "list_all (\<lambda>ch. ch_fd ch < 0) (es_children st)"
  then have "retries_bounded (erase_upstream s h)"
    by (auto simp: retries_bounded_def erase_upstream_def delete_conv' restrict_map_def split: if_splits)
  with h show "registered (erase_upstream s h) \<and> retries_bounded (erase_upstream s h)"
    using registration.I_erase by blast
next
  fix h s st
  assume h: "registered h \<and> retries_bounded h" "\<not> has_key s (h_client_upstream h)" "fresh_state st"
  then have "retries_bounded (h\<lparr>h_client_upstream := put s st (h_client_upstream h)\<rparr>)"
    by (auto simp: retries_bounded_def fresh_state_def fresh_child_def attempts_bounded_def list_all_iff split: if_splits)
  with h show "registered (h\<lparr>h_client_upstream := put s st (h_client_upstream h)\<rparr>) \<and>
      retries_bounded (h\<lparr>h_client_upstream := put s st (h_client_upstream h)\<rparr>)"
    using registration.I_publish by blast
qed (use registration.I_single registration.I_finished in blast)+

end
