(* ===== verification/Handler_Frame.thy ===== *)
theory Handler_Frame
  imports Handler_Upstream
begin

text \<open>
  What the operations of \<^verbatim>\<open>HttpHandler\<close> on one connection leave alone: the fields that responses and
  upstream round trips never touch, and in the other maps the entries of all other connections.
\<close>

subsection \<open>The frame of a response\<close>

definition others :: "nat \<Rightarrow> 'v conn_map \<Rightarrow> nat \<Rightarrow> 'v option" where
  "others s m = (map_of m)(s := None)"

lemma others_put [simp]: "others s (put s v m) = others s m"
  by (auto simp: others_def)

lemma others_delete [simp]: "others s (AList.delete s m) = others s m"
  by (auto simp: others_def delete_conv')

definition steady :: "handler \<Rightarrow>
    (client_socket conn_map \<times> string conn_map \<times> read_answer list \<times> write_answer list \<times> (nat \<times> string) list) \<times>
    (parser conn_map \<times> http_request conn_map \<times> bool conn_map \<times> string conn_map \<times> int conn_map) \<times>
    (string conn_map \<times> ssl_want conn_map \<times> string list) \<times>
    (config \<times> registered_route list \<times> api_keys \<times> rate_limiter_manager \<times> string)" where
  "steady h = ((h_sockets h, h_read_bufs h, h_reads h, h_writes h, h_sent h),
     (h_parsers h, h_requests h, h_request_ready h, h_client_ip_map h, h_request_start_time h),
     (h_ssl_file_buffers h, h_pending_ssl_writes h, h_log h),
     (h_config h, h_routes h, h_api_keys h, h_rate_limiter_manager h, h_www_root h))"

definition response_entries :: "nat \<Rightarrow> handler \<Rightarrow>
    ((nat \<Rightarrow> bool option) \<times> (nat \<Rightarrow> int option) \<times> (nat \<Rightarrow> nat option) \<times> (nat \<Rightarrow> nat option)) \<times>
    ((nat \<Rightarrow> int option) \<times> (nat \<Rightarrow> nat option) \<times> (nat \<Rightarrow> string list option)) \<times>
    ((nat \<Rightarrow> http_request option) \<times> (nat \<Rightarrow> exchange_state option))" where
  "response_entries s h =
     ((others s (h_keep_alive h), others s (h_file_fds h), others s (h_file_offsets h), others s (h_file_sizes h)),
      (others s (h_resp_status h), others s (h_resp_size h), others s (h_send_queues h)),
      (others s (h_last_requests h), others s (h_client_upstream h)))"

definition same_frame :: "nat \<Rightarrow> handler \<Rightarrow> handler \<Rightarrow> bool" where
  "same_frame s h h' \<longleftrightarrow> steady h' = steady h \<and> response_entries s h' = response_entries s h"

lemmas frame_defs = same_frame_def steady_def response_entries_def

lemma same_frame_refl [simp]: "same_frame s h h"
  by (simp add: same_frame_def)

lemma same_frame_trans: "\<lbrakk>same_frame s h1 h2; same_frame s h2 h3\<rbrakk> \<Longrightarrow> same_frame s h1 h3"
  by (simp add: same_frame_def)

lemma same_frame_then:
  "\<lbrakk>same_frame s h (state_of r); \<And>h'. r = Ret h' \<Longrightarrow> same_frame s h' (state_of (f h'))\<rbrakk> \<Longrightarrow>
     same_frame s h (state_of (and_then r f))"
  by (cases r) (auto intro: same_frame_trans)

subsection \<open>Responses and round trips\<close>

lemma frame_arm: "same_frame s h (state_of (arm fd ev h))"
  by (simp add: arm_def frame_defs split: option.split)

lemma frame_arm_after: "same_frame s h h1 \<Longrightarrow> same_frame s h (state_of (arm fd ev h1))"
  using frame_arm same_frame_trans by blast

lemma frame_count: "same_frame s h (fst (count_response s is_head resp h))"
  by (simp add: count_response_def Let_def frame_defs)

lemma frame_finalize: "same_frame s h (state_of (finalize_response e s req resp ac h))"
proof -
  have 1: "same_frame s h (h\<lparr>h_trace_counter := c, h_keep_alive := put s k (h_keep_alive h)\<rparr>)" for c k
    by (simp add: frame_defs)
  have 3: "same_frame s h1 (h1\<lparr>h_resp_status := put s a (h_resp_status h1), h_resp_size := put s b (h_resp_size h1),
      h_send_queues := put s q (h_send_queues h1)\<rparr>)" for a b q h1
    by (simp add: frame_defs)
  show ?thesis
    unfolding finalize_response_def Let_def split_beta
    by (rule frame_arm_after, rule same_frame_trans [OF 1], rule same_frame_trans [OF frame_count], rule 3)
qed

lemma frame_send_error: "same_frame s h (state_of (send_error_response s status message allow h))"
  unfolding send_error_response_def Let_def by (rule frame_arm_after) (simp add: frame_defs)

lemma frame_set_child: "same_frame s h (set_child s idx ch h)"
  by (simp add: set_child_def frame_defs split: option.split)

lemma frame_unregister: "same_frame s h (unregister_fd fd h)"
  by (simp add: unregister_fd_def frame_defs)

lemma frame_erase: "same_frame s h (erase_upstream s h)"
  by (simp add: erase_upstream_def frame_defs)

lemma frame_record_outcome: "same_frame s h (record_outcome e ch x h)"
  by (simp add: record_outcome_def frame_defs)

lemma frame_respond_erase:
  "same_frame s h (state_of (and_then (finalize_response e s req resp ac h) (\<lambda>h'. Ret (erase_upstream s h'))))"
  by (rule same_frame_then) (simp_all add: frame_finalize frame_erase)

lemma frame_composite: "same_frame s h (state_of (finalize_composite e s st h))"
  by (simp add: finalize_composite_def Let_def frame_respond_erase split: option.split)

lemma frame_register: "same_frame s h (state_of (register_child s idx want h))"
proof -
  have r: "same_frame s h (release_fd s idx ch h)" for ch
    by (simp add: release_fd_def same_frame_trans [OF frame_unregister frame_set_child])
  have "same_frame s h (set_child s idx ch (h1\<lparr>h_epoll := ep, h_upstream_fd_owner := own\<rparr>))"
    if "same_frame s h h1" for ch h1 ep own
    using that by (rule same_frame_trans) (rule same_frame_trans [OF _ frame_set_child], simp add: frame_defs)
  with r show ?thesis
    by (simp add: register_child_def Let_def split: option.split)
qed

lemma frame_advance: "same_frame s h (snd (advance_child e s idx ev ch x h))"
proof -
  have "same_frame s h (set_child s idx ch' (h\<lparr>h_answers := as, h_network := nw\<rparr>))" for ch' as nw
    by (rule same_frame_trans [OF _ frame_set_child]) (simp add: frame_defs)
  then show ?thesis by (simp add: advance_child_def split: prod.split)
qed

lemma frame_finish: "case finish_child e s idx h of Inl r \<Rightarrow> same_frame s h (state_of r) | Inr h' \<Rightarrow> same_frame s h h'"
proof -
  let ?o = "\<lambda>ch x. record_outcome e ch x h"
  have o: "same_frame s h (?o ch x)" for ch x by (rule frame_record_outcome)
  have re: "same_frame s h (state_of (and_then (finalize_response e s req resp ac h1) (\<lambda>h'. Ret (erase_upstream s h'))))"
    if "same_frame s h h1" for req resp ac h1
    using that frame_respond_erase by (rule same_frame_trans)
  have sc: "same_frame s h (set_child s idx ch h1)" if "same_frame s h h1" for ch h1
    using that frame_set_child by (rule same_frame_trans)
  have nw: "same_frame s h (h1\<lparr>h_network := nw\<rparr>)" if "same_frame s h h1" for h1 nw
    using that by (simp add: frame_defs)
  have fc: "same_frame s h (state_of (finish_composite_child e s idx st ch x h1))" if "same_frame s h h1" for st ch x h1
  proof -
    have "same_frame s h (set_child s idx ch' (unregister_fd fd h1))" for ch' fd
      using that same_frame_trans [OF frame_unregister frame_set_child] by (rule same_frame_trans)
    from this this [THEN same_frame_trans, OF frame_composite] show ?thesis
      by (simp add: finish_composite_child_def Let_def)
  qed
  show ?thesis
    by (simp add: finish_child_def Let_def o re sc nw fc split: option.split prod.split)
qed

lemma frame_drive: "same_frame s h (state_of (drive_child e s idx ev h))"
proof (induction e s idx ev h rule: drive_child.induct)
  case (1 e s idx ev h)
  show ?case
  proof (cases "\<exists>ch x. child_at s idx h = Some ch \<and> ch_ex ch = Some x")
    case True
    then obtain ch x where ch: "child_at s idx h = Some ch" "ch_ex ch = Some x" by blast
    obtain r h1 where adv: "advance_child e s idx ev ch x h = (r, h1)" by fastforce
    have f1: "same_frame s h h1" using frame_advance [where e = e and s = s and idx = idx and ev = ev and ch = ch and x = x and h = h] adv by simp
    show ?thesis
    proof (cases r)
      case (Return_want want)
      have f2: "same_frame s h (state_of (register_child s idx want h1))"
        using f1 frame_register by (rule same_frame_trans)
      show ?thesis
      proof (cases "\<exists>h2. register_child s idx want h1 = Ret h2 \<and> want = Want_Done")
        case True
        then obtain h2 where h2: "register_child s idx want h1 = Ret h2" "want = Want_Done" by blast
        have f3: "same_frame s h h2" using f2 h2(1) by simp
        show ?thesis
          using "1.IH" [OF ch adv [symmetric] Return_want h2] frame_finish [where e = e and s = s and idx = idx and h = h2] f3
          by (subst drive_child.simps, cases "finish_child e s idx h2")
             (simp_all add: ch adv Return_want [unfolded h2(2)] h2(1) [unfolded h2(2)] same_frame_def)
      next
        case False
        then show ?thesis
          using f2 by (subst drive_child.simps) (auto simp: ch adv Return_want split: result.split)
      qed
    qed (subst drive_child.simps, use f1 in \<open>simp add: ch adv\<close>)+
  next
    case False
    then show ?thesis by (subst drive_child.simps) (auto split: option.split)
  qed
qed

lemma frame_drive_all: "same_frame s h (state_of (drive_all e s live h))"
  by (induction live arbitrary: h) (simp_all add: same_frame_then frame_drive)

lemma frame_start_upstream: "same_frame s h (state_of (start_upstream_exchange e s req route h))"
proof -
  let ?key = "resolve_upstream_group_id route"
  let ?t = "rt_upstream_target route"
  obtain srv um where pick: "pick_server ?key (h_upstream_manager h) = (srv, um)" by fastforce
  have um: "same_frame s h (h\<lparr>h_upstream_manager := um\<rparr>)" for um by (simp add: frame_defs)
  have pub: "same_frame s h (h\<lparr>h_upstream_manager := um, h_trace_counter := c, h_client_upstream := put s st (h_client_upstream h)\<rparr>)"
    for um c st by (simp add: frame_defs)
  note resp = um [THEN same_frame_trans, OF frame_finalize] and drive = pub [THEN same_frame_trans, OF frame_drive]
  show ?thesis
  proof (cases "upstream_available (h_config h) ?key \<and> srv \<noteq> None")
    case False
    then show ?thesis
      using um pick by (auto simp: start_upstream_exchange_def frame_finalize Let_def)
  next
    case True
    then obtain server where srv: "srv = Some server" by blast
    obtain ok um' where allow: "allow_request ?key server (ut_circuit_recovery_timeout_ms ?t) (env_now e) um = (ok, um')"
      by fastforce
    show ?thesis
      using True pick srv allow resp drive pub [where um = um' and c = "h_trace_counter h", THEN same_frame_trans, OF frame_drive]
      by (cases ok) (simp_all add: start_upstream_exchange_def drive_exchange_def Let_def split: prod.split)
  qed
qed

lemma frame_start_dependencies: "same_frame s h (snd (start_dependencies e req ip th deps st live h))"
proof (induction deps arbitrary: st live h)
  case (Cons dep deps)
  obtain r1 h1 where d: "start_dependency e req ip th st dep h = (r1, h1)" by fastforce
  then have "same_frame s h h1" by (cases rule: start_dependency_cases) (simp_all add: frame_defs)
  with Cons.IH show ?case by (auto simp: d split: option.split prod.split intro: same_frame_trans)
qed simp

lemma frame_start_composite: "same_frame s h (state_of (start_composite_exchange e s req route ip h))"
proof -
  let ?st = "composite_state e req route ip"
  obtain r h' where sd: "start_dependencies e req ip (ut_circuit_failure_threshold (rt_upstream_target route))
      (ct_dependencies (rt_composite_target route)) ?st [] h = (r, h')" by fastforce
  have f: "same_frame s h h'" using frame_start_dependencies sd by (metis snd_conv)
  have pub: "same_frame s h (h'\<lparr>h_client_upstream := put s st (h_client_upstream h')\<rparr>)" for st
    using f by (simp add: frame_defs)
  show ?thesis
    using f pub [THEN same_frame_trans, OF frame_composite] pub [THEN same_frame_trans, OF frame_drive_all]
    by (simp add: start_composite_exchange_def sd Let_def split: option.split prod.split)
qed

end
