(* ===== verification/Handler_Requests.thy ===== *)
theory Handler_Requests
  imports Handler_Frame
begin

text \<open>
  The read side of \<^verbatim>\<open>HttpHandler\<close> (\<^verbatim>\<open>http_handler.cpp\<close>): \<^verbatim>\<open>send_response\<close> with the static file fallback and
  its two caches, and \<^verbatim>\<open>handle_read\<close> with its reading and parsing loops and the gates every request
  passes: route, authentication, rate limit, method. A cached descriptor has one file offset, which all
  requests for the file share. The loops end because every round takes a byte of the read buffer or an
  answer of the socket.
\<close>

subsection \<open>Static files\<close>

datatype file_location = FL_missing | FL_unreadable | FL_file int nat int

definition file_hit :: "handler \<Rightarrow> handler" where
  "file_hit h = h\<lparr>h_metrics := record_fd_cache_hit (h_metrics h)\<rparr>"

text \<open>The path past the fast lookup. \<^term>\<open>None\<close> is the undefined behaviour of a descriptor cache without entries.\<close>

definition stat_file :: "env \<Rightarrow> string \<Rightarrow> handler \<Rightarrow> (file_location \<times> handler) option" where
  "stat_file e path h =
     (let file_path = h_www_root h @ path
      in case env_stat e file_path of
           None \<Rightarrow> Some (FL_missing, h)
         | Some (st_size, st_mtime) \<Rightarrow>
             (case fd_validate path st_mtime (env_time e) (h_fd_cache h) of
                (file_fd, gone, c) \<Rightarrow>
                  (let h1 = h\<lparr>h_fd_cache := c\<rparr>
                   in if file_fd \<noteq> -1 then Some (FL_file file_fd st_size st_mtime, file_hit h1)
                      else
                        (let h2 = h1\<lparr>h_metrics := record_fd_cache_miss (h_metrics h1)\<rparr>
                         in case env_open e file_path of
                              None \<Rightarrow> Some (FL_unreadable, h2)
                            | Some fd \<Rightarrow>
                                (case fd_put path fd st_mtime (int st_size) (env_time e) (h_fd_cache h2) of
                                   None \<Rightarrow> None
                                 | Some (gone', c') \<Rightarrow>
                                     Some (FL_file fd st_size st_mtime,
                                       h2\<lparr>h_fd_cache := c', h_fd_offsets := put fd 0 (h_fd_offsets h2)\<rparr>))))))"

definition locate_file :: "env \<Rightarrow> string \<Rightarrow> handler \<Rightarrow> (file_location \<times> handler) option" where
  "locate_file e path h =
     (case fd_try_get path (env_time e) (h_fd_cache h) of
        ((file_fd, info), c) \<Rightarrow>
          (let h1 = h\<lparr>h_fd_cache := c\<rparr>
           in case (if file_fd \<noteq> -1 then info else None) of
                Some (cached_size, cached_mtime) \<Rightarrow> Some (FL_file file_fd (nat cached_size) cached_mtime, file_hit h1)
              | None \<Rightarrow> stat_file e path h1))"

text \<open>\<^verbatim>\<open>read\<close> goes on from the offset the last read of the descriptor left.\<close>

definition read_fd :: "env \<Rightarrow> int \<Rightarrow> nat \<Rightarrow> handler \<Rightarrow> string option \<times> handler" where
  "read_fd e fd n h =
     (case env_contents e fd of
        None \<Rightarrow> (None, h)
      | Some content \<Rightarrow>
          (let offset = (case map_of (h_fd_offsets h) fd of None \<Rightarrow> 0 | Some k \<Rightarrow> k);
               bytes = take n (drop offset content)
           in (Some bytes, h\<lparr>h_fd_offsets := put fd (offset + length bytes) (h_fd_offsets h)\<rparr>)))"

text \<open>Reading a small file into the content cache; a short read gives nothing.\<close>

definition read_small :: "env \<Rightarrow> string \<Rightarrow> int \<Rightarrow> nat \<Rightarrow> int \<Rightarrow> handler \<Rightarrow> string option \<times> handler" where
  "read_small e path fd st_size st_mtime h =
     (case read_fd e fd st_size h of
        (Some bytes, h1) \<Rightarrow>
          (if length bytes = st_size
           then (Some bytes, h1\<lparr>h_cache := file_cache_put path bytes st_size st_mtime (h_cache h1)\<rparr>)
           else (None, h1))
      | (None, h1) \<Rightarrow> (None, h1))"

definition MAX_INLINE :: nat where
  "MAX_INLINE = 1024 * 1024"

definition not_found_page :: "http_response \<Rightarrow> http_response" where
  "not_found_page resp = (answer 404 ''Not Found'' ''text/html'' ''<h1>404 Not Found</h1>'' resp)\<lparr>rsp_chunked := False\<rparr>"

definition server_error_page :: "http_response \<Rightarrow> http_response" where
  "server_error_page resp =
     (answer 500 ''Internal Server Error'' ''text/html'' ''<h1>500 Internal Server Error</h1>'' resp)\<lparr>rsp_chunked := False\<rparr>"

definition cache_lookup :: "string \<Rightarrow> int \<Rightarrow> handler \<Rightarrow> string option \<times> handler" where
  "cache_lookup key mtime h = (case file_cache_get key mtime (h_cache h) of (r, c) \<Rightarrow> (r, h\<lparr>h_cache := c\<rparr>))"

definition serve_gzip ::
  "env \<Rightarrow> string \<Rightarrow> int \<Rightarrow> nat \<Rightarrow> int \<Rightarrow> http_response \<Rightarrow> handler \<Rightarrow> (http_response \<times> bool) \<times> handler" where
  "serve_gzip e path fd st_size st_mtime resp h =
     (let gzip_key = path @ ''#gzip'';
          encoded = (\<lambda>body. answer 200 ''OK'' (get_content_type path) body (set_header ''Content-Encoding'' ''gzip'' resp))
      in case cache_lookup gzip_key st_mtime h of
           (Some compressed, h1) \<Rightarrow>
             ((encoded compressed, True), h1\<lparr>h_metrics := record_gzip_cache_hit (h_metrics h1)\<rparr>)
         | (None, h1) \<Rightarrow>
             (let (raw, h2) =
                    (case cache_lookup path st_mtime h1 of
                       (Some c, h') \<Rightarrow> (Some c, h')
                     | (None, h') \<Rightarrow>
                         read_small e path fd st_size st_mtime (h'\<lparr>h_metrics := record_cache_miss (h_metrics h')\<rparr>))
              in case raw of
                   None \<Rightarrow> ((server_error_page resp, False), h2)
                 | Some content \<Rightarrow>
                     (case gzip_compress e content of
                        Some compressed \<Rightarrow>
                          ((encoded compressed, True),
                           h2\<lparr>h_cache := file_cache_put gzip_key compressed (length compressed) st_mtime (h_cache h2),
                              h_metrics := record_gzip_cache_miss (h_metrics h2)\<rparr>)
                      | None \<Rightarrow> ((answer 200 ''OK'' (get_content_type path) content resp, False), h2))))"

definition serve_plain ::
  "env \<Rightarrow> nat \<Rightarrow> string \<Rightarrow> int \<Rightarrow> nat \<Rightarrow> int \<Rightarrow> http_response \<Rightarrow> handler \<Rightarrow> (http_response \<times> bool) \<times> handler" where
  "serve_plain e s path fd st_size st_mtime resp h =
     (if st_size \<le> MAX_INLINE then
        (case cache_lookup path st_mtime h of
           (Some cached, h1) \<Rightarrow>
             ((answer 200 ''OK'' (get_content_type path) cached resp, False),
              h1\<lparr>h_metrics := record_cache_hit (h_metrics h1)\<rparr>)
         | (None, h1) \<Rightarrow>
             (case read_small e path fd st_size st_mtime h1 of
                (None, h2) \<Rightarrow> ((server_error_page resp, False), h2)
              | (Some content, h2) \<Rightarrow>
                  ((answer 200 ''OK'' (get_content_type path) content resp, False),
                   h2\<lparr>h_metrics := record_cache_miss (h_metrics h2)\<rparr>)))
      else
        ((set_header ''Content-Length'' (dec st_size)
            ((set_header ''Content-Type'' (get_content_type path)
               (resp\<lparr>rsp_status_code := 200, rsp_status_message := ''OK''\<rparr>))\<lparr>rsp_body := []\<rparr>), False),
         h\<lparr>h_file_fds := put s fd (h_file_fds h), h_file_offsets := put s 0 (h_file_offsets h),
           h_file_sizes := put s st_size (h_file_sizes h)\<rparr>))"

definition wants_gzip :: "http_request \<Rightarrow> bool" where
  "wants_gzip req = (case map_of (req_headers req) ''accept-encoding'' of
     None \<Rightarrow> False | Some v \<Rightarrow> str_find ''gzip'' v 0 \<noteq> None)"

definition static_response ::
  "env \<Rightarrow> nat \<Rightarrow> http_request \<Rightarrow> http_response \<Rightarrow> handler \<Rightarrow> ((http_response \<times> bool) \<times> handler) option" where
  "static_response e s req resp h =
     (let path = (if req_path req = [] \<or> req_path req = ''/'' then ''/index.html'' else req_path req)
      in if req_method req \<noteq> ''GET'' \<and> req_method req \<noteq> ''HEAD'' then
           Some (((answer 405 ''Method Not Allowed'' ''text/html'' ''<h1>405 Method Not Allowed</h1>'' resp)
                    \<lparr>rsp_chunked := False\<rparr>, False), h)
         else if is_safe_static_path (env_canon e) ''/'' path (h_www_root h) = None then
           Some (((answer 403 ''Forbidden'' ''text/html'' ''<h1>403 Forbidden</h1>'' resp)\<lparr>rsp_chunked := False\<rparr>, False), h)
         else
           (case locate_file e path h of
              None \<Rightarrow> None
            | Some (FL_missing, h1) \<Rightarrow> Some ((not_found_page resp, False), h1)
            | Some (FL_unreadable, h1) \<Rightarrow> Some ((server_error_page resp, False), h1)
            | Some (FL_file fd st_size st_mtime, h1) \<Rightarrow>
                Some (if fd \<ge> 0 then
                        (if wants_gzip req \<and> st_size \<le> MAX_INLINE
                         then serve_gzip e path fd st_size st_mtime resp h1
                         else serve_plain e s path fd st_size st_mtime resp h1)
                      else ((not_found_page resp, False), h1))))"

subsection \<open>Answering a request\<close>

definition send_response :: "env \<Rightarrow> nat \<Rightarrow> http_request \<Rightarrow> resolved_route \<Rightarrow> handler \<Rightarrow> handler result" where
  "send_response e s req matched h0 =
     (let (tid, c1) = trace_id_header e req (h_trace_counter h0);
          (tp, c2) = traceparent_header e req c1;
          resp = set_header ''Traceparent'' tp (set_header ''X-Trace-Id'' tid http_response_default);
          h = h0\<lparr>h_last_requests := put s req (h_last_requests h0), h_trace_counter := c2\<rparr>
      in case rs_route matched of
           None \<Rightarrow>
             (case static_response e s req resp h of
                None \<Rightarrow> Hang h
              | Some ((resp1, already_compressed), h1) \<Rightarrow> finalize_response e s req resp1 already_compressed h1)
         | Some r \<Rightarrow>
             if rt_target_type (rr_route r) = ''upstream'' then start_upstream_exchange e s req (rr_route r) h
             else if rt_target_type (rr_route r) = ''composite'' then
               start_composite_exchange e s req (rr_route r) (at_default [] s (h_client_ip_map h)) h
             else
               (case dispatch_route e (h_config h) (h_upstream_manager h) (h_metrics h) req matched resp of
                  None \<Rightarrow> Raise h
                | Some resp1 \<Rightarrow>
                    (let (tid', c3) = trace_id_header e req c2;
                         resp2 = set_header ''X-Trace-Id'' tid' resp1;
                         (resp3, c4) =
                           (if has_key ''Traceparent'' (rsp_headers resp2) then (resp2, c3)
                            else case traceparent_header e req c3 of (tp', c) \<Rightarrow> (set_header ''Traceparent'' tp' resp2, c))
                     in finalize_response e s req resp3 False (h\<lparr>h_trace_counter := c4\<rparr>))))"

subsection \<open>The gates of a request\<close>

text \<open>What \<^verbatim>\<open>handle_read\<close> adds to a parsed request: host, tenant and the trace identifiers.\<close>

definition annotate_request :: "env \<Rightarrow> http_request \<Rightarrow> u64 \<Rightarrow> http_request \<times> u64" where
  "annotate_request e req0 counter =
     (let hs = req_headers req0;
          req1 = (case map_of hs ''host'' of None \<Rightarrow> req0 | Some v \<Rightarrow> req0\<lparr>req_host := v\<rparr>);
          req2 = (case map_of hs ''x-tenant-id'' of None \<Rightarrow> req1 | Some v \<Rightarrow> req1\<lparr>req_tenant := v\<rparr>);
          (req3, c1) =
            (if req_trace_id req2 \<noteq> [] then (req2, counter)
             else case map_of hs ''x-trace-id'' of
                    Some v \<Rightarrow> (req2\<lparr>req_trace_id := v\<rparr>, counter)
                  | None \<Rightarrow>
                      (let parsed = (case map_of hs ''traceparent'' of None \<Rightarrow> [] | Some tp \<Rightarrow> parse_trace_id_from_traceparent tp)
                       in if parsed \<noteq> [] then (req2\<lparr>req_trace_id := parsed\<rparr>, counter)
                          else case generate_trace_id (env_now e) counter of (tid, c) \<Rightarrow> (req2\<lparr>req_trace_id := tid\<rparr>, c)));
          (req4, c2) =
            (if has_key ''traceparent'' hs then (req3, c1)
             else case generate_traceparent (env_hash e) (env_now e) [] [] c1 of
                    (tp, c) \<Rightarrow> (req3\<lparr>req_headers := put ''traceparent'' tp hs\<rparr>, c))
      in (req4\<lparr>req_headers := put ''x-trace-id'' (req_trace_id req4) (req_headers req4)\<rparr>, c2))"

definition route_name :: "gateway_route \<Rightarrow> string" where
  "route_name route = (if rt_name route = [] then rt_path route else rt_name route)"

text \<open>The authentication gate: \<^term>\<open>None\<close> refuses, otherwise the configuration of the key, if one was asked for.\<close>

definition check_auth :: "api_keys \<Rightarrow> gateway_route \<Rightarrow> http_request \<Rightarrow> api_key_config option option" where
  "check_auth keys route req =
     (if rt_auth_required route \<and> \<not> rt_allow_anonymous route then
        (let key = extract_api_key req;
             host = header_or [] ''host'' (req_headers req);
             tenant = header_or [] ''x-tenant-id'' (req_headers req)
         in if key = [] \<or> \<not> authorize keys key route host tenant then None
            else Some (ApiKeyManager_get keys key))
      else Some None)"

definition reset_parser :: "nat \<Rightarrow> handler \<Rightarrow> handler" where
  "reset_parser s h = h\<lparr>h_parsers := put s (parser_reset (at_default parser_init s (h_parsers h))) (h_parsers h)\<rparr>"

text \<open>A request that is answered with an error; the connection is to be closed after it.\<close>

definition refuse_request :: "nat \<Rightarrow> http_request \<Rightarrow> int \<Rightarrow> string \<Rightarrow> string \<Rightarrow> handler \<Rightarrow> handler result" where
  "refuse_request s req status message allow h =
     and_then (send_error_response s status message allow (h\<lparr>h_last_requests := put s req (h_last_requests h)\<rparr>))
       (\<lambda>h'. Ret (reset_parser s h'))"

definition allowed_methods :: "string list" where
  "allowed_methods = [''GET'', ''HEAD'', ''POST'', ''PUT'', ''DELETE'']"

definition request_keeps_alive :: "http_request \<Rightarrow> bool" where
  "request_keeps_alive req = (case map_of (req_headers req) ''connection'' of None \<Rightarrow> True | Some conn \<Rightarrow> lower conn \<noteq> ''close'')"

text \<open>\<^verbatim>\<open>continue\<close>: parse the next request of the buffer; \<^verbatim>\<open>break\<close>: the response is on its way.\<close>

datatype flow = Next_request | Request_done

definition serve_routed ::
  "env \<Rightarrow> nat \<Rightarrow> string \<Rightarrow> http_request \<Rightarrow> resolved_route \<Rightarrow> gateway_route \<Rightarrow> handler \<Rightarrow> handler result \<times> flow" where
  "serve_routed e s client_ip req resolved route h =
     (case check_auth (h_api_keys h) route req of
        None \<Rightarrow> (refuse_request s req 401 ''Unauthorized'' [] h, Next_request)
      | Some api_key_cfg \<Rightarrow>
          (case should_rate_limit e (h_config h) req route client_ip api_key_cfg (h_rate_limiter_manager h) of
             (limited, rlm) \<Rightarrow>
               (let h1 = h\<lparr>h_rate_limiter_manager := rlm\<rparr>
                in if limited then (refuse_request s req 429 ''Too Many Requests'' [] h1, Next_request)
                   else if req_method req \<notin> set allowed_methods
                     then (refuse_request s req 405 ''Method Not Allowed'' [] h1, Next_request)
                   else
                     (and_then
                        (send_response e s req resolved
                           (h1\<lparr>h_keep_alive := put s (request_keeps_alive req) (h_keep_alive h1)\<rparr>))
                        (\<lambda>h'. Ret (reset_parser s h')), Request_done))))"

definition serve_request :: "env \<Rightarrow> nat \<Rightarrow> string \<Rightarrow> handler \<Rightarrow> handler result \<times> flow" where
  "serve_request e s client_ip h0 =
     (let (req, counter) = annotate_request e (at_default request_clear s (h_requests h0)) (h_trace_counter h0);
          h = h0\<lparr>h_metrics := record_total_request (h_metrics h0), h_trace_counter := counter,
                 h_requests := put s req (h_requests h0)\<rparr>;
          resolved = resolve_route (h_routes h) req
      in case rs_route resolved of
           None \<Rightarrow>
             (if rs_path_matched resolved
              then (refuse_request s req 405 ''Method Not Allowed'' (rs_allow_methods resolved) h, Next_request)
              else
                (and_then (send_response e s req resolved (h\<lparr>h_last_requests := put s req (h_last_requests h)\<rparr>))
                   (\<lambda>h'. Ret (reset_parser s h')), Next_request))
         | Some r \<Rightarrow>
             (let req' = req\<lparr>req_headers := put ''x-route-name'' (route_name (rr_route r)) (req_headers req)\<rparr>
              in serve_routed e s client_ip req' resolved (rr_route r) (h\<lparr>h_requests := put s req' (h_requests h)\<rparr>)))"

subsection \<open>What answering a request leaves alone\<close>

lemma same_frame_cong:
  "\<lbrakk>same_frame s h0 h; steady h0' = steady h0; response_entries s h0' = response_entries s h0\<rbrakk> \<Longrightarrow> same_frame s h0' h"
  by (simp add: same_frame_def)

lemma frame_file_hit: "same_frame s h (file_hit h)"
  by (simp add: file_hit_def frame_defs)

lemma frame_stat:
  assumes "stat_file e path h = Some (loc, h')"
  shows "same_frame s h h'"
proof -
  have f: "same_frame s h (h\<lparr>h_fd_cache := c\<rparr>)" "same_frame s h (file_hit (h\<lparr>h_fd_cache := c\<rparr>))"
    "same_frame s h (h\<lparr>h_fd_cache := c, h_metrics := m\<rparr>)"
    "same_frame s h (h\<lparr>h_metrics := m, h_fd_cache := c, h_fd_offsets := offs\<rparr>)"
    "same_frame s h (h\<lparr>h_fd_cache := c, h_metrics := m, h_fd_offsets := offs\<rparr>)" for c m offs
    by (simp_all add: frame_defs file_hit_def)
  show ?thesis
  proof (cases "env_stat e (h_www_root h @ path)")
    case (Some sm)
    obtain sz mt where sm: "sm = (sz, mt)" by fastforce
    obtain fd gone c where v: "fd_validate path mt (env_time e) (h_fd_cache h) = (fd, gone, c)" by (metis surj_pair)
    show ?thesis
    proof (cases "fd = -1 \<and> env_open e (h_www_root h @ path) \<noteq> None")
      case True
      then obtain ofd where o: "fd = -1" "env_open e (h_www_root h @ path) = Some ofd" by blast
      from assms obtain p where "fd_put path ofd mt (int sz) (env_time e) c = Some p"
        by (auto simp: stat_file_def Some sm v o Let_def split: option.splits)
      with assms show ?thesis
        by (cases p) (auto simp: stat_file_def Some sm v o Let_def f)
    next
      case False
      with assms show ?thesis
        by (auto simp: stat_file_def Some sm v Let_def f split: if_splits)
    qed
  qed (use assms in \<open>simp add: stat_file_def Let_def\<close>)
qed

lemma frame_locate:
  assumes "locate_file e path h = Some (loc, h')"
  shows "same_frame s h h'"
proof -
  obtain fd info c where g: "fd_try_get path (env_time e) (h_fd_cache h) = ((fd, info), c)" by (metis surj_pair)
  have c: "same_frame s h (h\<lparr>h_fd_cache := c\<rparr>)" by (simp add: frame_defs)
  show ?thesis
  proof (cases "if fd \<noteq> -1 then info else None")
    case None
    then show ?thesis using assms c frame_stat by (auto simp: locate_file_def g intro: same_frame_trans)
  next
    case (Some p)
    then show ?thesis
      using assms c frame_file_hit by (cases p) (auto simp: locate_file_def g intro: same_frame_trans)
  qed
qed

lemma frame_cache_lookup: "same_frame s h (snd (cache_lookup key mtime h))"
  by (simp add: cache_lookup_def frame_defs split: prod.split)

lemma frame_read_fd: "same_frame s h (snd (read_fd e fd n h))"
  unfolding read_fd_def Let_def by (cases "env_contents e fd") (simp_all add: frame_defs)

lemma frame_read_small: "same_frame s h (snd (read_small e path fd sz mtime h))"
proof -
  obtain b h1 where r: "read_fd e fd sz h = (b, h1)" by fastforce
  then have "same_frame s h h1" using frame_read_fd by (metis snd_conv)
  moreover have "same_frame s h1 (h1\<lparr>h_cache := fc\<rparr>)" for fc by (simp add: frame_defs)
  ultimately show ?thesis
    by (cases b) (auto simp: read_small_def r intro: same_frame_trans)
qed

lemma frame_serve_plain: "same_frame s h (snd (serve_plain e s path fd sz mtime resp h))"
proof -
  obtain c h1 where c: "cache_lookup path mtime h = (c, h1)" by fastforce
  then have 1: "same_frame s h h1" using frame_cache_lookup by (metis snd_conv)
  obtain b h2 where b: "read_small e path fd sz mtime h1 = (b, h2)" by fastforce
  then have "same_frame s h1 h2" using frame_read_small by (metis snd_conv)
  with 1 have 2: "same_frame s h h2" by (rule same_frame_trans)
  have "same_frame s h (h'\<lparr>h_metrics := m\<rparr>)" if "same_frame s h h'" for h' m using that by (simp add: frame_defs)
  with 1 2 show ?thesis
    by (cases c; cases b) (simp_all add: serve_plain_def c b, simp_all add: frame_defs)
qed

lemma frame_serve_gzip: "same_frame s h (snd (serve_gzip e path fd sz mtime resp h))"
proof -
  obtain g h1 where g: "cache_lookup (path @ ''#gzip'') mtime h = (g, h1)" by fastforce
  then have 1: "same_frame s h h1" using frame_cache_lookup by (metis snd_conv)
  obtain c h2 where c: "cache_lookup path mtime h1 = (c, h2)" by fastforce
  then have "same_frame s h1 h2" using frame_cache_lookup by (metis snd_conv)
  with 1 have 2: "same_frame s h h2" by (rule same_frame_trans)
  have m: "same_frame s h (h'\<lparr>h_metrics := m\<rparr>)" if "same_frame s h h'" for h' m using that by (simp add: frame_defs)
  obtain b h3 where b: "read_small e path fd sz mtime (h2\<lparr>h_metrics := record_cache_miss (h_metrics h2)\<rparr>) = (b, h3)" by fastforce
  then have "same_frame s (h2\<lparr>h_metrics := record_cache_miss (h_metrics h2)\<rparr>) h3" using frame_read_small by (metis snd_conv)
  with m [OF 2] have 3: "same_frame s h h3" by (rule same_frame_trans)
  have "same_frame s h (h'\<lparr>h_cache := fc, h_metrics := m\<rparr>)" if "same_frame s h h'" for h' fc m using that by (simp add: frame_defs)
  with 1 2 3 m show ?thesis
    by (cases g; cases c; cases b) (simp_all add: serve_gzip_def g c b Let_def split: option.split)
qed

lemma frame_static:
  assumes "static_response e s req resp h = Some (r, h')"
  shows "same_frame s h h'"
proof -
  let ?path = "if req_path req = [] \<or> req_path req = ''/'' then ''/index.html'' else req_path req"
  have g: "same_frame s h h2" if "locate_file e ?path h = Some (loc, h1)" "serve_gzip e ?path fd sz mt resp h1 = (x, h2)" for loc h1 fd sz mt x h2
    using frame_locate [OF that(1)] frame_serve_gzip [of s h1 e ?path fd sz mt resp] that(2) by (auto intro: same_frame_trans)
  have p: "same_frame s h h2" if "locate_file e ?path h = Some (loc, h1)" "serve_plain e s ?path fd sz mt resp h1 = (x, h2)" for loc h1 fd sz mt x h2
    using frame_locate [OF that(1)] frame_serve_plain [of s h1 e ?path fd sz mt resp] that(2) by (auto intro: same_frame_trans)
  show ?thesis
    using assms g p unfolding static_response_def Let_def
    by (auto split: if_splits option.splits prod.splits file_location.splits intro: frame_locate)
qed

lemma frame_send_response: "same_frame s h (state_of (send_response e s req matched h))"
proof -
  obtain tid c1 where t1: "trace_id_header e req (h_trace_counter h) = (tid, c1)" by fastforce
  obtain tp c2 where t2: "traceparent_header e req c1 = (tp, c2)" by fastforce
  obtain tid' c3 where t3: "trace_id_header e req c2 = (tid', c3)" by fastforce
  obtain tp' c4 where t4: "traceparent_header e req c3 = (tp', c4)" by fastforce
  let ?h = "h\<lparr>h_last_requests := put s req (h_last_requests h), h_trace_counter := c2\<rparr>"
  have f: "same_frame s h (h\<lparr>h_last_requests := put s req (h_last_requests h), h_trace_counter := c\<rparr>)" for c
    by (simp add: frame_defs)
  note f0 = f [of c2] and after = f [THEN same_frame_trans]
  have st: "same_frame s h (state_of (finalize_response e s req r ac h1))"
    if "static_response e s req resp ?h = Some (x, h1)" for resp r ac x h1
    using f0 frame_static [OF that] frame_finalize by (blast intro: same_frame_trans)
  show ?thesis
    unfolding send_response_def t1 Let_def prod.case t2
    by (auto simp: t3 t4 f0 st intro!: after [OF frame_finalize] after [OF frame_start_upstream] after [OF frame_start_composite]
        split: option.split prod.split)
qed

text \<open>A whole request also changes its connection's parser and request, and the rate limiter.\<close>

definition reader :: "handler \<Rightarrow> string conn_map \<times> read_answer list \<times> write_answer list \<times> (nat \<times> string) list" where
  "reader h = (h_read_bufs h, h_reads h, h_writes h, h_sent h)"

definition elsewhere :: "nat \<Rightarrow> handler \<Rightarrow>
    ((nat \<Rightarrow> client_socket option) \<times> (nat \<Rightarrow> string option) \<times> (nat \<Rightarrow> string list option) \<times> (nat \<Rightarrow> bool option)) \<times>
    ((nat \<Rightarrow> parser option) \<times> (nat \<Rightarrow> http_request option) \<times> (nat \<Rightarrow> bool option) \<times> (nat \<Rightarrow> int option)) \<times>
    ((nat \<Rightarrow> nat option) \<times> (nat \<Rightarrow> nat option) \<times> (nat \<Rightarrow> string option) \<times> (nat \<Rightarrow> ssl_want option)) \<times>
    ((nat \<Rightarrow> int option) \<times> (nat \<Rightarrow> nat option) \<times> (nat \<Rightarrow> string option) \<times> (nat \<Rightarrow> int option)) \<times>
    ((nat \<Rightarrow> http_request option) \<times> (nat \<Rightarrow> exchange_state option))" where
  "elsewhere s h =
     ((others s (h_sockets h), others s (h_read_bufs h), others s (h_send_queues h), others s (h_request_ready h)),
      (others s (h_parsers h), others s (h_requests h), others s (h_keep_alive h), others s (h_file_fds h)),
      (others s (h_file_offsets h), others s (h_file_sizes h), others s (h_ssl_file_buffers h), others s (h_pending_ssl_writes h)),
      (others s (h_resp_status h), others s (h_resp_size h), others s (h_client_ip_map h), others s (h_request_start_time h)),
      (others s (h_last_requests h), others s (h_client_upstream h)))"

definition keeps :: "nat \<Rightarrow> handler \<Rightarrow> handler \<Rightarrow> bool" where
  "keeps s h h' \<longleftrightarrow> reader h' = reader h \<and> elsewhere s h' = elsewhere s h"

lemmas keeps_defs = keeps_def reader_def elsewhere_def

lemma keeps_refl [simp]: "keeps s h h"
  by (simp add: keeps_def)

lemma keeps_trans: "\<lbrakk>keeps s h1 h2; keeps s h2 h3\<rbrakk> \<Longrightarrow> keeps s h1 h3"
  by (simp add: keeps_def)

lemma keeps_frame: "same_frame s h h' \<Longrightarrow> keeps s h h'"
  by (simp add: keeps_defs frame_defs)

lemma keeps_reset:
  assumes "keeps s h (state_of r)"
  shows "keeps s h (state_of (and_then r (\<lambda>h'. Ret (reset_parser s h'))))"
proof -
  have "keeps s h' (reset_parser s h')" for h' by (simp add: keeps_defs reset_parser_def)
  then show ?thesis using assms by (cases r) (auto intro: keeps_trans)
qed

lemma keeps_refuse: "keeps s h (state_of (refuse_request s req status message allow h))"
proof -
  have "keeps s h (h\<lparr>h_last_requests := put s req (h_last_requests h)\<rparr>)" by (simp add: keeps_defs)
  then have "keeps s h (state_of (send_error_response s status message allow (h\<lparr>h_last_requests := put s req (h_last_requests h)\<rparr>)))"
    using keeps_frame [OF frame_send_error] by (rule keeps_trans)
  then show ?thesis unfolding refuse_request_def by (rule keeps_reset)
qed

lemma keeps_serve_routed: "keeps s h (state_of (fst (serve_routed e s ip req resolved route h)))"
proof -
  obtain lim rlm where rl: "should_rate_limit e (h_config h) req route ip (the (check_auth (h_api_keys h) route req))
      (h_rate_limiter_manager h) = (lim, rlm)" by fastforce
  let ?h = "h\<lparr>h_rate_limiter_manager := rlm\<rparr>"
  have 1: "keeps s h ?h" by (simp add: keeps_defs)
  have 2: "keeps s h (?h\<lparr>h_keep_alive := put s k (h_keep_alive ?h)\<rparr>)" for k by (simp add: keeps_defs)
  note sr = 2 [THEN keeps_trans, OF keeps_frame [OF frame_send_response], THEN keeps_reset]
  show ?thesis
    using rl keeps_refuse 1 [THEN keeps_trans, OF keeps_refuse] sr
    by (cases "check_auth (h_api_keys h) route req") (simp_all add: serve_routed_def Let_def)
qed

lemma keeps_serve_request: "keeps s h (state_of (fst (serve_request e s ip h)))"
proof -
  obtain req c where an: "annotate_request e (at_default request_clear s (h_requests h)) (h_trace_counter h) = (req, c)" by fastforce
  let ?h = "h\<lparr>h_metrics := record_total_request (h_metrics h), h_trace_counter := c, h_requests := put s req (h_requests h)\<rparr>"
  have 1: "keeps s h ?h" "keeps s h (?h\<lparr>h_last_requests := put s req (h_last_requests ?h)\<rparr>)"
    "keeps s h (?h\<lparr>h_requests := put s req' (h_requests ?h)\<rparr>)" for req'
    by (simp_all add: keeps_defs)
  note ref = 1(1) [THEN keeps_trans, OF keeps_refuse] and routed = 1(3) [THEN keeps_trans, OF keeps_serve_routed]
  note fallback = 1(2) [THEN keeps_trans, OF keeps_frame [OF frame_send_response], THEN keeps_reset]
  show ?thesis
    unfolding serve_request_def an prod.case Let_def
    using ref routed fallback by (simp split: option.split)
qed

subsection \<open>Reading\<close>

text \<open>The left result leaves \<^verbatim>\<open>handle_read\<close>; the right one goes on with the reading loop.\<close>

lemma parse_loop_progress:
  "parse_loop st n data = (b, st', m) \<Longrightarrow> n \<le> m \<and> m \<le> n + length data \<and> (data \<noteq> [] \<longrightarrow> n < m) \<and> (b \<longrightarrow> n < m)"
proof (induction data arbitrary: st n)
  case Nil
  then show ?case by (cases st) auto
next
  case (Cons c cs)
  obtain p r where st: "st = (p, r)" by fastforce
  obtain v p' r' where step: "parse_step p r c = (v, p', r')" by (metis surj_pair)
  show ?case
    using Cons.prems Cons.IH [of "(p', r')" "n + 1"] by (cases v) (auto simp: st step split: if_splits)
qed

lemma parse_progress:
  "parse p data r = (b, pr, m) \<Longrightarrow> m \<le> length data \<and> (data \<noteq> [] \<longrightarrow> 0 < m) \<and> (b \<longrightarrow> 0 < m)"
  using parse_loop_progress [of "(p, r)" 0 data] by (simp add: parse_def)

definition buffer_of :: "nat \<Rightarrow> handler \<Rightarrow> string" where
  "buffer_of s h = at_default [] s (h_read_bufs h)"

definition take_parsed :: "nat \<Rightarrow> parser \<times> http_request \<Rightarrow> nat \<Rightarrow> handler \<Rightarrow> handler" where
  "take_parsed s pr consumed h =
     h\<lparr>h_parsers := put s (fst pr) (h_parsers h), h_requests := put s (snd pr) (h_requests h),
       h_read_bufs := put s (drop consumed (buffer_of s h)) (h_read_bufs h)\<rparr>"

definition reject_malformed :: "nat \<Rightarrow> parse_error \<Rightarrow> http_request \<Rightarrow> handler \<Rightarrow> handler result" where
  "reject_malformed s err req h =
     and_then
       (if err = BODY_TOO_LARGE
        then send_error_response s 413 ''Payload Too Large'' [] (h\<lparr>h_last_requests := put s req (h_last_requests h)\<rparr>)
        else send_error_response s 400 ''Bad Request'' [] (h\<lparr>h_last_requests := put s req (h_last_requests h)\<rparr>))
       (\<lambda>h'. let h1 = reset_parser s h' in Ret (h1\<lparr>h_requests := put s request_clear (h_requests h1)\<rparr>))"

function serve_buffered :: "env \<Rightarrow> nat \<Rightarrow> string \<Rightarrow> handler \<Rightarrow> handler result + handler" where
  "serve_buffered e s client_ip h =
     (case parse (at_default parser_init s (h_parsers h)) (buffer_of s h) (at_default request_clear s (h_requests h)) of
        (parsed, pr, consumed) \<Rightarrow>
          (let h1 = take_parsed s pr consumed h
           in if parsed then
                (case serve_request e s client_ip h1 of
                   (Ret h2, Next_request) \<Rightarrow> serve_buffered e s client_ip h2
                 | (Ret h2, Request_done) \<Rightarrow> if has_key s (h_client_upstream h2) then Inl (Ret h2) else Inr h2
                 | (r, _) \<Rightarrow> Inl r)
              else if p_parse_error (fst pr) \<noteq> PE_NONE then
                (case reject_malformed s (p_parse_error (fst pr)) (snd pr) h1 of
                   Ret h2 \<Rightarrow> Inr h2
                 | r \<Rightarrow> Inl r)
              else Inr h1))"
  by pat_completeness auto
termination
proof (relation "measure (\<lambda>(e, s, client_ip, h). length (buffer_of s h))", goal_cases)
  case (2 e s client_ip h parsed y pr consumed h1 r fl h2)
  then have "keeps s h1 h2" using keeps_serve_request [of s h1 e client_ip] by (metis fst_conv state_of.simps(1))
  then have "buffer_of s h2 = buffer_of s h1" by (simp add: keeps_defs buffer_of_def)
  moreover have "consumed \<le> length (buffer_of s h)" "0 < consumed"
    using 2 parse_progress [of _ "buffer_of s h" _ parsed pr consumed] by auto
  ultimately show ?case using 2 by (simp add: take_parsed_def buffer_of_def at_default_def)
qed simp

declare serve_buffered.simps [simp del]

lemma keeps_reject: "keeps s h (state_of (reject_malformed s err req h))"
proof -
  have "keeps s h (h\<lparr>h_last_requests := put s req (h_last_requests h)\<rparr>)" by (simp add: keeps_defs)
  note ser = this [THEN keeps_trans, OF keeps_frame [OF frame_send_error]]
  have post: "keeps s h' ((reset_parser s h')\<lparr>h_requests := put s request_clear (h_requests (reset_parser s h'))\<rparr>)" for h'
    by (simp add: keeps_defs reset_parser_def)
  have "keeps s h (state_of (and_then r (\<lambda>h'. let h1 = reset_parser s h' in Ret (h1\<lparr>h_requests := put s request_clear (h_requests h1)\<rparr>))))"
    if "keeps s h (state_of r)" for r
    using that post by (cases r) (auto simp: Let_def intro: keeps_trans)
  with ser show ?thesis by (simp add: reject_malformed_def)
qed

text \<open>What a round over the buffer does to it: it gets shorter, unless it was empty.\<close>

definition consumes :: "nat \<Rightarrow> handler \<Rightarrow> handler \<Rightarrow> bool" where
  "consumes s h h' \<longleftrightarrow> h_reads h' = h_reads h \<and> h_writes h' = h_writes h \<and> h_sent h' = h_sent h \<and>
     elsewhere s h' = elsewhere s h \<and> length (buffer_of s h') \<le> length (buffer_of s h) \<and>
     (buffer_of s h \<noteq> [] \<longrightarrow> length (buffer_of s h') < length (buffer_of s h))"

lemma consumes_keeps: "\<lbrakk>consumes s h h'; keeps s h' h''\<rbrakk> \<Longrightarrow> consumes s h h''"
  by (simp add: consumes_def keeps_def reader_def buffer_of_def)

lemma consumes_trans: "\<lbrakk>consumes s h h'; consumes s h' h''\<rbrakk> \<Longrightarrow> consumes s h h''"
  unfolding consumes_def by auto

lemma consumes_take:
  assumes "parse p (buffer_of s h) r = (b, pr, m)"
  shows "consumes s h (take_parsed s pr m h)"
  using parse_progress [OF assms]
  by (cases "buffer_of s h") (auto simp: consumes_def take_parsed_def elsewhere_def buffer_of_def at_default_def)

lemma serve_buffered_consumes:
  "case serve_buffered e s ip h of Inl r \<Rightarrow> consumes s h (state_of r) | Inr h' \<Rightarrow> consumes s h h'"
proof (induction e s ip h rule: serve_buffered.induct)
  case (1 e s ip h)
  obtain b pr m where p: "parse (at_default parser_init s (h_parsers h)) (buffer_of s h) (at_default request_clear s (h_requests h)) = (b, pr, m)"
    by (metis surj_pair)
  let ?h1 = "take_parsed s pr m h"
  have c: "consumes s h ?h1" by (rule consumes_take [OF p])
  show ?case
  proof (cases b)
    case True
    obtain r fl where sr: "serve_request e s ip ?h1 = (r, fl)" by fastforce
    have c2: "consumes s h (state_of r)"
      using consumes_keeps [OF c keeps_serve_request [of s ?h1 e ip]] sr by simp
    show ?thesis
    proof (cases "\<exists>h2. r = Ret h2 \<and> fl = Next_request")
      case nx: True
      then obtain h2 where h2: "r = Ret h2" "fl = Next_request" by blast
      have "case serve_buffered e s ip h2 of Inl r \<Rightarrow> consumes s h2 (state_of r) | Inr h' \<Rightarrow> consumes s h2 h'"
        using "1.IH" [OF p [symmetric] refl refl True sr [symmetric] h2] .
      then show ?thesis
        using c2 h2 True sr by (subst serve_buffered.simps) (auto simp: p Let_def split: sum.splits intro: consumes_trans)
    next
      case False
      then show ?thesis
        using c2 True sr by (subst serve_buffered.simps) (auto simp: p Let_def split: result.splits flow.splits)
    qed
  next
    case False
    have "consumes s h (state_of (reject_malformed s (p_parse_error (fst pr)) (snd pr) ?h1))"
      by (rule consumes_keeps [OF c keeps_reject])
    then show ?thesis
      using c False by (subst serve_buffered.simps) (auto simp: p Let_def split: result.splits)
  qed
qed

text \<open>One call of \<^verbatim>\<open>recv\<close> or \<^verbatim>\<open>sslRead\<close> with a buffer of 4096 bytes.\<close>

definition kReadSize :: nat where
  "kReadSize = 4096"

function read_loop :: "env \<Rightarrow> nat \<Rightarrow> string \<Rightarrow> handler \<Rightarrow> handler result" where
  "read_loop e s client_ip h =
     (if buffer_of s h \<noteq> [] then
        (case serve_buffered e s client_ip h of
           Inl r \<Rightarrow> r
         | Inr h1 \<Rightarrow> read_loop e s client_ip h1)
      else
        (let h0 = h\<lparr>h_read_bufs := put s [] (h_read_bufs h)\<rparr>
         in case h_reads h of
              [] \<Rightarrow> Hang h0
            | Rd_again # as \<Rightarrow> rearm_reads s (h0\<lparr>h_reads := as\<rparr>)
            | Rd_fail # as \<Rightarrow> Raise (h0\<lparr>h_reads := as\<rparr>)
            | Rd bytes # as \<Rightarrow>
                (if bytes = [] then Ret (cleanup_conn s (h0\<lparr>h_reads := as\<rparr>))
                 else
                   (case serve_buffered e s client_ip
                           (h0\<lparr>h_reads := as, h_read_bufs := put s (take kReadSize bytes) (h_read_bufs h0)\<rparr>) of
                      Inl r \<Rightarrow> r
                    | Inr h1 \<Rightarrow> read_loop e s client_ip h1))))"
  by pat_completeness auto
termination
proof (relation "measures [\<lambda>(e, s, ip, h). length (h_reads h), \<lambda>(e, s, ip, h). length (buffer_of s h)]", goal_cases)
  case (2 e s ip h h1)
  then show ?case
    using serve_buffered_consumes [where e = e and s = s and ip = ip and h = h] by (auto simp: consumes_def dest: sym)
next
  case (3 e s ip h h0 a as bytes h1)
  then show ?case
    using serve_buffered_consumes [where e = e and s = s and ip = ip and h = "h0\<lparr>h_reads := as, h_read_bufs := put s (take kReadSize bytes) (h_read_bufs h0)\<rparr>"]
    by (auto simp: consumes_def dest: sym)
qed simp

declare read_loop.simps [simp del]

definition handle_read :: "env \<Rightarrow> nat \<Rightarrow> string \<Rightarrow> handler \<Rightarrow> handler result" where
  "handle_read e s client_ip h =
     (case read_loop e s client_ip
             (h\<lparr>h_client_ip_map := put s client_ip (h_client_ip_map h),
                h_request_start_time := put s (env_now e) (h_request_start_time h)\<rparr>) of
        Raise h' \<Rightarrow> Ret (cleanup_conn s h')
      | r \<Rightarrow> r)"

text \<open>What a call does to the input of its connection, and that it touches no other one.\<close>

definition progresses :: "nat \<Rightarrow> handler \<Rightarrow> handler \<Rightarrow> bool" where
  "progresses s h h' \<longleftrightarrow> elsewhere s h' = elsewhere s h \<and> h_writes h' = h_writes h \<and> h_sent h' = h_sent h \<and>
     (length (h_reads h') < length (h_reads h) \<or>
      h_reads h' = h_reads h \<and> length (buffer_of s h') \<le> length (buffer_of s h) \<and>
        (buffer_of s h \<noteq> [] \<longrightarrow> length (buffer_of s h') < length (buffer_of s h)))"

lemma progresses_consumes: "consumes s h h' \<Longrightarrow> progresses s h h'"
  by (simp add: progresses_def consumes_def)

lemma progresses_trans: "\<lbrakk>progresses s h h'; progresses s h' h''\<rbrakk> \<Longrightarrow> progresses s h h''"
  unfolding progresses_def by auto

lemma progresses_keeps: "\<lbrakk>progresses s h h'; keeps s h' h''\<rbrakk> \<Longrightarrow> progresses s h h''"
  by (simp add: progresses_def keeps_def reader_def buffer_of_def)

lemma abort_frame: "same_frame s h (abort_upstream_for_client s h)"
proof (cases "map_of (h_client_upstream h) s")
  case (Some st)
  have "same_frame s h (fold (\<lambda>ch. unregister_fd (ch_fd ch)) chs h)" for chs
    by (induction chs arbitrary: h) (auto intro: same_frame_trans frame_unregister)
  from this [of "es_children st"] Some show ?thesis
    by (simp add: abort_upstream_for_client_def Let_def frame_defs)
qed (simp add: abort_upstream_for_client_def)

lemma cleanup_elsewhere [simp]: "elsewhere s (cleanup_conn s h) = elsewhere s h"
  using keeps_frame [OF abort_frame] unfolding cleanup_conn_def Let_def keeps_def by (simp add: elsewhere_def)

lemma cleanup_input [simp]:
  "buffer_of s (cleanup_conn s h) = []" "h_reads (cleanup_conn s h) = h_reads h" "h_writes (cleanup_conn s h) = h_writes h"
  "h_sent (cleanup_conn s h) = h_sent h" "h_log (cleanup_conn s h) = h_log h"
proof -
  have "steady (abort_upstream_for_client s h') = steady h'" for h'
    using abort_frame [of s h'] by (simp add: same_frame_def)
  then show "buffer_of s (cleanup_conn s h) = []" "h_reads (cleanup_conn s h) = h_reads h"
    "h_writes (cleanup_conn s h) = h_writes h" "h_sent (cleanup_conn s h) = h_sent h" "h_log (cleanup_conn s h) = h_log h"
    by (simp_all add: cleanup_conn_def Let_def steady_def buffer_of_def at_default_def)
qed

lemma progresses_cleanup: "progresses s h h' \<Longrightarrow> progresses s h (cleanup_conn s h')"
  by (auto simp: progresses_def)

lemma rearm_keeps: "keeps s h (state_of (rearm_reads s h))"
proof -
  have "keeps s h (h\<lparr>h_send_queues := put s q (h_send_queues h)\<rparr>)" for q by (simp add: keeps_defs)
  note this [THEN keeps_trans, OF keeps_frame [OF frame_arm]]
  then show ?thesis by (simp add: rearm_reads_def Let_def)
qed

lemma read_loop_progresses: "progresses s h (state_of (read_loop e s ip h))"
proof (induction e s ip h rule: read_loop.induct)
  case (1 e s ip h)
  note sb = serve_buffered_consumes [where e = e and s = s and ip = ip]
  show ?case
  proof (cases "buffer_of s h = []")
    case False
    show ?thesis
    proof (cases "serve_buffered e s ip h")
      case (Inl r)
      then show ?thesis
        using False sb [where h = h] by (subst read_loop.simps) (simp add: progresses_consumes)
    next
      case (Inr h1)
      with False sb [where h = h] have "progresses s h h1" by (simp add: progresses_consumes)
      from progresses_trans [OF this "1.IH"(1) [OF False Inr]] show ?thesis
        using False Inr by (subst read_loop.simps) simp
    qed
  next
    case True
    let ?h0 = "h\<lparr>h_read_bufs := put s [] (h_read_bufs h)\<rparr>"
    have less: "progresses s h (?h0\<lparr>h_reads := as\<rparr>)" "progresses s h (?h0\<lparr>h_reads := as, h_read_bufs := put s b (h_read_bufs ?h0)\<rparr>)"
      if "h_reads h = a # as" for a as b
      using that by (simp_all add: progresses_def elsewhere_def)
    show ?thesis
    proof (cases "h_reads h")
      case Nil
      then show ?thesis
        using True by (subst read_loop.simps) (simp add: progresses_def elsewhere_def buffer_of_def at_default_def)
    next
      case (Cons a as)
      note l = less [OF Cons]
      show ?thesis
      proof (cases a)
        case Rd_again
        then show ?thesis
          using True Cons progresses_keeps [OF l(1) rearm_keeps] by (subst read_loop.simps) simp
      next
        case Rd_fail
        then show ?thesis using True Cons l(1) by (subst read_loop.simps) simp
      next
        case (Rd bytes)
        show ?thesis
        proof (cases "bytes = []")
          case empty: True
          then show ?thesis
            using True Cons Rd progresses_cleanup [OF l(1)] by (subst read_loop.simps) simp
        next
          case ne: False
          let ?h1 = "?h0\<lparr>h_reads := as, h_read_bufs := put s (take kReadSize bytes) (h_read_bufs ?h0)\<rparr>"
          have c: "case serve_buffered e s ip ?h1 of Inl r \<Rightarrow> progresses s h (state_of r) | Inr h2 \<Rightarrow> progresses s h h2"
            using sb [where h = ?h1] by (auto intro: progresses_trans [OF l(2) progresses_consumes] split: sum.splits)
          show ?thesis
          proof (cases "serve_buffered e s ip ?h1")
            case (Inl r)
            then show ?thesis using True Cons Rd ne c by (subst read_loop.simps) simp
          next
            case (Inr h2)
            have "progresses s h2 (state_of (read_loop e s ip h2))"
              using "1.IH"(2) [OF _ refl Cons Rd ne] Inr True by simp
            with Inr c have "progresses s h (state_of (read_loop e s ip h2))" by (auto intro: progresses_trans)
            then show ?thesis using True Cons Rd ne Inr by (subst read_loop.simps) simp
          qed
        qed
      qed
    qed
  qed
qed

lemma handle_read_progresses: "progresses s h (state_of (handle_read e s ip h))"
proof -
  let ?h = "h\<lparr>h_client_ip_map := put s ip (h_client_ip_map h), h_request_start_time := put s (env_now e) (h_request_start_time h)\<rparr>"
  have eq: "progresses s ?h h' \<longleftrightarrow> progresses s h h'" for h'
    by (simp add: progresses_def elsewhere_def buffer_of_def)
  have "progresses s h (state_of (read_loop e s ip ?h))" using read_loop_progresses eq by blast
  then show ?thesis
    by (cases "read_loop e s ip ?h") (simp_all add: handle_read_def progresses_cleanup)
qed

end
