(* ===== verification/Handler_Write.thy ===== *)
theory Handler_Write
  imports Handler_Requests
begin

text \<open>
  The write side of \<^verbatim>\<open>HttpHandler\<close> (\<^verbatim>\<open>handle_write\<close> in \<^verbatim>\<open>http_handler.cpp\<close>): the send queue, plain and over TLS, the
  file behind a large response, the accounting of a finished response, and the loop that goes on with a
  pipelined request. Every call of the kernel or of the TLS library takes one answer of the list \<^verbatim>\<open>h_writes\<close>, and what
  leaves the gateway is appended to \<^verbatim>\<open>h_sent\<close>.
\<close>

subsection \<open>The send queue\<close>

fun consume_queue :: "nat \<Rightarrow> string list \<Rightarrow> string list" where
  "consume_queue left [] = []"
| "consume_queue left (front # queue) =
     (if left = 0 then front # queue
      else if left \<ge> length front then consume_queue (left - length front) queue
      else drop left front # queue)"

definition queue_of :: "nat \<Rightarrow> handler \<Rightarrow> string list" where
  "queue_of s h = at_default [] s (h_send_queues h)"

definition set_queue :: "nat \<Rightarrow> string list \<Rightarrow> handler \<Rightarrow> handler" where
  "set_queue s queue h = h\<lparr>h_send_queues := put s queue (h_send_queues h)\<rparr>"

definition emit :: "nat \<Rightarrow> string \<Rightarrow> handler \<Rightarrow> handler" where
  "emit s bytes h = h\<lparr>h_sent := h_sent h @ [(s, bytes)]\<rparr>"

definition kMaxIov :: nat where
  "kMaxIov = 64"

definition arm_write :: "nat \<Rightarrow> handler \<Rightarrow> handler result" where
  "arm_write s h = arm (sock_fd h s) (EPOLLOUT OR EPOLLET OR EPOLLONESHOT) h"

text \<open>The left result leaves \<^verbatim>\<open>handle_write\<close>; the right one is a \<^verbatim>\<open>break\<close> out of the sending loop.\<close>

definition break_armed :: "nat \<Rightarrow> handler \<Rightarrow> handler result + handler" where
  "break_armed s h = (case arm_write s h of Ret h' \<Rightarrow> Inr h' | r \<Rightarrow> Inl r)"

fun send_queue :: "nat \<Rightarrow> write_answer list \<Rightarrow> handler \<Rightarrow> handler result + handler" where
  "send_queue s [] h = (if queue_of s h = [] then Inr h else Inl (Hang h))"
| "send_queue s (a # as) h =
     (if queue_of s h = [] then Inr h
      else
        (let queue = queue_of s h;
             h1 = h\<lparr>h_writes := as\<rparr>
         in if \<not> sock_is_ssl h s then
              (case a of
                 Wr n \<Rightarrow>
                   (let iov = concat (take kMaxIov queue);
                        k = min n (length iov)
                    in if k > 0 then send_queue s as (emit s (take k iov) (set_queue s (consume_queue k queue) h1))
                       else Inl (Raise h1))
               | Wr_again want \<Rightarrow> break_armed s h1
               | Wr_epipe \<Rightarrow> Inl (Ret (cleanup_conn s h1))
               | Wr_fail \<Rightarrow> Inl (Raise h1))
            else
              (case a of
                 Wr n \<Rightarrow>
                   (let front = hd queue;
                        k = min n (length front);
                        h2 = emit s (take k front) (h1\<lparr>h_pending_ssl_writes := AList.delete s (h_pending_ssl_writes h1)\<rparr>)
                    in if k > 0 then
                         (if k = length front then send_queue s as (set_queue s (tl queue) h2)
                          else break_armed s (set_queue s (drop k front # tl queue) h2))
                       else Inl (Raise h1))
               | Wr_again want \<Rightarrow> Inl (wait_for_ssl_write s want h1)
               | Wr_epipe \<Rightarrow> Inl (Ret (cleanup_conn s h1))
               | Wr_fail \<Rightarrow> Inl (Raise h1))))"

subsection \<open>The file of a large response\<close>

definition forget_file :: "nat \<Rightarrow> handler \<Rightarrow> handler" where
  "forget_file s h = h\<lparr>h_file_fds := AList.delete s (h_file_fds h), h_file_offsets := AList.delete s (h_file_offsets h),
     h_file_sizes := AList.delete s (h_file_sizes h)\<rparr>"

definition forget_ssl_buffer :: "nat \<Rightarrow> handler \<Rightarrow> handler" where
  "forget_ssl_buffer s h = h\<lparr>h_ssl_file_buffers := AList.delete s (h_ssl_file_buffers h)\<rparr>"

definition set_offset :: "nat \<Rightarrow> nat \<Rightarrow> handler \<Rightarrow> handler" where
  "set_offset s offset h = h\<lparr>h_file_offsets := put s offset (h_file_offsets h)\<rparr>"

definition set_filebuf :: "nat \<Rightarrow> string \<Rightarrow> handler \<Rightarrow> handler" where
  "set_filebuf s filebuf h = h\<lparr>h_ssl_file_buffers := put s filebuf (h_ssl_file_buffers h)\<rparr>"

definition SSL_SENDFILE_BUF :: nat where
  "SSL_SENDFILE_BUF = 65536"

text \<open>The next block of the file, read only when the last one is gone; \<^term>\<open>None\<close> for an error or the end of the file.\<close>

definition next_block :: "env \<Rightarrow> int \<Rightarrow> nat \<Rightarrow> nat \<Rightarrow> string \<Rightarrow> string option" where
  "next_block e fd offset remaining filebuf =
     (if filebuf \<noteq> [] then Some filebuf
      else case env_contents e fd of
             None \<Rightarrow> None
           | Some content \<Rightarrow>
               (let bytes = take (min SSL_SENDFILE_BUF remaining) (drop offset content)
                in if bytes = [] then None else Some bytes))"

fun send_file_ssl ::
  "env \<Rightarrow> nat \<Rightarrow> int \<Rightarrow> nat \<Rightarrow> nat \<Rightarrow> write_answer list \<Rightarrow> handler \<Rightarrow> handler result + handler" where
  "send_file_ssl e s fd offset remaining as h =
     (if remaining = 0 then Inr (forget_ssl_buffer s h)
      else case next_block e fd offset remaining (at_default [] s (h_ssl_file_buffers h)) of
             None \<Rightarrow> Inl (Ret (cleanup_conn s (forget_ssl_buffer s (forget_file s h))))
           | Some filebuf \<Rightarrow>
               (case as of
                  [] \<Rightarrow> Inl (Hang (set_filebuf s filebuf h))
                | a # as' \<Rightarrow>
                    (let h1 = (set_filebuf s filebuf h)\<lparr>h_writes := as'\<rparr>;
                         failed = Inl (Ret (cleanup_conn s (forget_ssl_buffer s (forget_file s h1))))
                     in case a of
                          Wr n \<Rightarrow>
                            (let k = min n (length filebuf);
                                 h2 = set_offset s (offset + k) (set_filebuf s (drop k filebuf)
                                   (emit s (take k filebuf)
                                     (h1\<lparr>h_pending_ssl_writes := AList.delete s (h_pending_ssl_writes h1)\<rparr>)))
                             in if k > 0 then
                                  (if drop k filebuf \<noteq> [] then Inl (arm_write s h2)
                                   else send_file_ssl e s fd (offset + k) (remaining - k) as' h2)
                                else failed)
                        | Wr_again want \<Rightarrow> Inl (wait_for_ssl_write s want (set_offset s offset h1))
                        | Wr_epipe \<Rightarrow> failed
                        | Wr_fail \<Rightarrow> failed)))"

declare send_file_ssl.simps [simp del]

text \<open>\<^verbatim>\<open>sendfile\<close> advances the offset it is given and returns zero at the end of the file, which the loop does
  not test for.\<close>

fun send_file_plain ::
  "env \<Rightarrow> nat \<Rightarrow> int \<Rightarrow> nat \<Rightarrow> nat \<Rightarrow> write_answer list \<Rightarrow> handler \<Rightarrow> handler result + handler" where
  "send_file_plain e s fd offset remaining [] h = (if remaining = 0 then Inr h else Inl (Hang h))"
| "send_file_plain e s fd offset remaining (a # as) h =
     (if remaining = 0 then Inr h
      else
        (let h1 = h\<lparr>h_writes := as\<rparr>;
             failed = Inl (Ret (cleanup_conn s (forget_file s h1)))
         in case a of
              Wr n \<Rightarrow>
                (case env_contents e fd of
                   None \<Rightarrow> failed
                 | Some content \<Rightarrow>
                     (let bytes = take (min n remaining) (drop offset content)
                      in if bytes \<noteq> []
                         then send_file_plain e s fd (offset + length bytes) (remaining - length bytes) as (emit s bytes h1)
                         else send_file_plain e s fd offset remaining as h1))
            | Wr_again want \<Rightarrow> Inl (arm_write s (set_offset s offset h1))
            | Wr_epipe \<Rightarrow> failed
            | Wr_fail \<Rightarrow> failed))"

definition send_file :: "env \<Rightarrow> nat \<Rightarrow> handler \<Rightarrow> handler result + handler" where
  "send_file e s h =
     (case map_of (h_file_fds h) s of
        None \<Rightarrow> Inr h
      | Some file_fd \<Rightarrow>
          (let offset = at_default 0 s (h_file_offsets h);
               remaining = at_default 0 s (h_file_sizes h) - offset
           in case (if sock_is_ssl h s then send_file_ssl e s file_fd offset remaining (h_writes h) h
                    else send_file_plain e s file_fd offset remaining (h_writes h) h) of
                Inl r \<Rightarrow> Inl r
              | Inr h' \<Rightarrow> Inr (forget_file s h')))"

text \<open>Both sending phases of a round.\<close>

definition send_pending :: "env \<Rightarrow> nat \<Rightarrow> handler \<Rightarrow> handler result + handler" where
  "send_pending e s h =
     (case send_queue s (h_writes h) h of
        Inl r \<Rightarrow> Inl r
      | Inr h1 \<Rightarrow> if queue_of s h1 \<noteq> [] then Inl (arm_write s h1) else send_file e s h1)"

subsection \<open>Accounting\<close>

definition metered_route :: "http_request \<Rightarrow> string" where
  "metered_route req =
     (case map_of (req_headers req) ''x-route-name'' of
        Some name \<Rightarrow> name
      | None \<Rightarrow> if starts_with ''/'' (req_path req) then req_path req else ''-'')"

definition meter_response :: "env \<Rightarrow> nat \<Rightarrow> handler \<Rightarrow> handler" where
  "meter_response e s h =
     (case (map_of (h_resp_status h) s, map_of (h_request_start_time h) s) of
        (Some status, Some start) \<Rightarrow>
          (let duration = Rat.Fract (env_now e - start) 1000000000;
               m1 = record_request status duration (h_metrics h);
               m2 = (case map_of (h_last_requests h) s of
                       None \<Rightarrow> m1
                     | Some req \<Rightarrow> record_route_request (metered_route req) (req_host req) (req_tenant req) status duration m1)
           in h\<lparr>h_metrics := m2\<rparr>)
      | _ \<Rightarrow> h)"

definition dash :: "string \<Rightarrow> string" where
  "dash v = (if v = [] then ''-'' else v)"

definition audit_response :: "nat \<Rightarrow> handler \<Rightarrow> handler" where
  "audit_response s h =
     (case (map_of (h_last_requests h) s, map_of (h_resp_status h) s) of
        (Some req, Some status) \<Rightarrow>
          (if status \<ge> 400
           then h\<lparr>h_log := h_log h @ [emit_audit_log req status (classify_failure_reason status None)
                    (header_or ''-'' ''x-route-name'' (req_headers req)) (dash (req_host req)) (dash (req_tenant req))
                    (cfg_logging (h_config h))]\<rparr>
           else h)
      | _ \<Rightarrow> h)"

definition access_line :: "env \<Rightarrow> nat \<Rightarrow> handler \<Rightarrow> string" where
  "access_line e s h =
     (let logging = cfg_logging (h_config h);
          client_ip = (case map_of (h_client_ip_map h) s of None \<Rightarrow> ''-'' | Some ip \<Rightarrow> ip);
          duration_us = (case map_of (h_request_start_time h) s of None \<Rightarrow> 0 | Some start \<Rightarrow> (env_now e - start) div 1000);
          (target, user_agent) =
            (case map_of (h_last_requests h) s of
               None \<Rightarrow> ('' '' @ '' '', [])
             | Some req \<Rightarrow>
                 (req_method req @ '' '' @ redact_path_query (req_path req) (req_query req) logging @ '' '' @ req_version req,
                  (case map_of (req_headers req) ''user-agent'' of
                     None \<Rightarrow> ''-''
                   | Some ua \<Rightarrow> redact_header_value ''user-agent'' ua logging)))
      in client_ip @ '' - - ['' @ env_local_time e (env_time e) @ ''] '' @ [CHR 0x22] @ target @ [CHR 0x22] @ '' '' @
         dec_int (at_default 0 s (h_resp_status h)) @ '' '' @ dec (at_default 0 s (h_resp_size h)) @
         '' '' @ [CHR 0x22] @ ''-'' @ [CHR 0x22] @ '' '' @ [CHR 0x22] @ user_agent @ [CHR 0x22] @ '' '' @ dec_int duration_us @ ''us'')"

definition account_response :: "env \<Rightarrow> nat \<Rightarrow> handler \<Rightarrow> handler" where
  "account_response e s h0 =
     (let h = audit_response s (meter_response e s h0);
          h1 = (if log_access_log_enabled (cfg_logging (h_config h))
                then h\<lparr>h_log := h_log h @ [access_line e s h]\<rparr> else h)
      in h1\<lparr>h_last_requests := AList.delete s (h_last_requests h1), h_resp_status := AList.delete s (h_resp_status h1),
            h_resp_size := AList.delete s (h_resp_size h1)\<rparr>)"

subsection \<open>The loop\<close>

definition input_of :: "nat \<Rightarrow> handler \<Rightarrow> read_answer list \<times> string" where
  "input_of s h = (h_reads h, buffer_of s h)"

lemma arm_input: "input_of s (state_of (arm fd ev h)) = input_of s h"
  by (simp add: arm_def input_of_def buffer_of_def split: option.split)

lemma break_armed_input: "break_armed s h = Inr h' \<Longrightarrow> input_of s h' = input_of s h"
  using arm_input [of s "sock_fd h s" "EPOLLOUT OR EPOLLET OR EPOLLONESHOT" h]
  by (auto simp: break_armed_def arm_write_def split: result.splits)

lemma input_of_simps [simp]:
  "input_of s (h\<lparr>h_writes := as\<rparr>) = input_of s h" "input_of s (emit t bytes h) = input_of s h"
  "input_of s (set_queue t q h) = input_of s h" "input_of s (forget_file t h) = input_of s h"
  "input_of s (forget_ssl_buffer t h) = input_of s h" "input_of s (set_filebuf t b h) = input_of s h"
  "input_of s (set_offset t off h) = input_of s h" "input_of s (h\<lparr>h_pending_ssl_writes := pw\<rparr>) = input_of s h"
  "input_of s (h\<lparr>h_keep_alive := ka\<rparr>) = input_of s h"
  by (simp_all add: input_of_def buffer_of_def emit_def set_queue_def forget_file_def forget_ssl_buffer_def
      set_filebuf_def set_offset_def)

lemma queue_of_simps [simp]:
  "queue_of s (h\<lparr>h_writes := as\<rparr>) = queue_of s h" "queue_of s (emit t b h) = queue_of s h"
  "queue_of s (set_queue s q h) = q" "queue_of s (h\<lparr>h_pending_ssl_writes := pw\<rparr>) = queue_of s h"
  "queue_of s (h\<lparr>h_epoll := ep\<rparr>) = queue_of s h" "queue_of s (set_filebuf t fb h) = queue_of s h"
  "queue_of s (set_offset t off h) = queue_of s h" "queue_of s (forget_file t h) = queue_of s h"
  "queue_of s (forget_ssl_buffer t h) = queue_of s h"
  by (simp_all add: queue_of_def emit_def set_queue_def at_default_def set_filebuf_def set_offset_def forget_file_def
      forget_ssl_buffer_def)

lemma send_queue_input: "send_queue s as h = Inr h' \<Longrightarrow> input_of s h' = input_of s h"
proof (induction as arbitrary: h)
  case Nil
  then show ?case by (simp split: if_splits)
next
  case (Cons a as)
  show ?case
  proof (cases "queue_of s h = []")
    case True
    with Cons.prems show ?thesis by simp
  next
    case False
    show ?thesis
      using Cons.prems False
      by (cases a; cases "sock_is_ssl h s")
         (simp_all add: Let_def split: if_splits, (drule Cons.IH break_armed_input, simp)+)
  qed
qed

lemma send_file_plain_input:
  "send_file_plain e s fd off rem as h = Inr h' \<Longrightarrow> input_of s h' = input_of s h \<and> queue_of s h' = queue_of s h"
proof (induction as arbitrary: off rem h)
  case Nil
  then show ?case by (simp split: if_splits)
next
  case (Cons a as)
  show ?case
  proof (cases "rem = 0")
    case False
    show ?thesis
      using Cons.prems False
      by (cases a; cases "env_contents e fd")
         (simp_all add: Let_def split: if_splits, (drule Cons.IH, simp)+)
  qed (use Cons.prems in simp)
qed

lemma send_file_ssl_input:
  "send_file_ssl e s fd off rem as h = Inr h' \<Longrightarrow> input_of s h' = input_of s h \<and> queue_of s h' = queue_of s h"
proof (induction as arbitrary: off rem h)
  case Nil
  then show ?case by (subst (asm) send_file_ssl.simps) (auto split: if_splits option.splits)
next
  case (Cons a as)
  show ?case
  proof (cases "rem = 0")
    case True
    with Cons.prems show ?thesis by (subst (asm) send_file_ssl.simps) auto
  next
    case False
    show ?thesis
    proof (cases "next_block e fd off rem (at_default [] s (h_ssl_file_buffers h))")
      case None
      with Cons.prems False show ?thesis by (subst (asm) send_file_ssl.simps) simp
    next
      case (Some b)
      with Cons.prems False show ?thesis
        by (subst (asm) send_file_ssl.simps, cases a)
           (simp_all add: Let_def split: if_splits, (drule Cons.IH, simp)+)
    qed
  qed
qed

lemma send_file_input: "send_file e s h = Inr h' \<Longrightarrow> input_of s h' = input_of s h \<and> queue_of s h' = queue_of s h"
  by (auto simp: send_file_def Let_def dest: send_file_plain_input send_file_ssl_input split: option.splits sum.splits if_splits)

lemma send_pending_input: "send_pending e s h = Inr h' \<Longrightarrow> input_of s h' = input_of s h"
  using send_queue_input send_file_input by (fastforce simp: send_pending_def split: sum.splits if_splits)

lemma account_input: "input_of s (account_response e s h) = input_of s h"
  by (simp add: account_response_def audit_response_def meter_response_def input_of_def buffer_of_def Let_def
      split: option.split)

function write_loop :: "env \<Rightarrow> nat \<Rightarrow> handler \<Rightarrow> handler result" where
  "write_loop e s h =
     (let h0 = set_queue s (dropWhile (\<lambda>chunk. chunk = []) (queue_of s h)) h
      in case send_pending e s h0 of
           Inl r \<Rightarrow> r
         | Inr h1 \<Rightarrow>
             (let h2 = account_response e s h1;
                  keep_alive = at_default False s (h_keep_alive h2);
                  h3 = h2\<lparr>h_keep_alive := put s keep_alive (h_keep_alive h2)\<rparr>
              in if \<not> keep_alive then Ret (cleanup_conn s h3)
                 else if buffer_of s h3 \<noteq> [] then
                   (case handle_read e s (at_default [] s (h_client_ip_map h3)) h3 of
                      Ret h4 \<Rightarrow> if has_key s (h_client_upstream h4) then Ret h4 else write_loop e s h4
                    | r \<Rightarrow> r)
                 else arm (sock_fd h3 s) (EPOLLIN OR EPOLLET OR EPOLLONESHOT) h3))"
  by pat_completeness auto
termination
proof (relation "measures [\<lambda>(e, s, h). length (h_reads h), \<lambda>(e, s, h). length (buffer_of s h)]", goal_cases)
  case (2 e s h h0 h1 h2 keep_alive h3 h4)
  then have "input_of s h1 = input_of s h0" using send_pending_input by blast
  moreover have "input_of s h0 = input_of s h" "input_of s h3 = input_of s h1"
    using 2 account_input by simp_all
  ultimately have "input_of s h3 = input_of s h" by simp
  moreover have "progresses s h3 h4"
    using 2 handle_read_progresses [of s h3 e "at_default [] s (h_client_ip_map h3)"] by simp
  moreover have "buffer_of s h3 \<noteq> []" using 2 by blast
  ultimately show ?case
    by (auto simp: progresses_def input_of_def)
qed simp

declare write_loop.simps [simp del]

definition handle_write :: "env \<Rightarrow> nat \<Rightarrow> handler \<Rightarrow> handler result" where
  "handle_write e s h =
     (case write_loop e s h of
        Raise h' \<Rightarrow> Ret (cleanup_conn s h')
      | r \<Rightarrow> r)"

end
