(* ===== verification/Handler_Stream.thy ===== *)
theory Handler_Stream
  imports Handler_Write
begin

text \<open>
  The byte stream of a connection: what \<^verbatim>\<open>handle_write\<close> hands to the kernel or to the TLS library is the queued
  response and its file, in order, without a gap and without a repetition, however the socket cuts
  it into partial writes.
\<close>

subsection \<open>Delivered and unsent bytes\<close>

definition delivered :: "nat \<Rightarrow> handler \<Rightarrow> string" where
  "delivered s h = concat (map snd (filter (\<lambda>(t, _). t = s) (h_sent h)))"

definition file_tail :: "env \<Rightarrow> int option \<Rightarrow> nat \<Rightarrow> nat \<Rightarrow> string" where
  "file_tail e file offset end_off =
     (case Option.bind file (env_contents e) of
        None \<Rightarrow> []
      | Some content \<Rightarrow> take (end_off - offset) (drop offset content))"

definition unsent_file :: "env \<Rightarrow> nat \<Rightarrow> handler \<Rightarrow> string" where
  "unsent_file e s h =
     file_tail e (map_of (h_file_fds h) s) (at_default 0 s (h_file_offsets h)) (at_default 0 s (h_file_sizes h))"

definition unsent :: "env \<Rightarrow> nat \<Rightarrow> handler \<Rightarrow> string" where
  "unsent e s h = concat (queue_of s h) @ unsent_file e s h"

text \<open>The file is as long as its response says, and a block that waits for TLS is the next part of it.\<close>

definition file_ok :: "env \<Rightarrow> nat \<Rightarrow> handler \<Rightarrow> bool" where
  "file_ok e s h \<longleftrightarrow>
     (\<forall>fd. map_of (h_file_fds h) s = Some fd \<longrightarrow>
        (\<exists>content. env_contents e fd = Some content \<and> at_default 0 s (h_file_sizes h) \<le> length content)) \<and>
     prefix (at_default [] s (h_ssl_file_buffers h)) (unsent_file e s h)"

definition sock_open :: "nat \<Rightarrow> handler \<Rightarrow> bool" where
  "sock_open s h \<longleftrightarrow> 0 \<le> sock_fd h s"

definition sends :: "env \<Rightarrow> nat \<Rightarrow> handler \<Rightarrow> handler \<Rightarrow> bool" where
  "sends e s h h' \<longleftrightarrow>
     (\<forall>t. t \<noteq> s \<longrightarrow> delivered t h' = delivered t h) \<and>
     (\<exists>n. delivered s h' = delivered s h @ take n (unsent e s h) \<and>
        (sock_open s h' \<longrightarrow> unsent e s h' = drop n (unsent e s h) \<and> file_ok e s h'))"

lemma delivered_emit [simp]: "delivered t (emit s bytes h) = delivered t h @ (if t = s then bytes else [])"
  by (simp add: delivered_def emit_def)

lemma concat_consume_queue: "concat (consume_queue k queue) = drop k (concat queue)"
  by (induction k queue rule: consume_queue.induct) auto

lemma take_concat_take: "k \<le> length (concat (take m queue)) \<Longrightarrow> take k (concat (take m queue)) = take k (concat queue)"
proof -
  have "concat queue = concat (take m queue) @ concat (drop m queue)"
    by (metis append_take_drop_id concat_append)
  then show "k \<le> length (concat (take m queue)) \<Longrightarrow> ?thesis" by simp
qed

lemma stream_simps [simp]:
  "unsent_file e s (h\<lparr>h_writes := as\<rparr>) = unsent_file e s h" "unsent_file e s (emit t b h) = unsent_file e s h"
  "unsent_file e s (set_queue t q h) = unsent_file e s h" "unsent_file e s (h\<lparr>h_pending_ssl_writes := pw\<rparr>) = unsent_file e s h"
  "file_ok e s (h\<lparr>h_writes := as\<rparr>) = file_ok e s h" "file_ok e s (emit t b h) = file_ok e s h"
  "file_ok e s (set_queue t q h) = file_ok e s h" "file_ok e s (h\<lparr>h_pending_ssl_writes := pw\<rparr>) = file_ok e s h"
  "sock_open s (h\<lparr>h_writes := as\<rparr>) = sock_open s h" "sock_open s (emit t b h) = sock_open s h"
  "sock_open s (set_queue t q h) = sock_open s h" "sock_open s (h\<lparr>h_pending_ssl_writes := pw\<rparr>) = sock_open s h"
  "delivered t (h\<lparr>h_writes := as\<rparr>) = delivered t h" "delivered t (set_queue u q h) = delivered t h"
  "delivered t (h\<lparr>h_pending_ssl_writes := pw\<rparr>) = delivered t h"
  "unsent_file e s (h\<lparr>h_epoll := ep\<rparr>) = unsent_file e s h"
  "file_ok e s (h\<lparr>h_epoll := ep\<rparr>) = file_ok e s h" "sock_open s (h\<lparr>h_epoll := ep\<rparr>) = sock_open s h"
  "delivered t (h\<lparr>h_epoll := ep\<rparr>) = delivered t h"
  by (simp_all add: unsent_file_def file_ok_def emit_def set_queue_def queue_of_def at_default_def sock_open_def
      sock_fd_def delivered_def)

lemma sends_refl: "file_ok e s h \<Longrightarrow> sends e s h h"
  by (auto simp: sends_def intro: exI [of _ 0])

lemma sends_trans:
  assumes "sends e s h h1" "sock_open s h1" "sends e s h1 h2"
  shows "sends e s h h2"
proof -
  obtain n where n: "delivered s h1 = delivered s h @ take n (unsent e s h)" "unsent e s h1 = drop n (unsent e s h)"
    using assms(1,2) by (auto simp: sends_def)
  obtain m where m: "delivered s h2 = delivered s h1 @ take m (unsent e s h1)"
      "sock_open s h2 \<longrightarrow> unsent e s h2 = drop m (unsent e s h1) \<and> file_ok e s h2"
    using assms(3) by (auto simp: sends_def)
  have "delivered s h2 = delivered s h @ take (n + m) (unsent e s h)"
    using n m(1) by (simp add: take_add)
  moreover have "sock_open s h2 \<longrightarrow> unsent e s h2 = drop (n + m) (unsent e s h) \<and> file_ok e s h2"
    using n(2) m(2) by (simp add: add.commute)
  ultimately show ?thesis using assms(1,3) unfolding sends_def by auto
qed

lemma sends_step:
  assumes "\<And>t. t \<noteq> s \<Longrightarrow> delivered t h' = delivered t h" "delivered s h' = delivered s h @ bytes"
    "unsent e s h = bytes @ unsent e s h'" "file_ok e s h'"
  shows "sends e s h h'"
  using assms unfolding sends_def by (auto intro!: exI [of _ "length bytes"])

lemma cleanup_closed [simp]: "\<not> sock_open s (cleanup_conn s h)"
proof -
  have "h_sockets (cleanup_conn s h) = put s \<lparr>so_fd = -1, so_is_ssl = False\<rparr> (h_sockets h)"
    using abort_frame unfolding cleanup_conn_def Let_def same_frame_def steady_def by simp
  then show ?thesis by (simp add: sock_open_def sock_fd_def)
qed

lemma sends_cleanup:
  assumes "sends e s h h'"
  shows "sends e s h (cleanup_conn s h')"
proof -
  have "delivered t (cleanup_conn s h') = delivered t h'" for t by (simp add: delivered_def)
  with assms show ?thesis unfolding sends_def by auto
qed

text \<open>Arming changes only the epoll instance.\<close>

lemma arm_stream:
  assumes "sends e s h h'" shows "sends e s h (state_of (arm fd ev h'))"
proof -
  have "state_of (arm fd ev h') = h'\<lparr>h_epoll := h_epoll (state_of (arm fd ev h'))\<rparr>"
    by (simp add: arm_def split: option.split)
  moreover have "sends e s h (h'\<lparr>h_epoll := ep\<rparr>) = sends e s h h'" for ep
    by (simp add: sends_def unsent_def)
  ultimately show ?thesis using assms by metis
qed

lemma arm_open: "sock_open s (state_of (arm fd ev h)) = sock_open s h"
  by (simp add: sock_open_def sock_fd_def)

text \<open>What a sending phase guarantees, whether it leaves \<^verbatim>\<open>handle_write\<close> or not. A phase that still waits for
  an answer is in the middle of its loop.\<close>

definition phase_ok :: "env \<Rightarrow> nat \<Rightarrow> handler \<Rightarrow> handler result + handler \<Rightarrow> bool" where
  "phase_ok e s h out \<longleftrightarrow> (case out of
     Inl r \<Rightarrow> (case r of Hang h' \<Rightarrow> True | _ \<Rightarrow> sends e s h (state_of r))
   | Inr h' \<Rightarrow> sends e s h h' \<and> sock_open s h')"

lemma phase_ok_simps [simp]:
  "phase_ok e s h (Inl (Ret h')) = sends e s h h'" "phase_ok e s h (Inl (Raise h')) = sends e s h h'"
  "phase_ok e s h (Inl (Hang h'))" "phase_ok e s h (Inr h') = (sends e s h h' \<and> sock_open s h')"
  by (simp_all add: phase_ok_def)

lemma phase_ok_Inl: "sends e s h (state_of r) \<Longrightarrow> phase_ok e s h (Inl r)"
  by (cases r) simp_all

lemma phase_ok_after: "\<lbrakk>sends e s h h1; sock_open s h1; phase_ok e s h1 out\<rbrakk> \<Longrightarrow> phase_ok e s h out"
  by (cases out rule: sum.exhaust [case_product result.exhaust]) (auto simp: phase_ok_def intro: sends_trans split: result.splits)

lemma break_armed_ok: "\<lbrakk>sends e s h h1; sock_open s h1\<rbrakk> \<Longrightarrow> phase_ok e s h (break_armed s h1)"
  using arm_stream [of e s h h1 "sock_fd h1 s" "EPOLLOUT OR EPOLLET OR EPOLLONESHOT"]
    arm_open [of s "sock_fd h1 s" "EPOLLOUT OR EPOLLET OR EPOLLONESHOT" h1]
  by (cases "arm (sock_fd h1 s) (EPOLLOUT OR EPOLLET OR EPOLLONESHOT) h1") (simp_all add: break_armed_def arm_write_def)

lemma wait_ssl_stream:
  assumes "sends e s h h'" shows "sends e s h (state_of (wait_for_ssl_write s want h'))"
proof -
  have "sends e s h (h'\<lparr>h_pending_ssl_writes := put s want (h_pending_ssl_writes h')\<rparr>)"
    using assms by (simp add: sends_def unsent_def)
  then show ?thesis unfolding wait_for_ssl_write_def by (rule arm_stream)
qed

lemma send_queue_ok: "\<lbrakk>file_ok e s h; sock_open s h\<rbrakk> \<Longrightarrow> phase_ok e s h (send_queue s as h)"
proof (induction as arbitrary: h)
  case Nil
  then show ?case by (simp add: sends_refl)
next
  case (Cons a as)
  let ?q = "queue_of s h" and ?h1 = "h\<lparr>h_writes := as\<rparr>"
  have keep: "sends e s h ?h1" using Cons.prems by (intro sends_step [where bytes = "[]"]) (simp_all add: unsent_def)
  show ?case
  proof (cases "?q = []")
    case True
    then show ?thesis using Cons.prems by (simp add: sends_refl)
  next
    case False
    show ?thesis
    proof (cases "sock_is_ssl h s")
      case False
      show ?thesis
      proof (cases a)
        case (Wr n)
        define k where "k = min n (length (concat (take kMaxIov ?q)))"
        let ?h2 = "emit s (take k (concat (take kMaxIov ?q))) (set_queue s (consume_queue k ?q) ?h1)"
        have "concat ?q = take k (concat (take kMaxIov ?q)) @ concat (consume_queue k ?q)"
          using take_concat_take [of k kMaxIov ?q] by (simp add: concat_consume_queue k_def)
        then have "sends e s h ?h2"
          using Cons.prems by (intro sends_step) (auto simp: unsent_def)
        then have "phase_ok e s h (send_queue s as ?h2)"
          by (rule phase_ok_after) (use Cons.prems Cons.IH [of ?h2] in simp_all)
        then show ?thesis
          using Wr \<open>?q \<noteq> []\<close> False keep by (simp add: Let_def flip: k_def)
      qed (use \<open>?q \<noteq> []\<close> False keep Cons.prems in \<open>simp_all add: break_armed_ok sends_cleanup\<close>)
    next
      case True
      show ?thesis
      proof (cases a)
        case (Wr n)
        let ?f = "hd ?q"
        define k where "k = min n (length ?f)"
        let ?h2 = "emit s (take k ?f) (?h1\<lparr>h_pending_ssl_writes := AList.delete s (h_pending_ssl_writes ?h1)\<rparr>)"
        have q: "concat ?q = take k ?f @ drop k ?f @ concat (tl ?q)" using \<open>?q \<noteq> []\<close> by (cases ?q) auto
        have part: "sends e s h (set_queue s q ?h2)" if "concat ?q = take k ?f @ concat q" for q
          using Cons.prems that by (intro sends_step) (auto simp: unsent_def)
        have "phase_ok e s h (send_queue s as (set_queue s (tl ?q) ?h2))" if "k = length ?f"
          by (rule phase_ok_after [OF part [of "tl ?q"]])
             (use Cons.prems Cons.IH [of "set_queue s (tl ?q) ?h2"] q that in simp_all)
        moreover have "phase_ok e s h (break_armed s (set_queue s (drop k ?f # tl ?q) ?h2))"
          using Cons.prems part [of "drop k ?f # tl ?q"] q by (intro break_armed_ok) simp_all
        ultimately show ?thesis
          using Wr \<open>?q \<noteq> []\<close> True keep by (simp add: Let_def flip: k_def)
      qed (use \<open>?q \<noteq> []\<close> True keep Cons.prems in \<open>simp_all add: sends_cleanup wait_ssl_stream phase_ok_Inl\<close>)
    qed
  qed
qed

subsection \<open>The file\<close>

lemma file_tail_Some: "env_contents e fd = Some content \<Longrightarrow> file_tail e (Some fd) off end_off = take (end_off - off) (drop off content)"
  by (simp add: file_tail_def)

lemma take_split_at:
  assumes "bytes = take k xs" "length bytes \<le> m"
  shows "take m xs = bytes @ take (m - length bytes) (drop (length bytes) xs)"
proof -
  have "bytes = take (length bytes) xs" using assms(1) by (simp add: min_def)
  then show ?thesis using take_add [of "length bytes" "m - length bytes" xs] assms(2) by simp
qed

lemma file_stream_simps [simp]:
  "unsent_file e s (set_filebuf t b h) = unsent_file e s h"
  "sock_open s (set_filebuf t b h) = sock_open s h" "delivered t (set_filebuf u b h) = delivered t h"
  "sock_open s (set_offset t off h) = sock_open s h"
  "delivered t (set_offset u off h) = delivered t h"
  "sock_open s (forget_file t h) = sock_open s h"
  "delivered t (forget_file u h) = delivered t h"
  "sock_open s (forget_ssl_buffer t h) = sock_open s h"
  "delivered t (forget_ssl_buffer u h) = delivered t h"
  "unsent_file e s (forget_ssl_buffer t h) = unsent_file e s h" "unsent_file e s (forget_file s h) = []"
  by (simp_all add: unsent_file_def set_filebuf_def queue_of_def sock_open_def sock_fd_def delivered_def set_offset_def
      forget_file_def forget_ssl_buffer_def file_tail_def)

definition sending_file :: "env \<Rightarrow> nat \<Rightarrow> int \<Rightarrow> string \<Rightarrow> nat \<Rightarrow> handler \<Rightarrow> bool" where
  "sending_file e s fd content end_off h \<longleftrightarrow> map_of (h_file_fds h) s = Some fd \<and> env_contents e fd = Some content \<and>
     at_default 0 s (h_file_sizes h) = end_off \<and> end_off \<le> length content"

lemma sending_file_simps [simp]:
  "sending_file e s fd content end_off (h\<lparr>h_writes := as\<rparr>) = sending_file e s fd content end_off h"
  "sending_file e s fd content end_off (emit t b h) = sending_file e s fd content end_off h"
  "sending_file e s fd content end_off (set_filebuf t b h) = sending_file e s fd content end_off h"
  "sending_file e s fd content end_off (set_offset t off h) = sending_file e s fd content end_off h"
  "sending_file e s fd content end_off (h\<lparr>h_pending_ssl_writes := pw\<rparr>) = sending_file e s fd content end_off h"
  by (simp_all add: sending_file_def emit_def set_filebuf_def set_offset_def)

definition filebuf_of :: "nat \<Rightarrow> handler \<Rightarrow> string" where
  "filebuf_of s h = at_default [] s (h_ssl_file_buffers h)"

lemma filebuf_simps [simp]:
  "filebuf_of s (h\<lparr>h_writes := as\<rparr>) = filebuf_of s h" "filebuf_of s (emit t b h) = filebuf_of s h"
  "filebuf_of s (set_filebuf s b h) = b" "filebuf_of s (set_offset t off h) = filebuf_of s h"
  "filebuf_of s (h\<lparr>h_pending_ssl_writes := pw\<rparr>) = filebuf_of s h"
  "filebuf_of s (forget_file t h) = filebuf_of s h" "filebuf_of s (forget_ssl_buffer s h) = []"
  by (simp_all add: filebuf_of_def emit_def set_filebuf_def set_offset_def forget_file_def forget_ssl_buffer_def at_default_def)

lemma unsent_at:
  "sending_file e s fd content end_off h \<Longrightarrow> unsent_file e s (set_offset s off h) = take (end_off - off) (drop off content)"
  by (simp add: sending_file_def unsent_file_def set_offset_def file_tail_Some at_default_def)

lemma file_ok_at:
  "\<lbrakk>sending_file e s fd content end_off h; prefix (filebuf_of s h) (take (end_off - off) (drop off content))\<rbrakk> \<Longrightarrow>
     file_ok e s (set_offset s off h)"
  using unsent_at [of e s fd content end_off h off]
  by (auto simp: file_ok_def sending_file_def filebuf_of_def) (simp_all add: set_offset_def at_default_def)

lemma file_ok_forgotten: "filebuf_of s h = [] \<Longrightarrow> file_ok e s (forget_file s h)"
  by (simp add: file_ok_def filebuf_of_def forget_file_def)

definition file_phase :: "env \<Rightarrow> nat \<Rightarrow> handler \<Rightarrow> handler result + handler \<Rightarrow> bool" where
  "file_phase e s h out \<longleftrightarrow> phase_ok e s h (case out of Inl r \<Rightarrow> Inl r | Inr h' \<Rightarrow> Inr (forget_file s h'))"

lemma file_phase_simps [simp]:
  "file_phase e s h (Inl r) = phase_ok e s h (Inl r)"
  "file_phase e s h (Inr h') = (sends e s h (forget_file s h') \<and> sock_open s h')"
  by (simp_all add: file_phase_def)

lemma file_phase_after: "\<lbrakk>sends e s h h1; sock_open s h1; file_phase e s h1 out\<rbrakk> \<Longrightarrow> file_phase e s h out"
  unfolding file_phase_def by (rule phase_ok_after)

lemma send_file_plain_ok:
  "\<lbrakk>sending_file e s fd content end_off h; off \<le> end_off; sock_open s h; filebuf_of s h = []; queue_of s h = []\<rbrakk> \<Longrightarrow>
     file_phase e s (set_offset s off h) (send_file_plain e s fd off (end_off - off) as h)"
proof (induction as arbitrary: off h)
  case Nil
  have "sends e s (set_offset s off h) (forget_file s h)" if "end_off \<le> off"
    using Nil that by (intro sends_step [where bytes = "[]"]) (simp_all add: unsent_def unsent_at file_ok_forgotten)
  with Nil show ?case by simp
next
  case (Cons a as)
  let ?V = "set_offset s off h" and ?h1 = "h\<lparr>h_writes := as\<rparr>"
  have ok: "file_ok e s (set_offset s off h')" if "sending_file e s fd content end_off h'" "filebuf_of s h' = []" for off h'
    using that by (simp add: file_ok_at)
  have V1: "sends e s ?V (set_offset s off ?h1)"
    using Cons.prems by (intro sends_step [where bytes = "[]"]) (simp_all add: unsent_def unsent_at ok)
  have fail: "sends e s ?V (cleanup_conn s (forget_file s ?h1))"
  proof -
    have "delivered t (cleanup_conn s (forget_file s ?h1)) = delivered t ?V" for t
      by (simp add: delivered_def forget_file_def set_offset_def)
    then show ?thesis by (auto simp: sends_def intro: exI [of _ 0])
  qed
  show ?case
  proof (cases "end_off = off")
    case True
    have "sends e s ?V (forget_file s h)"
      using Cons.prems True by (intro sends_step [where bytes = "[]"]) (simp_all add: unsent_def unsent_at file_ok_forgotten)
    with True Cons.prems show ?thesis by simp
  next
    case False
    show ?thesis
    proof (cases a)
      case (Wr n)
      define bytes where "bytes = take (min n (end_off - off)) (drop off content)"
      have len: "length bytes \<le> end_off - off" by (simp add: bytes_def)
      let ?h2 = "if bytes = [] then ?h1 else emit s bytes ?h1"
      have "unsent_file e s ?V = bytes @ take (end_off - (off + length bytes)) (drop (off + length bytes) content)"
        using unsent_at [OF Cons.prems(1), of off] take_split_at [OF bytes_def len] by (simp add: add.commute)
      then have "sends e s ?V (set_offset s (off + length bytes) ?h2)"
        using Cons.prems by (intro sends_step [where bytes = bytes]) (auto simp: unsent_def unsent_at ok)
      moreover have "file_phase e s (set_offset s (off + length bytes) ?h2)
          (send_file_plain e s fd (off + length bytes) (end_off - (off + length bytes)) as ?h2)"
        using Cons.prems len by (intro Cons.IH) auto
      ultimately have "file_phase e s ?V (send_file_plain e s fd (off + length bytes) (end_off - (off + length bytes)) as ?h2)"
        using Cons.prems(3) by (intro file_phase_after [of e s ?V "set_offset s (off + length bytes) ?h2"]) simp_all
      then show ?thesis
        using False Cons.prems Wr by (cases "bytes = []") (simp_all add: sending_file_def Let_def diff_diff_eq flip: bytes_def)
    next
      case (Wr_again want)
      then show ?thesis using False Cons.prems V1 by (simp add: arm_write_def phase_ok_Inl arm_stream Let_def)
    qed (use False Cons.prems fail in simp_all)
  qed
qed

lemma next_block_prefix:
  assumes "env_contents e fd = Some content" "prefix buf (take rem (drop off content))" "next_block e fd off rem buf = Some b"
  shows "prefix b (take rem (drop off content)) \<and> b \<noteq> []"
proof (cases "buf = []")
  case True
  then have "b = take (min SSL_SENDFILE_BUF rem) (drop off content)" "b \<noteq> []"
    using assms(1,3) by (auto simp: next_block_def Let_def split: if_splits)
  then show ?thesis by (metis min.commute take_is_prefix take_take)
next
  case False
  then show ?thesis using assms(2,3) by (simp add: next_block_def)
qed

lemma send_file_ssl_ok:
  "\<lbrakk>sending_file e s fd content end_off h; at_default 0 s (h_file_offsets h) = off; off \<le> end_off; sock_open s h;
    prefix (filebuf_of s h) (take (end_off - off) (drop off content)); queue_of s h = []\<rbrakk> \<Longrightarrow>
     file_phase e s h (send_file_ssl e s fd off (end_off - off) as h)"
proof (induction as arbitrary: off h)
  case Nil
  have un: "unsent_file e s h = take (end_off - off) (drop off content)"
    using Nil.prems(1,2) by (simp add: sending_file_def unsent_file_def file_tail_Some)
  have closed: "sends e s h (cleanup_conn s h')" if "\<And>t. delivered t h' = delivered t h" for h'
    using that by (auto simp: sends_def delivered_def intro: exI [of _ 0])
  have "sends e s h (forget_file s (forget_ssl_buffer s h))" if "off = end_off"
    using Nil.prems that un by (intro sends_step [where bytes = "[]"]) (simp_all add: unsent_def file_ok_forgotten)
  with Nil.prems closed show ?case
    by (subst send_file_ssl.simps) (simp split: option.split)
next
  case (Cons a as)
  have un: "unsent_file e s h = take (end_off - off) (drop off content)"
    using Cons.prems(1,2) by (simp add: sending_file_def unsent_file_def file_tail_Some)
  have closed: "sends e s h (cleanup_conn s h')" if "\<And>t. delivered t h' = delivered t h" for h'
    using that by (auto simp: sends_def delivered_def intro: exI [of _ 0])
  show ?case
  proof (cases "off = end_off")
    case True
    have "sends e s h (forget_file s (forget_ssl_buffer s h))"
      using Cons.prems True un by (intro sends_step [where bytes = "[]"]) (simp_all add: unsent_def file_ok_forgotten)
    with True Cons.prems show ?thesis by (subst send_file_ssl.simps) simp
  next
    case False
    show ?thesis
    proof (cases "next_block e fd off (end_off - off) (filebuf_of s h)")
      case None
      with False Cons.prems closed show ?thesis by (subst send_file_ssl.simps) (simp add: filebuf_of_def)
    next
      case (Some b)
      have b: "prefix b (take (end_off - off) (drop off content))" "b \<noteq> []"
        using next_block_prefix [OF _ Cons.prems(5) Some] Cons.prems(1) by (auto simp: sending_file_def)
      let ?h1 = "(set_filebuf s b h)\<lparr>h_writes := as\<rparr>"
      have fail: "sends e s h (cleanup_conn s (forget_ssl_buffer s (forget_file s ?h1)))" by (rule closed) simp
      show ?thesis
      proof (cases a)
        case (Wr n)
        define k where "k = min n (length b)"
        let ?h2 = "set_offset s (off + k) (set_filebuf s (drop k b)
            (emit s (take k b) (?h1\<lparr>h_pending_ssl_writes := AList.delete s (h_pending_ssl_writes ?h1)\<rparr>)))"
        obtain zs where zs: "take (end_off - off) (drop off content) = b @ zs" using b(1) by (auto simp: prefix_def)
        have "take k b = take k (take (end_off - off) (drop off content))" unfolding zs by (simp add: k_def)
        then have tk: "take k b = take (min k (end_off - off)) (drop off content)" by simp
        have len: "length (take k b) = k" by (simp add: k_def)
        then have le: "length (take k b) \<le> end_off - off" "k \<le> end_off - off"
          using arg_cong [OF zs, of length] by (simp_all add: k_def)
        have split: "take (end_off - off) (drop off content) = take k b @ take (end_off - (off + k)) (drop (off + k) content)"
          using take_split_at [OF tk le(1)] len by (simp add: add.commute)
        have pre: "prefix (drop k b) (take (end_off - (off + k)) (drop (off + k) content))"
          using b(1) split by (metis append_take_drop_id same_prefix_prefix)
        have "file_ok e s ?h2" by (rule file_ok_at) (use Cons.prems(1) pre in simp_all)
        then have snd: "sends e s h ?h2"
          using Cons.prems un split by (intro sends_step [where bytes = "take k b"]) (auto simp: unsent_def unsent_at)
        have "file_phase e s ?h2 (send_file_ssl e s fd (off + k) (end_off - (off + k)) as ?h2)"
          by (rule Cons.IH) (use Cons.prems le pre in simp_all, simp add: set_offset_def at_default_def)
        then have "file_phase e s h (send_file_ssl e s fd (off + k) (end_off - (off + k)) as ?h2)"
          using Cons.prems(4) by (intro file_phase_after [OF snd]) simp_all
        moreover have "phase_ok e s h (Inl (arm_write s ?h2))"
          unfolding arm_write_def by (rule phase_ok_Inl [OF arm_stream [OF snd]])
        ultimately show ?thesis
          using False Cons.prems Some Wr fail
          by (subst send_file_ssl.simps, cases "length b \<le> k")
             (simp_all add: Let_def filebuf_of_def diff_diff_eq flip: k_def)
      next
        case (Wr_again want)
        have "file_ok e s (set_offset s off ?h1)" by (rule file_ok_at) (use Cons.prems(1) b(1) in simp_all)
        then have "sends e s h (set_offset s off ?h1)"
          using Cons.prems un by (intro sends_step [where bytes = "[]"]) (simp_all add: unsent_def unsent_at)
        then show ?thesis
          using False Cons.prems Some Wr_again
          by (subst send_file_ssl.simps) (simp add: Let_def filebuf_of_def phase_ok_Inl wait_ssl_stream)
      qed (subst send_file_ssl.simps, use False Cons.prems Some fail in \<open>simp add: Let_def filebuf_of_def\<close>)+
    qed
  qed
qed

lemma send_file_ok:
  assumes "file_ok e s h" "sock_open s h" "queue_of s h = []" "at_default 0 s (h_file_offsets h) \<le> at_default 0 s (h_file_sizes h)"
    "\<not> sock_is_ssl h s \<Longrightarrow> filebuf_of s h = []"
  shows "phase_ok e s h (send_file e s h)"
proof (cases "map_of (h_file_fds h) s")
  case None
  then show ?thesis using assms by (simp add: send_file_def sends_refl)
next
  case (Some fd)
  let ?off = "at_default 0 s (h_file_offsets h)" and ?stop = "at_default 0 s (h_file_sizes h)"
  obtain content where c: "sending_file e s fd content ?stop h" using assms(1) Some by (auto simp: file_ok_def sending_file_def)
  have un: "unsent_file e s h = take (?stop - ?off) (drop ?off content)"
    using c by (simp add: sending_file_def unsent_file_def file_tail_Some)
  have eq: "phase_ok e s h (send_file e s h) = file_phase e s h
      (if sock_is_ssl h s then send_file_ssl e s fd ?off (?stop - ?off) (h_writes h) h
       else send_file_plain e s fd ?off (?stop - ?off) (h_writes h) h)"
    unfolding send_file_def file_phase_def Some option.case Let_def by (rule refl)
  show ?thesis
  proof (cases "sock_is_ssl h s")
    case True
    have "prefix (filebuf_of s h) (take (?stop - ?off) (drop ?off content))"
      using assms(1) un by (simp add: file_ok_def filebuf_of_def)
    from send_file_ssl_ok [OF c refl assms(4,2) this assms(3)] True eq show ?thesis by simp
  next
    case False
    have "file_ok e s (set_offset s ?off h)" by (rule file_ok_at [OF c]) (use assms(5) False in simp)
    then have "sends e s h (set_offset s ?off h)"
      using un unsent_at [OF c, of ?off] by (intro sends_step [where bytes = "[]"]) (simp_all add: unsent_def)
    then have "file_phase e s h (send_file_plain e s fd ?off (?stop - ?off) (h_writes h) h)"
      by (rule file_phase_after) (use assms(2) send_file_plain_ok [OF c assms(4,2) assms(5) assms(3)] False in simp_all)
    with False eq show ?thesis by simp
  qed
qed

text \<open>A finished phase has sent everything.\<close>

lemma send_queue_rest:
  "send_queue s as h = Inr h' \<Longrightarrow>
     h_file_fds h' = h_file_fds h \<and> h_file_offsets h' = h_file_offsets h \<and> h_file_sizes h' = h_file_sizes h \<and>
     h_ssl_file_buffers h' = h_ssl_file_buffers h \<and> h_sockets h' = h_sockets h"
proof (induction as arbitrary: h)
  case (Cons a as)
  have br: "break_armed s h1 = Inr h' \<Longrightarrow> h_file_fds h' = h_file_fds h1 \<and> h_file_offsets h' = h_file_offsets h1 \<and>
      h_file_sizes h' = h_file_sizes h1 \<and> h_ssl_file_buffers h' = h_ssl_file_buffers h1 \<and> h_sockets h' = h_sockets h1" for h1
    by (auto simp: break_armed_def arm_write_def arm_def split: option.splits)
  show ?case
  proof (cases "queue_of s h = []")
    case True
    with Cons.prems show ?thesis by simp
  next
    case False
    show ?thesis
      using Cons.prems False
      by (cases a; cases "sock_is_ssl h s")
         (simp_all add: Let_def split: if_splits, (drule Cons.IH br, simp add: emit_def set_queue_def)+)
  qed
qed (simp split: if_splits)

lemma send_file_finished:
  assumes "send_file e s h = Inr h'" "queue_of s h = []"
  shows "unsent e s h' = []"
proof -
  have "unsent_file e s h' = []"
    using assms(1) by (auto simp: send_file_def Let_def unsent_file_def file_tail_def forget_file_def split: option.splits sum.splits)
  with send_file_input [OF assms(1)] assms(2) show ?thesis by (simp add: unsent_def)
qed

lemma send_pending_ok:
  assumes "file_ok e s h" "sock_open s h" "at_default 0 s (h_file_offsets h) \<le> at_default 0 s (h_file_sizes h)"
    "\<not> sock_is_ssl h s \<Longrightarrow> filebuf_of s h = []"
  shows "phase_ok e s h (send_pending e s h)"
proof -
  note q = send_queue_ok [OF assms(1,2), of "h_writes h"]
  show ?thesis
  proof (cases "send_queue s (h_writes h) h")
    case (Inl r)
    with q show ?thesis by (simp add: send_pending_def)
  next
    case (Inr h1)
    with q have h1: "sends e s h h1" "sock_open s h1" by simp_all
    show ?thesis
    proof (cases "queue_of s h1 = []")
      case False
      then show ?thesis using Inr h1 by (simp add: send_pending_def arm_write_def phase_ok_Inl arm_stream)
    next
      case True
      have "phase_ok e s h1 (send_file e s h1)"
        using True h1 send_queue_rest [OF Inr] assms(3,4)
        by (intro send_file_ok) (auto simp: sends_def filebuf_of_def sock_is_ssl_def)
      from phase_ok_after [OF h1 this] True Inr show ?thesis by (simp add: send_pending_def)
    qed
  qed
qed

subsection \<open>Delivery\<close>

text \<open>C39: a client receives the queued response and its file byte for byte. A round of writing hands some
  first part of the unsent bytes to the socket, in order and once, and to no other connection; while the
  connection stays open the rest is exactly what remains to be sent, and a round that completes has sent
  everything. This holds for plain and TLS connections and for every pattern of partial writes.\<close>

theorem response_bytes_in_order:
  assumes "file_ok e s h" "sock_open s h" "at_default 0 s (h_file_offsets h) \<le> at_default 0 s (h_file_sizes h)"
    "sock_is_ssl h s \<or> filebuf_of s h = []"
  shows "case send_pending e s h of
      Inr h' \<Rightarrow> delivered s h' = delivered s h @ unsent e s h \<and> unsent e s h' = [] \<and>
        (\<forall>t. t \<noteq> s \<longrightarrow> delivered t h' = delivered t h)
    | Inl (Hang h') \<Rightarrow> True
    | Inl r \<Rightarrow> \<exists>n. delivered s (state_of r) = delivered s h @ take n (unsent e s h) \<and>
        (sock_open s (state_of r) \<longrightarrow> unsent e s (state_of r) = drop n (unsent e s h) \<and> file_ok e s (state_of r)) \<and>
        (\<forall>t. t \<noteq> s \<longrightarrow> delivered t (state_of r) = delivered t h)"
proof -
  note ok = send_pending_ok [OF assms(1-3)]
  show ?thesis
  proof (cases "send_pending e s h")
    case (Inl r)
    with ok assms(4) show ?thesis by (cases r) (auto simp: sends_def)
  next
    case (Inr h')
    then obtain h1 where h1: "send_file e s h1 = Inr h'" "queue_of s h1 = []"
      by (auto simp: send_pending_def split: sum.splits if_splits)
    have "unsent e s h' = []" by (rule send_file_finished [OF h1])
    with Inr ok assms(4) show ?thesis by (auto simp: sends_def)
  qed
qed

definition stream_sample :: handler where
  "stream_sample =
     (handler_create config_default (manager_new upstream_config_default) (manager_create rate_limit_default) sample_network)
       \<lparr>h_sockets := [(2, \<lparr>so_fd = 7, so_is_ssl = False\<rparr>)], h_epoll := [(7, EPOLLIN)],
        h_send_queues := [(2, [''he'', ''ad''])], h_writes := [Wr 3, Wr 9]\<rparr>"

lemma socket_kept:
  "sock_is_ssl (emit t b h) s = sock_is_ssl h s" "sock_is_ssl (set_queue t q h) s = sock_is_ssl h s"
  "sock_is_ssl (h\<lparr>h_writes := as\<rparr>) s = sock_is_ssl h s" "h_file_fds (emit t b h) = h_file_fds h"
  "h_file_fds (set_queue t q h) = h_file_fds h"
  by (simp_all add: emit_def set_queue_def sock_is_ssl_def)

theorem response_bytes_in_order_witness:
  "\<exists>h'. send_pending sample_env 2 stream_sample = Inr h' \<and> delivered 2 h' = ''head'' \<and> unsent sample_env 2 h' = []"
proof -
  have f: "map_of (h_file_fds stream_sample) 2 = None" "h_file_offsets stream_sample = []" "h_file_sizes stream_sample = []"
    "h_ssl_file_buffers stream_sample = []" "queue_of 2 stream_sample = [''he'', ''ad'']" "h_sent stream_sample = []"
    "h_writes stream_sample = [Wr 3, Wr 9]" "sock_fd stream_sample 2 = 7" "\<not> sock_is_ssl stream_sample 2"
    by (simp_all add: stream_sample_def handler_create_def queue_of_def at_default_def sock_fd_def sock_is_ssl_def)
  have u: "unsent sample_env 2 stream_sample = ''head''" "delivered 2 stream_sample = []"
    by (simp_all add: unsent_def unsent_file_def file_tail_def f delivered_def)
  have "file_ok sample_env 2 stream_sample" "sock_open 2 stream_sample" "filebuf_of 2 stream_sample = []"
    by (simp_all add: file_ok_def f sock_open_def filebuf_of_def at_default_def)
  note ok = response_bytes_in_order [OF this(1,2), unfolded f at_default_def, simplified, OF disjI2, OF this(3)]
  have "\<exists>h'. send_queue 2 [Wr 3, Wr 9] stream_sample = Inr h' \<and> queue_of 2 h' = [] \<and> map_of (h_file_fds h') 2 = None"
    using f by (simp add: Let_def kMaxIov_def socket_kept)
  then obtain h' where "send_pending sample_env 2 stream_sample = Inr h'"
    by (auto simp: send_pending_def send_file_def f)
  with ok u show ?thesis by simp
qed

subsection \<open>A file that shrinks\<close>

lemma send_file_plain_stuck:
  "\<lbrakk>env_contents e fd = Some content; length content \<le> off; 0 < rem; list_all (\<lambda>a. \<exists>n. a = Wr n) as\<rbrakk> \<Longrightarrow>
     \<exists>h'. send_file_plain e s fd off rem as h = Inl (Hang h')"
  by (induction as arbitrary: h) (auto simp: Let_def)

text \<open>C40: a file that shrinks while it is sent in the clear stops the worker. The size of a large response
  is the one the descriptor cache remembers; when the file now ends at or before the next offset, \<^verbatim>\<open>sendfile\<close>
  returns zero and the loop in \<^verbatim>\<open>handle_write\<close>, which tests only for positive and negative results, never
  returns, however often the kernel is asked. (Over TLS the same situation closes the connection.)\<close>

theorem sendfile_past_end_hangs:
  assumes "map_of (h_file_fds h) s = Some fd" "env_contents e fd = Some content"
    "length content \<le> at_default 0 s (h_file_offsets h)"
    "at_default 0 s (h_file_offsets h) < at_default 0 s (h_file_sizes h)"
    "\<not> sock_is_ssl h s" "queue_of s h = []" "list_all (\<lambda>a. \<exists>n. a = Wr n) (h_writes h)"
  shows "\<exists>h'. handle_write e s h = Hang h'"
proof -
  let ?h = "set_queue s [] h"
  have f: "h_file_fds ?h = h_file_fds h" "h_file_offsets ?h = h_file_offsets h" "h_file_sizes ?h = h_file_sizes h"
    "h_writes ?h = h_writes h" "sock_is_ssl ?h s = sock_is_ssl h s"
    by (simp_all add: set_queue_def sock_is_ssl_def)
  obtain h' where h': "send_file_plain e s fd (at_default 0 s (h_file_offsets h))
      (at_default 0 s (h_file_sizes h) - at_default 0 s (h_file_offsets h)) (h_writes h) ?h = Inl (Hang h')"
    using send_file_plain_stuck [OF assms(2,3) _ assms(7)] assms(4) by (metis zero_less_diff)
  have "send_queue s (h_writes h) ?h = Inr ?h" by (cases "h_writes h") simp_all
  then have "send_pending e s ?h = Inl (Hang h')"
    using h' assms(1,5) by (simp add: send_pending_def send_file_def f Let_def)
  then have "write_loop e s h = Hang h'"
    by (subst write_loop.simps) (simp add: assms(6))
  then show ?thesis by (simp add: handle_write_def)
qed

definition shrunk_sample :: handler where
  "shrunk_sample = stream_sample\<lparr>h_send_queues := [], h_file_fds := [(2, 9)], h_file_offsets := [(2, 4)], h_file_sizes := [(2, 10)]\<rparr>"

theorem sendfile_past_end_hangs_witness:
  "\<exists>h'. handle_write (sample_env\<lparr>env_contents := (\<lambda>fd. Some ''abcd'')\<rparr>) 2 shrunk_sample = Hang h'"
  by (rule sendfile_past_end_hangs [where fd = 9 and content = "''abcd''"])
     (simp_all add: shrunk_sample_def stream_sample_def handler_create_def at_default_def sock_is_ssl_def queue_of_def)

end
