(* ===== verification/Spec2Isabelle.thy ===== *)
theory Spec2Isabelle
  imports Http_Wire Route_Utils Api_Key_Manager Connection_Budget Rate_Limiter Connection_Pool Upstream_Manager
    File_Cache Fd_Cache Logging_Utils Upstream_Wire Gateway_Metrics Handler_Stream
begin

text \<open>
  A verification library for an epoll-based HTTP gateway written in C++.

  \<^bold>\<open>The program.\<close> Worker threads run one event loop each. A worker reads a client socket into the request
  parser (\<^verbatim>\<open>src/src/common/http_parser.cpp\<close>), resolves the request to a route, checks the API key and the rate
  limit, and either answers in place, serves a static file through two caches, or starts one or several
  round trips to backends (\<^verbatim>\<open>src/src/server/http_handler.cpp\<close>). A round trip is a state machine
  (\<^verbatim>\<open>UpstreamExchange\<close> in \<^verbatim>\<open>http_client.cpp\<close>) that the same loop drives; it takes connections from a pool, and the
  upstream manager chooses the server and keeps a circuit breaker per backend. Responses are queued and written
  when the socket takes them.

  \<^bold>\<open>Theories and sources.\<close>
  \<^item> \<^verbatim>\<open>Gateway_Prelude\<close>: strings as lists of bytes, searching, splitting, decimal and hexadecimal numbers,
    association lists. \<^verbatim>\<open>Gateway_Interfaces\<close>: the contracts (locales) for byte-stream machines and traces of events.
  \<^item> \<^verbatim>\<open>Http_Parser\<close>: \<^verbatim>\<open>HttpParser\<close>, one definition per state of \<^verbatim>\<open>parse\<close>, the cursor arithmetic at 64 bits where it
    matters. \<^verbatim>\<open>Http_Wire\<close>: the wire format and the round trips of the parser.
  \<^item> \<^verbatim>\<open>Gateway_Config\<close>: the structs of \<^verbatim>\<open>include/server/config.h\<close> and \<^verbatim>\<open>Config::validate\<close>. \<^verbatim>\<open>Route_Utils\<close>: route matching and
    the static path check of \<^verbatim>\<open>route_utils.h\<close>. \<^verbatim>\<open>Api_Key_Manager\<close>, \<^verbatim>\<open>Connection_Budget\<close>, \<^verbatim>\<open>Rate_Limiter\<close>, \<^verbatim>\<open>Connection_Pool\<close>,
    \<^verbatim>\<open>Upstream_Manager\<close>, \<^verbatim>\<open>Logging_Utils\<close>, \<^verbatim>\<open>Gateway_Metrics\<close>: the classes and namespaces of the same names. Times are integers in
    nanoseconds; the clock is an argument of each operation.
  \<^item> \<^verbatim>\<open>Lru_Store\<close>: the contract of a store with least-recently-used eviction. \<^verbatim>\<open>File_Cache\<close> and \<^verbatim>\<open>Fd_Cache\<close> (\<^verbatim>\<open>file_cache.cpp\<close>,
    \<^verbatim>\<open>fd_cache.cpp\<close>) provide it.
  \<^item> \<^verbatim>\<open>Http_Message\<close>, \<^verbatim>\<open>Chunk_Scan\<close>, \<^verbatim>\<open>Upstream_Exchange\<close>, \<^verbatim>\<open>Upstream_Wire\<close>: responses and their headers, the chunk scanner, the
    exchange state machine and its framing (\<^verbatim>\<open>http_client.cpp\<close>, \<^verbatim>\<open>http_parser.h\<close>, \<^verbatim>\<open>content_type.cpp\<close>, \<^verbatim>\<open>gzip_utils.cpp\<close>).
  \<^item> \<^verbatim>\<open>Handler_Support\<close>, \<^verbatim>\<open>Handler_Routes\<close>, \<^verbatim>\<open>Handler_State\<close>, \<^verbatim>\<open>Handler_Upstream\<close>, \<^verbatim>\<open>Handler_Requests\<close>, \<^verbatim>\<open>Handler_Write\<close>: the class
    \<^verbatim>\<open>HttpHandler\<close>, in this order its helpers, its route table and built-in handlers, its maps as the record
    \<^verbatim>\<open>handler\<close> with the response and connection operations, the round trips, \<^verbatim>\<open>send_response\<close> with \<^verbatim>\<open>handle_read\<close>, and
    \<^verbatim>\<open>handle_write\<close>. \<^verbatim>\<open>Handler_Frame\<close> shows what an operation on one connection leaves alone, \<^verbatim>\<open>Handler_Stream\<close> follows
    the bytes of a response.

  \<^bold>\<open>Modelling conventions.\<close> A \<^verbatim>\<open>Socket*\<close> is a number, a map keyed by it an association list, and \<^verbatim>\<open>m[k]\<close> on a missing
  key inserts the default as in C++. An operation that may throw returns \<^verbatim>\<open>Ret\<close>, \<^verbatim>\<open>Raise\<close> or, when the answers of the
  environment run out in the middle of a loop, \<^verbatim>\<open>Hang\<close>. What comes from outside the sources (clocks, \<^verbatim>\<open>std::hash\<close>,
  the JSON library, zlib, the file system, the version string) is the record \<^verbatim>\<open>env\<close>; what sockets, TLS and connects
  answer is a list of values consumed one per call. Log output other than the audit and access lines is left out.

  \<^bold>\<open>Results.\<close>
  \<^item> Requests: parsing is independent of how the stream is cut, accepted requests have one framing, the
    parser holds bounded data, and printed requests are parsed back.
  \<^item> Routing and access: the matcher decides the route language, resolution takes the first match, the
    probe endpoints stay open, authorisation is exactly the configured policy, static paths stay in the root.
  \<^item> Resources: the connection budget is never exceeded, rate limits bound the grants and make progress,
    pools are first-in first-out, caches are coherent and own their descriptors.
  \<^item> Backends: the breaker refines a three-state machine, a half-open backend gets one probe, selection is
    fair, requests are not replayed unless idempotent, exchanges end in success or a classified error,
    and both directions of the wire format round-trip. In \<^verbatim>\<open>Handler_Upstream\<close> the locale \<^verbatim>\<open>upstream_invariant\<close> carries
    an invariant through events, retries, timeouts and starts; it is interpreted for the registrations of
    backend sockets and for the number of attempts.
  \<^item> Responses: what is queued can be delimited by its receiver, and is written in order, once, and to its
    own connection.
  \<^item> Errors found: the theorems of kind error state behaviour the code has and does not mean to have: a
    chunk scan and a file transfer that never end, a key comparison that ignores NUL padding, a sibling
    directory that passes the path check.

  \<^bold>\<open>Termination and bounds.\<close> Loops over data are structural or have a measure: the parsing loop of \<^verbatim>\<open>handle_read\<close>
  consumes a byte in every round, its reading loop and the loop of \<^verbatim>\<open>handle_write\<close> consume a socket answer or
  a byte of the buffer, \<^verbatim>\<open>drive_child\<close> consumes an answer. The chunk scanner may run forever and is a partial
  function whose divergence and termination are both proved. No fuel is used. The limits of the code
  (header sizes, body sizes, 64 buffers per write, blocks of 65536 bytes) are the constants of the model.

  \<^bold>\<open>Not modelled.\<close> The TCP worker and the admin server, which call the modelled operations from their own loops;
  \<^verbatim>\<open>Config::from_file\<close>, a field-by-field use of the JSON library; \<^verbatim>\<open>forward_request\<close>, the blocking client that only
  the tests call; the wrappers around system calls, epoll waiting and OpenSSL, whose answers are inputs
  here; logger setup, program start and the interactive client. Data races between workers are outside the
  model: shared objects are locked in the code and each operation is one step here.
\<close>

end
